(* ===== verification/Prelude.thy ===== *)
theory Prelude
  imports Complex_Main "HOL-Library.Word"
begin

section \<open>Prelude: types, exceptions and generic lemmas\<close>

text \<open>
  What every component shares: names for the machine integers and octet strings of the
  code, the exceptions a C++ call may end with, checked indexing, big-endian splitting and
  joining of words, and the generic lemmas on octet lists the component proofs rest on.
\<close>

unbundle bit_operations_syntax

type_synonym u8 = "8 word"
type_synonym u16 = "16 word"
type_synonym u32 = "32 word"
type_synonym u64 = "64 word"
type_synonym octets = "u8 list"

named_theorems codec_simps \<open>evaluation of the octet-level parsers and generators\<close>
named_theorems preserved \<open>preservation of invariants by the operations\<close>

subsection \<open>Exceptions and results\<close>

text \<open>
  How a call can fail to return a value: the exception types the code throws itself or
  that the standard library and Boost throw on its behalf, and, as a value of its own, an
  access the C++ standard leaves undefined (a dereferenced null pointer or empty optional,
  an iterator outside its container).
\<close>

datatype exn =
    Runtime_error string
  | Logic_error string
  | Out_of_range
  | Bad_get
  | System_error
  | Bad_alloc
  | Undefined_behaviour string

type_synonym 'a result = "exn + 'a"

definition rbind :: "'a result \<Rightarrow> ('a \<Rightarrow> 'b result) \<Rightarrow> 'b result" where
  "rbind m f = (case m of Inl e \<Rightarrow> Inl e | Inr x \<Rightarrow> f x)"

lemma rbind_simps [simp]:
  "rbind (Inl e) f = Inl e"
  "rbind (Inr x) f = f x"
  by (simp_all add: rbind_def)

lemma rbind_eq_Inr: "rbind m f = Inr y \<longleftrightarrow> (\<exists>x. m = Inr x \<and> f x = Inr y)"
  by (cases m) auto

lemma rbind_split:
  "P (rbind m f) \<longleftrightarrow> (\<forall>e. m = Inl e \<longrightarrow> P (Inl e)) \<and> (\<forall>x. m = Inr x \<longrightarrow> P (f x))"
  by (cases m) auto

text \<open>\<open>std::vector::at\<close> and its kin: a checked index.\<close>

definition vec_at :: "'a list \<Rightarrow> nat \<Rightarrow> 'a result" where
  "vec_at xs i = (if i < length xs then Inr (xs ! i) else Inl Out_of_range)"

lemma vec_at_simps [simp]:
  "i < length xs \<Longrightarrow> vec_at xs i = Inr (xs ! i)"
  "length xs \<le> i \<Longrightarrow> vec_at xs i = Inl Out_of_range"
  by (simp_all add: vec_at_def)

lemma vec_at_eq_Inr: "vec_at xs i = Inr x \<longleftrightarrow> i < length xs \<and> xs ! i = x"
  by (auto simp: vec_at_def)

text \<open>Dereferencing an iterator at an index that the code computes without a check.\<close>

definition deref_at :: "'a list \<Rightarrow> int \<Rightarrow> 'a result" where
  "deref_at xs i =
     (if 0 \<le> i \<and> i < int (length xs) then Inr (xs ! nat i)
      else Inl (Undefined_behaviour ''iterator out of range''))"

lemma deref_at_eq_Inr:
  "deref_at xs i = Inr x \<longleftrightarrow> 0 \<le> i \<and> i < int (length xs) \<and> xs ! nat i = x"
  by (auto simp: deref_at_def)

subsection \<open>Words as big-endian octets\<close>

definition hi8 :: "u16 \<Rightarrow> u8" where "hi8 w = ucast (drop_bit 8 w)"
definition lo8 :: "u16 \<Rightarrow> u8" where "lo8 w = ucast w"
definition hi16 :: "u32 \<Rightarrow> u16" where "hi16 w = ucast (drop_bit 16 w)"
definition lo16 :: "u32 \<Rightarrow> u16" where "lo16 w = ucast w"

definition join16 :: "u8 \<Rightarrow> u8 \<Rightarrow> u16" where
  "join16 a b = push_bit 8 (ucast a) OR ucast b"

definition join32 :: "u8 \<Rightarrow> u8 \<Rightarrow> u8 \<Rightarrow> u8 \<Rightarrow> u32" where
  "join32 a b c d = push_bit 16 (ucast (join16 a b)) OR ucast (join16 c d)"

definition split16 :: "u16 \<Rightarrow> octets" where
  "split16 w = [hi8 w, lo8 w]"

definition split32 :: "u32 \<Rightarrow> octets" where
  "split32 w = split16 (hi16 w) @ split16 (lo16 w)"

lemma join16_split [simp]: "join16 (hi8 w) (lo8 w) = w"
  by (rule bit_word_eqI)
    (auto simp: join16_def hi8_def lo8_def bit_or_iff bit_push_bit_iff bit_ucast_iff
      bit_drop_bit_eq dest: bit_imp_le_length)

lemma hi8_join16 [simp]: "hi8 (join16 a b) = a"
  by (rule bit_word_eqI)
    (auto simp: join16_def hi8_def bit_or_iff bit_push_bit_iff bit_ucast_iff
      bit_drop_bit_eq dest: bit_imp_le_length)

lemma lo8_join16 [simp]: "lo8 (join16 a b) = b"
  by (rule bit_word_eqI)
    (auto simp: join16_def lo8_def bit_or_iff bit_push_bit_iff bit_ucast_iff
      bit_drop_bit_eq dest: bit_imp_le_length)

lemma join32_split [simp]:
  "join32 (hi8 (hi16 w)) (lo8 (hi16 w)) (hi8 (lo16 w)) (lo8 (lo16 w)) = w"
  by (rule bit_word_eqI)
    (auto simp: join32_def hi16_def lo16_def bit_or_iff bit_push_bit_iff bit_ucast_iff
      bit_drop_bit_eq dest: bit_imp_le_length)

lemma hi16_join32 [simp]: "hi16 (join32 a b c d) = join16 a b"
  by (rule bit_word_eqI)
    (auto simp: join32_def hi16_def bit_or_iff bit_push_bit_iff bit_ucast_iff
      bit_drop_bit_eq dest: bit_imp_le_length)

lemma lo16_join32 [simp]: "lo16 (join32 a b c d) = join16 c d"
  by (rule bit_word_eqI)
    (auto simp: join32_def lo16_def bit_or_iff bit_push_bit_iff bit_ucast_iff
      bit_drop_bit_eq dest: bit_imp_le_length)

lemma length_split16 [simp]: "length (split16 w) = 2"
  by (simp add: split16_def)

lemma length_split32 [simp]: "length (split32 w) = 4"
  by (simp add: split32_def)

lemma join16_XOR: "join16 (a XOR c) (b XOR d) = join16 a b XOR join16 c d"
  by (rule bit_word_eqI)
    (auto simp: join16_def bit_or_iff bit_xor_iff bit_push_bit_iff bit_ucast_iff
      dest: bit_imp_le_length)

lemma join32_XOR:
  "join32 (a XOR a') (b XOR b') (c XOR c') (d XOR d') = join32 a b c d XOR join32 a' b' c' d'"
  by (rule bit_word_eqI)
    (auto simp: join32_def join16_XOR bit_or_iff bit_xor_iff bit_push_bit_iff bit_ucast_iff
      dest: bit_imp_le_length)

lemma split16_join16 [simp]: "split16 (join16 a b) = [a, b]"
  by (simp add: split16_def)

lemma split32_join32 [simp]: "split32 (join32 a b c d) = [a, b, c, d]"
  by (simp add: split32_def)

lemma split32_list: "split32 w = [hi8 (hi16 w), lo8 (hi16 w), hi8 (lo16 w), lo8 (lo16 w)]"
  by (simp add: split32_def split16_def)

subsection \<open>Single bits of octets\<close>

lemma not_bit_ge:
  fixes w :: "'a::len word"
  assumes "unat w < 2 ^ n" and "n \<le> k"
  shows "\<not> bit w k"
proof -
  have "unat w < 2 ^ k"
    using assms by (meson less_le_trans one_le_numeral power_increasing)
  then have "\<not> bit (unat w) k"
    by (simp add: bit_iff_odd)
  then show ?thesis
    by (simp add: bit_unsigned_iff)
qed

lemma u8_eqI:
  fixes a b :: u8
  assumes "bit a 0 = bit b 0" "bit a 1 = bit b 1" "bit a 2 = bit b 2" "bit a 3 = bit b 3"
    and "bit a 4 = bit b 4" "bit a 5 = bit b 5" "bit a 6 = bit b 6" "bit a 7 = bit b 7"
  shows "a = b"
proof (rule bit_word_eqI)
  fix n assume "n < LENGTH(8)"
  then have "n = 0 \<or> n = 1 \<or> n = 2 \<or> n = 3 \<or> n = 4 \<or> n = 5 \<or> n = 6 \<or> n = 7" by auto
  then show "bit a n = bit b n" using assms by auto
qed

lemma low4_bits:
  "(c::u8) < 16 \<Longrightarrow> \<not> bit c 4 \<and> \<not> bit c 5 \<and> \<not> bit c 6 \<and> \<not> bit c 7"
  using not_bit_ge [of c 4] by (simp add: word_less_nat_alt)

lemma low7_bits: "(c::u8) < 128 \<Longrightarrow> \<not> bit c 7"
  using not_bit_ge [of c 7] by (simp add: word_less_nat_alt)

lemmas u8_bit_simps = bit_and_iff bit_or_iff bit_push_bit_iff bit_drop_bit_eq bit_of_bool_iff

lemma hi8_hi16_small: "(w::u32) < 2 ^ 24 \<Longrightarrow> hi8 (hi16 w) = 0"
proof (rule bit_word_eqI)
  fix n assume "w < 2 ^ 24" "n < LENGTH(8)"
  then have "\<not> bit w (n + 24)"
    using not_bit_ge [of w 24 "n + 24"] by (simp add: word_less_nat_alt)
  then show "bit (hi8 (hi16 w)) n = bit (0::u8) n"
    by (simp add: hi8_def hi16_def bit_ucast_iff bit_drop_bit_eq add.commute add.left_commute)
qed

lemma unat_join32_small: "unat (join32 0 a b c) < 2 ^ 24"
proof -
  have "take_bit 24 (join32 0 a b c) = join32 0 a b c"
    by (rule bit_word_eqI)
      (auto simp: join32_def join16_def bit_take_bit_iff bit_or_iff bit_push_bit_iff bit_ucast_iff
        dest: bit_imp_le_length)
  then show ?thesis
    by (metis take_bit_nat_less_exp unsigned_take_bit_eq)
qed

lemma and_15_less: "(a::u8) AND 15 < 16"
  by (rule le_less_trans [OF word_and_le1]) simp

lemma and_127_less: "(a::u8) AND 127 < 128"
  by (rule le_less_trans [OF word_and_le1]) simp

lemma flag_test: "drop_bit n (x::u8) AND 1 = 0 \<longleftrightarrow> \<not> bit x n"
  by (simp add: and_one_eq bit_iff_odd_drop_bit odd_iff_mod_2_eq_one)

subsection \<open>Widening\<close>

lemma uint_widen [simp]:
  "uint (ucast (w::u16) :: u32) = uint w"
  "uint (ucast (w::u16) :: u64) = uint w"
  "uint (ucast (v::u32) :: u64) = uint v"
  by (simp_all add: uint_up_ucast is_up)

lemma unat_widen [simp]:
  "unat (ucast (w::u16) :: u32) = unat w"
  "unat (ucast (w::u16) :: u64) = unat w"
  "unat (ucast (v::u32) :: u64) = unat v"
  by (simp_all only: unat_eq_nat_uint uint_widen)

lemma unat_16_less: "unat (w::u16) < 65536"
  using unsigned_less [of w, where ?'a = nat] by simp

lemma uint_less_numeral: "uint (w::'a::len word) < numeral n \<longleftrightarrow> unat w < numeral n"
  unfolding uint_nat by (simp only: of_nat_less_numeral_iff)

lemma le_uint_numeral: "numeral n \<le> uint (w::'a::len word) \<longleftrightarrow> numeral n \<le> unat w"
  using uint_less_numeral [of w n] by linarith

lemma uint_le_numeral: "uint (w::'a::len word) \<le> numeral n \<longleftrightarrow> unat w \<le> numeral n"
  unfolding uint_nat by (simp only: of_nat_le_numeral_iff)

subsection \<open>Destructing long lists\<close>

lemma length_ge_12E:
  assumes "\<not> length (xs::'a list) < 12"
  obtains a b c d e f g h i j k l ys where "xs = a # b # c # d # e # f # g # h # i # j # k # l # ys"
  using assms by (auto simp: not_less Suc_le_length_iff eval_nat_numeral)

lemma length_ge_8E:
  assumes "\<not> length (xs::'a list) < 8"
  obtains a b c d e f g h ys where "xs = a # b # c # d # e # f # g # h # ys"
  using assms by (auto simp: not_less Suc_le_length_iff eval_nat_numeral)

end
