(* ===== verification/Spirit.thy ===== *)
theory Spirit
  imports Prelude
begin

section \<open>The interface to Boost.Spirit's binary primitives\<close>

text \<open>
  The packet code reads and writes octets through the binary primitives of Boost.Spirit
  (\<open>qi::byte_\<close>, \<open>qi::big_word\<close>, \<open>qi::big_dword\<close> and their \<open>karma\<close> counterparts), which are
  not part of the repository. They are a parameter of the model: a record of six functions
  that every codec takes as its first argument. The locale \<open>spirit_octets\<close> states their
  documented behaviour, in network byte order; the codec lemmas are proved inside it, once.
  A parser returns the value and the rest of the input, or \<open>None\<close> when it fails; a failing
  parser leaves the iterator and the attribute as they were.
\<close>

record spirit =
  qi_byte :: "octets \<Rightarrow> (u8 \<times> octets) option"
  qi_big_word :: "octets \<Rightarrow> (u16 \<times> octets) option"
  qi_big_dword :: "octets \<Rightarrow> (u32 \<times> octets) option"
  karma_byte :: "u8 \<Rightarrow> octets"
  karma_big_word :: "u16 \<Rightarrow> octets"
  karma_big_dword :: "u32 \<Rightarrow> octets"

text \<open>
  \<open>qi::parse(begin, end, p, attr);\<close> with its result ignored, as the code has it
  everywhere: on success the attribute and the iterator are updated, on failure both stay.
\<close>

definition qi_into :: "(octets \<Rightarrow> ('a \<times> octets) option) \<Rightarrow> 'a \<Rightarrow> octets \<Rightarrow> 'a \<times> octets" where
  "qi_into p attr bs = (case p bs of None \<Rightarrow> (attr, bs) | Some (v, rest) \<Rightarrow> (v, rest))"

locale spirit_octets =
  fixes sp :: spirit
  assumes qi_byte_Nil: "qi_byte sp [] = None"
    and qi_byte_Cons: "qi_byte sp (b # bs) = Some (b, bs)"
    and qi_big_word_short: "length bs < 2 \<Longrightarrow> qi_big_word sp bs = None"
    and qi_big_word_Cons: "qi_big_word sp (a # b # bs) = Some (join16 a b, bs)"
    and qi_big_dword_short: "length bs < 4 \<Longrightarrow> qi_big_dword sp bs = None"
    and qi_big_dword_Cons: "qi_big_dword sp (a # b # c # d # bs) = Some (join32 a b c d, bs)"
    and karma_byte_eq: "karma_byte sp b = [b]"
    and karma_big_word_eq: "karma_big_word sp w = split16 w"
    and karma_big_dword_eq: "karma_big_dword sp v = split32 v"
begin

lemma into_byte_Cons: "qi_into (qi_byte sp) x (b # bs) = (b, bs)"
  by (simp add: qi_into_def qi_byte_Cons)

lemma into_word_Cons: "qi_into (qi_big_word sp) x (a # b # bs) = (join16 a b, bs)"
  by (simp add: qi_into_def qi_big_word_Cons)

lemma into_word_short: "length bs < 2 \<Longrightarrow> qi_into (qi_big_word sp) x bs = (x, bs)"
  by (simp add: qi_into_def qi_big_word_short)

lemma into_dword_Cons: "qi_into (qi_big_dword sp) x (a # b # c # d # bs) = (join32 a b c d, bs)"
  by (simp add: qi_into_def qi_big_dword_Cons)

lemma into_dword_short: "length bs < 4 \<Longrightarrow> qi_into (qi_big_dword sp) x bs = (x, bs)"
  by (simp add: qi_into_def qi_big_dword_short)

lemma into_word_split: "qi_into (qi_big_word sp) x (split16 w @ bs) = (w, bs)"
  by (simp add: split16_def into_word_Cons)

lemma into_dword_split: "qi_into (qi_big_dword sp) x (split32 w @ bs) = (w, bs)"
  by (simp add: split32_def split16_def into_dword_Cons)

lemmas into_simps =
  into_byte_Cons into_word_Cons into_dword_Cons into_word_split into_dword_split
lemmas karma_simps = karma_byte_eq karma_big_word_eq karma_big_dword_eq

end

text \<open>
  Functions that behave as documented: the locale is not empty, and a concrete packet can
  be parsed and generated by evaluation.
\<close>

definition octet_spirit :: spirit where
  "octet_spirit =
     \<lparr>qi_byte = (\<lambda>bs. case bs of b # r \<Rightarrow> Some (b, r) | _ \<Rightarrow> None),
      qi_big_word = (\<lambda>bs. case bs of a # b # r \<Rightarrow> Some (join16 a b, r) | _ \<Rightarrow> None),
      qi_big_dword =
        (\<lambda>bs. case bs of a # b # c # d # r \<Rightarrow> Some (join32 a b c d, r) | _ \<Rightarrow> None),
      karma_byte = (\<lambda>b. [b]),
      karma_big_word = split16,
      karma_big_dword = split32\<rparr>"

interpretation octet: spirit_octets octet_spirit
  by unfold_locales (auto simp: octet_spirit_def split: list.split)

end
