(* ===== verification/Rtp_Packet.thy ===== *)
theory Rtp_Packet
  imports Spirit
begin

section \<open>RTP packets: \<open>rtp_packet.hpp\<close>\<close>

text \<open>
  The packet structures, the two parsers and the three generators of the RTP library. The
  inheritance \<open>custom_jpeg_payload_header : header<...>\<close> is record extension. A parser
  takes the attribute it fills (callers may pass a used packet, and a failing parse leaves
  a partly filled one) and returns whether it succeeded, the attribute and the rest of the
  input. A generator returns whether it succeeded and what it wrote: like the code's sink,
  the output of a failing generator is kept. \<open>uint_fast8_t\<close> and \<open>uint_fast32_t\<close> have
  their guaranteed widths.
\<close>

subsection \<open>Structures\<close>

record rtp_header =
  version :: u8
  padding_set :: bool
  extension_bit :: bool
  csrc :: u8
  marker :: bool
  payload_type_field :: u8
  sequence_number :: u16
  timestamp :: u32
  ssrc :: u32
  csrcs :: "u32 list"
  header_extension :: octets

record custom_jpeg_payload_header = rtp_header +
  type_specific :: u8
  fragment_offset :: u32
  jpeg_type :: u8
  quantization_table :: u8
  image_width :: u8
  image_height :: u8

record custom_jpeg_packet =
  jpeg_header :: custom_jpeg_payload_header
  jpeg_data :: octets

record custom_fec_header = rtp_header +
  extension_flag :: bool
  long_mask_flag :: bool
  p_recovery_field :: bool
  x_recovery_field :: bool
  cc_recovery_field :: u8
  m_recovery_field :: bool
  pt_recovery_field :: u8
  sn_base_field :: u16
  ts_recovery_field :: u32
  length_recovery_field :: u16

record custom_fec_level_header =
  protection_length_field :: u16
  mask_field :: u64

record custom_fec_packet =
  fec_header :: custom_fec_header
  fec_levels :: "(custom_fec_level_header \<times> octets) list"

text \<open>The default member initialisers.\<close>

definition standard_rtp_header :: rtp_header where
  "standard_rtp_header =
     \<lparr>version = 2, padding_set = False, extension_bit = False, csrc = 0, marker = False,
      payload_type_field = 0, sequence_number = 0, timestamp = 0, ssrc = 0, csrcs = [],
      header_extension = []\<rparr>"

definition new_jpeg_packet :: custom_jpeg_packet where
  "new_jpeg_packet =
     \<lparr>jpeg_header = rtp_header.extend standard_rtp_header
        (custom_jpeg_payload_header.fields 0 0 0 0 0 0),
      jpeg_data = []\<rparr>"

definition new_fec_packet :: custom_fec_packet where
  "new_fec_packet =
     \<lparr>fec_header = rtp_header.extend standard_rtp_header
        (custom_fec_header.fields False False False False 0 False 0 0 0 0),
      fec_levels = []\<rparr>"

subsection \<open>Parsing the RTP header\<close>

text \<open>The loop that reads the contributing sources; \<open>push_back\<close> happens on every round.\<close>

fun parse_csrcs :: "spirit \<Rightarrow> nat \<Rightarrow> u32 list \<Rightarrow> octets \<Rightarrow> u32 list \<times> octets" where
  "parse_csrcs sp 0 acc bs = (acc, bs)"
| "parse_csrcs sp (Suc n) acc bs =
     (let (c, bs) = qi_into (qi_big_dword sp) 0 bs in parse_csrcs sp n (acc @ [c]) bs)"

text \<open>
  The header extension: four octets are copied and skipped, then a length is read from what
  follows them, then so many 32-bit words are copied.
\<close>

definition parse_extension ::
    "spirit \<Rightarrow> 'x rtp_header_scheme \<Rightarrow> octets \<Rightarrow> bool \<times> 'x rtp_header_scheme \<times> octets" where
  "parse_extension sp hdr bs =
     (if length bs < 4 then (False, hdr, bs)
      else
        let header_extension_header = take 4 bs;
            bs = drop 4 bs;
            (header_extension_length, bs) = qi_into (qi_big_word sp) 0 bs;
            hdr = hdr\<lparr>header_extension := header_extension_header\<rparr>;
            n = 4 * unat header_extension_length
        in if length bs < n then (False, hdr, bs)
           else (True, hdr\<lparr>header_extension := header_extension hdr @ take n bs\<rparr>, drop n bs))"

text \<open>
  The part both grammars share word for word: the twelve fixed octets, the contributing
  sources, the extension. The last component is the octet buffer, which the FEC grammar goes
  on using.
\<close>

definition parse_rtp_header ::
    "spirit \<Rightarrow> 'x rtp_header_scheme \<Rightarrow> octets \<Rightarrow> bool \<times> 'x rtp_header_scheme \<times> octets \<times> u8" where
  "parse_rtp_header sp hdr bs =
     (if bs = [] then (False, hdr, bs, 0)
      else if length bs < 3 * 4 then (False, hdr, bs, 0)
      else
        let (octet, bs) = qi_into (qi_byte sp) 0 bs;
            hdr = hdr\<lparr>version := drop_bit 6 (octet AND 0xC0)\<rparr>
        in if version hdr \<noteq> 2 then (False, hdr, bs, octet)
        else
        let hdr = hdr\<lparr>padding_set := drop_bit 5 (octet AND 0x20) \<noteq> 0,
                      extension_bit := drop_bit 4 (octet AND 0x10) \<noteq> 0,
                      csrc := octet AND 0x0F\<rparr>;
            (octet, bs) = qi_into (qi_byte sp) octet bs;
            hdr = hdr\<lparr>marker := drop_bit 7 (octet AND 0x80) \<noteq> 0,
                      payload_type_field := octet AND 0x7F\<rparr>;
            (sn, bs) = qi_into (qi_big_word sp) (sequence_number hdr) bs;
            (ts, bs) = qi_into (qi_big_dword sp) (timestamp hdr) bs;
            (src, bs) = qi_into (qi_big_dword sp) (ssrc hdr) bs;
            hdr = hdr\<lparr>sequence_number := sn, timestamp := ts, ssrc := src\<rparr>
        in if length bs < 4 * unat (csrc hdr) then (False, hdr, bs, octet)
        else
        let (cs, bs) = parse_csrcs sp (unat (csrc hdr)) (csrcs hdr) bs;
            hdr = hdr\<lparr>csrcs := cs\<rparr>
        in if extension_bit hdr
           then let (ok, hdr, bs) = parse_extension sp hdr bs in (ok, hdr, bs, octet)
           else (True, hdr, bs, octet))"

subsection \<open>\<open>custom_jpeg_packet_grammar::parse\<close>\<close>

definition custom_jpeg_parse ::
    "spirit \<Rightarrow> custom_jpeg_packet \<Rightarrow> octets \<Rightarrow> bool \<times> custom_jpeg_packet \<times> octets" where
  "custom_jpeg_parse sp packet bs =
     (let (ok, hdr, bs, octet) = parse_rtp_header sp (jpeg_header packet) bs
      in if \<not> ok then (False, packet\<lparr>jpeg_header := hdr\<rparr>, bs)
      else if payload_type_field hdr \<noteq> 26 then (False, packet\<lparr>jpeg_header := hdr\<rparr>, bs)
      else if length bs < 4 * 2 then (False, packet\<lparr>jpeg_header := hdr\<rparr>, bs)
      else
      let (tspec, bs) = qi_into (qi_byte sp) (type_specific hdr) bs;
          (fo1, bs) = qi_into (qi_byte sp) 0 bs;
          (fo2, bs) = qi_into (qi_byte sp) 0 bs;
          (fo3, bs) = qi_into (qi_byte sp) 0 bs;
          (fo, _) = qi_into (qi_big_dword sp) (fragment_offset hdr) [0, fo1, fo2, fo3];
          (jt, bs) = qi_into (qi_byte sp) (jpeg_type hdr) bs;
          (qt, bs) = qi_into (qi_byte sp) (quantization_table hdr) bs;
          (w, bs) = qi_into (qi_byte sp) (image_width hdr) bs;
          (h, bs) = qi_into (qi_byte sp) (image_height hdr) bs;
          hdr = hdr\<lparr>type_specific := tspec, fragment_offset := fo, jpeg_type := jt,
                    quantization_table := qt, image_width := w, image_height := h\<rparr>
      in (True, packet\<lparr>jpeg_header := hdr, jpeg_data := jpeg_data packet @ bs\<rparr>, []))"

subsection \<open>\<open>custom_fec_packet_grammar::parse\<close>\<close>

text \<open>
  The octets of the level mask: octet \<open>i\<close> is shifted to the top of the 64-bit field. The
  bound is checked before a level is read, so every read of a byte succeeds.
\<close>

fun parse_mask :: "spirit \<Rightarrow> nat \<Rightarrow> nat \<Rightarrow> u64 \<Rightarrow> u8 \<Rightarrow> octets \<Rightarrow> u64 \<times> u8 \<times> octets" where
  "parse_mask sp i 0 m octet bs = (m, octet, bs)"
| "parse_mask sp i (Suc n) m octet bs =
     (let (octet, bs) = qi_into (qi_byte sp) octet bs
      in parse_mask sp (Suc i) n (m OR push_bit (8 * (7 - i)) (ucast octet)) octet bs)"

text \<open>
  The \<open>while\<close> loop over the levels. A level's payload is everything up to the end of the
  datagram, but the iterator advances by the protection length only. The loop makes
  progress only as far as the primitives consume input, so the model has fuel: \<open>None\<close>
  is a loop that has not ended.
\<close>

fun parse_levels ::
    "spirit \<Rightarrow> nat \<Rightarrow> nat \<Rightarrow> (custom_fec_level_header \<times> octets) list \<Rightarrow> u8 \<Rightarrow> octets \<Rightarrow>
       (bool \<times> (custom_fec_level_header \<times> octets) list \<times> octets) option" where
  "parse_levels sp 0 hsize levels octet bs = None"
| "parse_levels sp (Suc fuel) hsize levels octet bs =
     (if length bs < hsize then Some (True, levels, bs)
      else
      let (len, bs) = qi_into (qi_big_word sp) 0 bs;
          (m, octet, bs) = parse_mask sp 0 (hsize - 2) 0 octet bs
      in if length bs < unat len then Some (False, levels, bs)
         else parse_levels sp fuel hsize
                (levels @ [(\<lparr>protection_length_field = len, mask_field = m\<rparr>, bs)])
                octet (drop (unat len) bs))"

definition custom_fec_parse ::
    "spirit \<Rightarrow> nat \<Rightarrow> custom_fec_packet \<Rightarrow> octets \<Rightarrow> (bool \<times> custom_fec_packet \<times> octets) option" where
  "custom_fec_parse sp fuel packet bs =
     (let (ok, hdr, bs, octet) = parse_rtp_header sp (fec_header packet) bs
      in if \<not> ok then Some (False, packet\<lparr>fec_header := hdr\<rparr>, bs)
      else if length bs < 10 then Some (False, packet\<lparr>fec_header := hdr\<rparr>, bs)
      else
      let (octet, bs) = qi_into (qi_byte sp) octet bs;
          hdr = hdr\<lparr>extension_flag := drop_bit 7 (octet AND 0x80) \<noteq> 0,
                    long_mask_flag := drop_bit 6 (octet AND 0x40) \<noteq> 0,
                    p_recovery_field := drop_bit 5 (octet AND 0x20) \<noteq> 0,
                    x_recovery_field := drop_bit 4 (octet AND 0x10) \<noteq> 0,
                    cc_recovery_field := octet AND 0x0F\<rparr>;
          (octet, bs) = qi_into (qi_byte sp) octet bs;
          hdr = hdr\<lparr>m_recovery_field := drop_bit 7 (octet AND 0x80) \<noteq> 0,
                    pt_recovery_field := octet AND 0x7F\<rparr>;
          (sn, bs) = qi_into (qi_big_word sp) (sn_base_field hdr) bs;
          (ts, bs) = qi_into (qi_big_dword sp) (ts_recovery_field hdr) bs;
          (len, bs) = qi_into (qi_big_word sp) (length_recovery_field hdr) bs;
          hdr = hdr\<lparr>sn_base_field := sn, ts_recovery_field := ts, length_recovery_field := len\<rparr>;
          hsize = (if long_mask_flag hdr then 8 else 4)
      in map_option (\<lambda>(ok, levels, bs).
             (ok, packet\<lparr>fec_header := hdr, fec_levels := levels\<rparr>, bs))
           (parse_levels sp fuel hsize (fec_levels packet) octet bs))"

subsection \<open>The generators\<close>

text \<open>The two octets that pack the flags, built up in \<open>octet_buffer\<close>.\<close>

definition header_octet_0 :: "'x rtp_header_scheme \<Rightarrow> u8" where
  "header_octet_0 hdr =
     push_bit 6 (version hdr) OR push_bit 5 (of_bool (padding_set hdr)) OR
     push_bit 4 (of_bool (extension_bit hdr)) OR csrc hdr"

definition header_octet_1 :: "'x rtp_header_scheme \<Rightarrow> u8" where
  "header_octet_1 hdr = push_bit 7 (of_bool (marker hdr)) OR payload_type_field hdr"

text \<open>
  The fixed header and the contributing sources, which the three generators share word for
  word: nothing is written for a wrong version, twelve octets when the count of sources is
  wrong.
\<close>

definition standard_rtp_header_generate ::
    "spirit \<Rightarrow> 'x rtp_header_scheme \<Rightarrow> bool \<times> octets" where
  "standard_rtp_header_generate sp hdr =
     (if version hdr \<noteq> 2 then (False, [])
      else
      let out = karma_byte sp (header_octet_0 hdr) @ karma_byte sp (header_octet_1 hdr) @
                karma_big_word sp (sequence_number hdr) @ karma_big_dword sp (timestamp hdr) @
                karma_big_dword sp (ssrc hdr)
      in if unat (csrc hdr) \<noteq> length (csrcs hdr) then (False, out)
         else (True, out @ concat (map (karma_big_dword sp) (csrcs hdr))))"

definition custom_jpeg_generate :: "spirit \<Rightarrow> custom_jpeg_packet \<Rightarrow> bool \<times> octets" where
  "custom_jpeg_generate sp packet =
     (let hdr = jpeg_header packet;
          (ok, out) = standard_rtp_header_generate sp hdr
      in if \<not> ok then (False, out)
      else
      let fo = karma_big_dword sp (fragment_offset hdr)
      in (True,
          out @ karma_byte sp (type_specific hdr) @
          karma_byte sp (fo ! 1) @ karma_byte sp (fo ! 2) @ karma_byte sp (fo ! 3) @
          karma_byte sp (jpeg_type hdr) @ karma_byte sp (quantization_table hdr) @
          karma_byte sp (image_width hdr) @ karma_byte sp (image_height hdr) @
          concat (map (karma_byte sp) (jpeg_data packet))))"

definition custom_fec_generate :: "spirit \<Rightarrow> custom_fec_packet \<Rightarrow> bool \<times> octets" where
  "custom_fec_generate sp packet = standard_rtp_header_generate sp (fec_header packet)"

subsection \<open>Flag octets\<close>

lemma octet_0_version:
  assumes "version h = 2" and "csrc h < 16"
  shows "drop_bit 6 (header_octet_0 h) AND 3 = 2"
  using assms(1) low4_bits [OF assms(2)]
  by (intro u8_eqI) (simp_all add: header_octet_0_def u8_bit_simps)

lemma octet_0_flags:
  assumes "version h = 2" and "csrc h < 16"
  shows "bit (header_octet_0 h) 5 = padding_set h" and "bit (header_octet_0 h) 4 = extension_bit h"
  using assms(1) low4_bits [OF assms(2)] by (simp_all add: header_octet_0_def u8_bit_simps)

lemma octet_0_csrc:
  assumes "version h = 2" and "csrc h < 16"
  shows "header_octet_0 h AND 0x0F = csrc h"
  using assms(1) low4_bits [OF assms(2)]
  by (intro u8_eqI) (simp_all add: header_octet_0_def u8_bit_simps)

lemma octet_0_reencode:
  assumes "drop_bit 6 a AND 3 = 2" and "version h = 2"
    and "padding_set h = bit a 5" and "extension_bit h = bit a 4" and "csrc h = a AND 15"
  shows "header_octet_0 h = a"
proof -
  have "bit (drop_bit 6 a AND 3) 0 = bit (2::u8) 0" "bit (drop_bit 6 a AND 3) 1 = bit (2::u8) 1"
    using assms(1) by simp_all
  then have "\<not> bit a 6" "bit a 7"
    by (simp_all add: u8_bit_simps)
  then show ?thesis
    using assms(2-) by (intro u8_eqI) (simp_all add: header_octet_0_def u8_bit_simps)
qed

lemma octet_1_reencode:
  assumes "marker h = bit b 7" and "payload_type_field h = b AND 127"
  shows "header_octet_1 h = b"
  using assms by (intro u8_eqI) (simp_all add: header_octet_1_def u8_bit_simps)

lemma octet_1_marker: "payload_type_field h < 128 \<Longrightarrow> bit (header_octet_1 h) 7 = marker h"
  using low7_bits [of "payload_type_field h"] by (simp add: header_octet_1_def u8_bit_simps)

lemma octet_1_payload_type:
  "payload_type_field h < 128 \<Longrightarrow> header_octet_1 h AND 0x7F = payload_type_field h"
  using low7_bits [of "payload_type_field h"]
  by (intro u8_eqI) (simp_all add: header_octet_1_def u8_bit_simps)

subsection \<open>The codecs are inverse to each other\<close>

definition decoded_fixed :: "'x rtp_header_scheme \<Rightarrow> u8 \<Rightarrow> u8 \<Rightarrow> u16 \<Rightarrow> u32 \<Rightarrow> u32 \<Rightarrow> 'x rtp_header_scheme" where
  "decoded_fixed h a b sn ts src =
     h\<lparr>version := drop_bit 6 (a AND 0xC0), padding_set := bit a 5, extension_bit := bit a 4,
       csrc := a AND 0x0F, marker := bit b 7, payload_type_field := b AND 0x7F,
       sequence_number := sn, timestamp := ts, ssrc := src\<rparr>"

lemma decoded_fixed_sel [simp]:
  "version (decoded_fixed h a b sn ts src) = drop_bit 6 (a AND 0xC0)"
  "padding_set (decoded_fixed h a b sn ts src) = bit a 5"
  "extension_bit (decoded_fixed h a b sn ts src) = bit a 4"
  "csrc (decoded_fixed h a b sn ts src) = a AND 0x0F"
  "marker (decoded_fixed h a b sn ts src) = bit b 7"
  "payload_type_field (decoded_fixed h a b sn ts src) = b AND 0x7F"
  "sequence_number (decoded_fixed h a b sn ts src) = sn"
  "timestamp (decoded_fixed h a b sn ts src) = ts"
  "ssrc (decoded_fixed h a b sn ts src) = src"
  "csrcs (decoded_fixed h a b sn ts src) = csrcs h"
  "header_extension (decoded_fixed h a b sn ts src) = header_extension h"
  by (simp_all add: decoded_fixed_def)

definition wf_rtp_header :: "'x rtp_header_scheme \<Rightarrow> bool" where
  "wf_rtp_header h \<longleftrightarrow>
     version h = 2 \<and> csrc h < 16 \<and> unat (csrc h) = length (csrcs h) \<and>
     \<not> extension_bit h \<and> payload_type_field h < 128"

context spirit_octets
begin

lemma karma_byte_list [simp]: "concat (map (karma_byte sp) xs) = xs"
  by (induction xs) (simp_all add: karma_byte_eq)

lemma parse_csrcs_split32:
  "parse_csrcs sp (length cs) acc (concat (map split32 cs) @ bs) = (acc @ cs, bs)"
  by (induction cs arbitrary: acc) (simp_all add: into_dword_split)

lemma parse_csrcs_inverse:
  "4 * n \<le> length bs \<Longrightarrow>
     \<exists>cs rest. parse_csrcs sp n acc bs = (acc @ cs, rest) \<and> length cs = n \<and>
       bs = concat (map split32 cs) @ rest"
proof (induction n arbitrary: acc bs)
  case 0
  then show ?case by simp
next
  case (Suc n)
  then obtain a b c d r where bs: "bs = a # b # c # d # r" and r: "4 * n \<le> length r"
    by (auto simp: Suc_le_length_iff numeral_eq_Suc)
  from Suc.IH [OF r, of "acc @ [join32 a b c d]"] obtain cs rest where
    "parse_csrcs sp n (acc @ [join32 a b c d]) r = ((acc @ [join32 a b c d]) @ cs, rest)"
    "length cs = n" "r = concat (map split32 cs) @ rest" by blast
  then show ?case
    by (intro exI [of _ "join32 a b c d # cs"] exI [of _ rest])
      (simp add: bs into_dword_Cons)
qed

lemma parse_rtp_header_fixed:
  "parse_rtp_header sp h
     (a # b # s0 # s1 # t0 # t1 # t2 # t3 # x0 # x1 # x2 # x3 # bs) =
   (if drop_bit 6 (a AND 0xC0) \<noteq> 2
    then (False, h\<lparr>version := drop_bit 6 (a AND 0xC0)\<rparr>,
          b # s0 # s1 # t0 # t1 # t2 # t3 # x0 # x1 # x2 # x3 # bs, a)
    else
      let hdr = decoded_fixed h a b (join16 s0 s1) (join32 t0 t1 t2 t3) (join32 x0 x1 x2 x3)
      in if length bs < 4 * unat (csrc hdr) then (False, hdr, bs, b)
      else
        let (cs, bs) = parse_csrcs sp (unat (csrc hdr)) (csrcs hdr) bs;
            hdr = hdr\<lparr>csrcs := cs\<rparr>
        in if extension_bit hdr
           then let (ok, hdr, bs) = parse_extension sp hdr bs in (ok, hdr, bs, b)
           else (True, hdr, bs, b))"
  by (simp add: parse_rtp_header_def into_simps Let_def flag_test decoded_fixed_def)

lemma generate_rtp_header:
  assumes "version h = 2" and "unat (csrc h) = length (csrcs h)"
  shows "standard_rtp_header_generate sp h =
    (True, header_octet_0 h # header_octet_1 h #
       split16 (sequence_number h) @ split32 (timestamp h) @ split32 (ssrc h) @
       concat (map split32 (csrcs h)))"
  using assms
  by (simp add: standard_rtp_header_generate_def karma_simps ext [of "karma_big_dword sp" split32, OF karma_big_dword_eq])

lemma parse_generated_header:
  assumes "wf_rtp_header h" and "csrcs h0 = []"
    and out: "standard_rtp_header_generate sp h = (True, out)"
  shows "\<exists>b. parse_rtp_header sp h0 (out @ rest) =
    (True, decoded_fixed h0 (header_octet_0 h) (header_octet_1 h) (sequence_number h) (timestamp h)
             (ssrc h) \<lparr>csrcs := csrcs h\<rparr>, rest, b)"
proof -
  from assms(1) have wf: "version h = 2" "csrc h < 16" "unat (csrc h) = length (csrcs h)"
    "\<not> extension_bit h" "payload_type_field h < 128"
    by (simp_all add: wf_rtp_header_def)
  note octet_simps = octet_0_version [OF wf(1,2)] octet_0_flags [OF wf(1,2)] octet_0_csrc [OF wf(1,2)]
  have "length (concat (map split32 (csrcs h))) = 4 * length (csrcs h)"
    by (induction "csrcs h" rule: list.induct) (simp_all add: length_concat sum_list_triv o_def)
  moreover have "out @ rest = header_octet_0 h # header_octet_1 h #
       split16 (sequence_number h) @ split32 (timestamp h) @ split32 (ssrc h) @
       concat (map split32 (csrcs h)) @ rest"
    using generate_rtp_header [OF wf(1,3)] out by simp
  ultimately show ?thesis
    using wf assms(2)
    by (simp add: split16_def split32_list [of "timestamp h"] split32_list [of "ssrc h"] parse_rtp_header_fixed octet_simps Let_def
        parse_csrcs_split32 [of "csrcs h" "[]" rest, simplified])
qed

lemma decoded_wf:
  assumes "wf_rtp_header h"
  shows "decoded_fixed h0 (header_octet_0 h) (header_octet_1 h) sn ts src =
    h0\<lparr>version := version h, padding_set := padding_set h, extension_bit := False,
       csrc := csrc h, marker := marker h, payload_type_field := payload_type_field h,
       sequence_number := sn, timestamp := ts, ssrc := src\<rparr>"
proof -
  from assms have wf: "version h = 2" "csrc h < 16" "\<not> extension_bit h" "payload_type_field h < 128"
    by (simp_all add: wf_rtp_header_def)
  show ?thesis
    using octet_0_version [OF wf(1,2)] wf
    by (simp add: decoded_fixed_def octet_0_flags [OF wf(1,2)] octet_0_csrc [OF wf(1,2)]
      octet_1_marker octet_1_payload_type)
qed

lemma jpeg_parse_generated:
  assumes wf: "wf_rtp_header (jpeg_header p)" and pt: "payload_type_field (jpeg_header p) = 26"
    and ext: "header_extension (jpeg_header p) = []"
    and fo: "fragment_offset (jpeg_header p) < 2 ^ 24"
  shows "\<exists>out. custom_jpeg_generate sp p = (True, out) \<and>
           custom_jpeg_parse sp new_jpeg_packet out = (True, p, [])"
proof -
  let ?h = "jpeg_header p" and ?new = "jpeg_header new_jpeg_packet"
  obtain out where gen: "standard_rtp_header_generate sp ?h = (True, out)"
    using generate_rtp_header wf by (auto simp: wf_rtp_header_def)
  let ?w = "fragment_offset ?h"
  let ?tail = "type_specific ?h # lo8 (hi16 ?w) # hi8 (lo16 ?w) # lo8 (lo16 ?w) #
     jpeg_type ?h # quantization_table ?h # image_width ?h # image_height ?h # jpeg_data p"
  have fo': "join32 0 (lo8 (hi16 ?w)) (hi8 (lo16 ?w)) (lo8 (lo16 ?w)) = ?w"
    using fo join32_split [of ?w] by (simp add: hi8_hi16_small)
  have out: "custom_jpeg_generate sp p = (True, out @ ?tail)"
    using gen by (simp add: custom_jpeg_generate_def Let_def karma_simps karma_byte_list split32_list)
  obtain b where "parse_rtp_header sp ?new (out @ ?tail) =
    (True, decoded_fixed ?new (header_octet_0 ?h) (header_octet_1 ?h) (sequence_number ?h)
       (timestamp ?h) (ssrc ?h) \<lparr>csrcs := csrcs ?h\<rparr>, ?tail, b)"
    using parse_generated_header [OF wf _ gen, of ?new ?tail]
    by (auto simp: new_jpeg_packet_def standard_rtp_header_def rtp_header.defs)
  then have "custom_jpeg_parse sp new_jpeg_packet (out @ ?tail) = (True, p, [])"
    using pt ext wf
    by (simp add: custom_jpeg_parse_def decoded_wf Let_def into_simps fo')
      (auto simp: new_jpeg_packet_def standard_rtp_header_def rtp_header.defs wf_rtp_header_def
          custom_jpeg_payload_header.defs
        intro!: custom_jpeg_packet.equality custom_jpeg_payload_header.equality)
  with out show ?thesis by blast
qed

lemma parse_rtp_header_success:
  assumes "parse_rtp_header sp h0 bs = (True, h, rest, b)" and "\<not> extension_bit h" "csrcs h0 = []"
  shows "\<exists>front. bs = front @ rest \<and> standard_rtp_header_generate sp h = (True, front)"
    and "wf_rtp_header h" and "header_extension h = header_extension h0"
    and "rtp_header.more h = rtp_header.more h0"
proof -
  have "\<not> length bs < 12"
    using assms(1) by (auto simp: parse_rtp_header_def split: if_splits)
  then obtain o0 o1 s0 s1 t0 t1 t2 t3 x0 x1 x2 x3 r where
    bs: "bs = o0 # o1 # s0 # s1 # t0 # t1 # t2 # t3 # x0 # x1 # x2 # x3 # r"
    by (rule length_ge_12E)
  let ?d = "decoded_fixed h0 o0 o1 (join16 s0 s1) (join32 t0 t1 t2 t3) (join32 x0 x1 x2 x3)"
  have v: "drop_bit 6 o0 AND 3 = 2" and len: "\<not> length r < 4 * unat (o0 AND 15)"
    using assms(1) by (auto simp: bs parse_rtp_header_fixed Let_def split: if_splits)
  obtain cs rest' where cs: "parse_csrcs sp (unat (o0 AND 15)) [] r = (cs, rest')"
    "length cs = unat (o0 AND 15)" "r = concat (map split32 cs) @ rest'"
    using parse_csrcs_inverse [of "unat (o0 AND 15)" r "[]"] len by auto
  have e: "\<not> bit o0 4"
  proof
    assume "bit o0 4"
    with assms(1,3) v len cs(1) have
      "extension_bit h" by (auto simp: bs parse_rtp_header_fixed Let_def parse_extension_def split: if_splits prod.splits)
    with assms(2) show False by simp
  qed
  have h: "h = ?d\<lparr>csrcs := cs\<rparr>" "rest = rest'"
    using assms(1,3) v len cs(1) e by (auto simp: bs parse_rtp_header_fixed Let_def)
  have gen: "standard_rtp_header_generate sp h = (True, o0 # o1 # s0 # s1 # t0 # t1 # t2 # t3 # x0 # x1 # x2 # x3 # concat (map split32 cs))"
    using generate_rtp_header [of h] cs(2) octet_0_reencode [OF v, of h] octet_1_reencode [of h o1] e v
    by (simp add: h)
  show "\<exists>front. bs = front @ rest \<and> standard_rtp_header_generate sp h = (True, front)"
    using gen by (simp add: bs h cs(3))
  show "header_extension h = header_extension h0"
    by (simp add: h)
  show "rtp_header.more h = rtp_header.more h0"
    by (simp add: h decoded_fixed_def)
  show "wf_rtp_header h"
    using v cs(2) e by (simp add: h wf_rtp_header_def and_15_less and_127_less)
qed

lemma jpeg_generate_parsed:
  assumes parse: "custom_jpeg_parse sp new_jpeg_packet bs = (True, p, rest)"
    and "\<not> extension_bit (jpeg_header p)"
  shows "custom_jpeg_generate sp p = (True, bs)" and "rest = []"
proof -
  let ?new = "jpeg_header new_jpeg_packet"
  obtain h r b where hdr: "parse_rtp_header sp ?new bs = (True, h, r, b)"
    and len: "\<not> length r < 8"
    using parse by (auto simp: custom_jpeg_parse_def Let_def split: if_splits prod.splits)
  obtain f0 f1 f2 f3 f4 f5 f6 f7 d where r: "r = f0 # f1 # f2 # f3 # f4 # f5 # f6 # f7 # d"
    using len by (rule length_ge_8E)
  have p: "p = \<lparr>jpeg_header = h\<lparr>type_specific := f0, fragment_offset := join32 0 f1 f2 f3,
      jpeg_type := f4, quantization_table := f5, image_width := f6, image_height := f7\<rparr>,
      jpeg_data = d\<rparr>" and rest: "rest = []"
    using parse hdr by (auto simp: custom_jpeg_parse_def r Let_def into_simps new_jpeg_packet_def
      split: if_splits)
  have "\<not> extension_bit h"
    using assms(2) by (simp add: p)
  then obtain front where "standard_rtp_header_generate sp h = (True, front)" and "bs = front @ r"
    using parse_rtp_header_success(1) [OF hdr]
    by (auto simp: new_jpeg_packet_def standard_rtp_header_def rtp_header.defs)
  moreover have "standard_rtp_header_generate sp (jpeg_header p) = standard_rtp_header_generate sp h"
    by (simp add: p standard_rtp_header_generate_def header_octet_0_def header_octet_1_def
        cong: if_cong)
  ultimately show "custom_jpeg_generate sp p = (True, bs)"
    by (simp add: custom_jpeg_generate_def Let_def karma_simps p r)
  show "rest = []" by (rule rest)
qed

lemma parse_mask_drop:
  "n \<le> length bs \<Longrightarrow> \<exists>m' b'. parse_mask sp i n m b bs = (m', b', drop n bs)"
proof (induction n arbitrary: i m b bs)
  case 0
  then show ?case by simp
next
  case (Suc n)
  then obtain x r where "bs = x # r" "n \<le> length r"
    by (cases bs) auto
  with Suc.IH show ?case by (auto simp: into_byte_Cons)
qed

lemma read_level_drop:
  assumes "\<not> length bs < hsize" and "2 \<le> hsize"
  shows "\<exists>len m b'. qi_into (qi_big_word sp) 0 bs = (len, drop 2 bs) \<and>
           parse_mask sp 0 (hsize - 2) 0 b (drop 2 bs) = (m, b', drop hsize bs)"
proof -
  obtain x y r where bs: "bs = x # y # r"
    using assms by (metis Suc_le_length_iff le_trans not_less numeral_2_eq_2)
  moreover have "\<exists>m b'. parse_mask sp 0 (hsize - 2) 0 b r = (m, b', drop (hsize - 2) r)"
    using assms bs by (intro parse_mask_drop) simp
  moreover have "drop hsize bs = drop (hsize - 2) r"
    using assms(2) bs by (simp add: drop_Cons' numeral_2_eq_2)
  ultimately show ?thesis by (auto simp: into_word_Cons)
qed

lemma parse_levels_total:
  "2 \<le> hsize \<Longrightarrow> length bs < fuel \<Longrightarrow> parse_levels sp fuel hsize lv b bs \<noteq> None"
proof (induction fuel arbitrary: lv b bs)
  case 0
  then show ?case by simp
next
  case (Suc fuel)
  show ?case
  proof (cases "length bs < hsize")
    case True
    then show ?thesis by auto
  next
    case False
    then obtain len m b' where *: "qi_into (qi_big_word sp) 0 bs = (len, drop 2 bs)"
      "parse_mask sp 0 (hsize - 2) 0 b (drop 2 bs) = (m, b', drop hsize bs)"
      using read_level_drop Suc.prems(1) by blast
    have "length (drop (unat len) (drop hsize bs)) < fuel"
      using False Suc.prems by simp
    from Suc.IH [OF Suc.prems(1) this] False * show ?thesis by (simp del: not_None_eq)
  qed
qed

lemma parse_levels_mono:
  "parse_levels sp fuel hsize lv b bs = Some r \<Longrightarrow> parse_levels sp (fuel + k) hsize lv b bs = Some r"
  by (induction fuel arbitrary: lv b bs) (auto simp: Let_def split: if_splits prod.splits)

lemma into_word_le: "length (snd (qi_into (qi_big_word sp) v bs)) \<le> length bs"
proof (cases "length bs < 2")
  case True
  then show ?thesis by (simp add: into_word_short)
next
  case False
  then obtain x y r where "bs = x # y # r"
    by (metis Suc_le_length_iff not_less numeral_2_eq_2)
  then show ?thesis by (simp add: into_word_Cons)
qed

lemma parse_extension_rest_le:
  assumes "parse_extension sp h bs = (ok, h', rest)"
  shows "length rest \<le> length bs"
proof -
  have "length (drop n (snd (qi_into (qi_big_word sp) v (drop 4 bs)))) \<le> length bs" for n v
    using into_word_le [of v "drop 4 bs"] by simp
  from this [of 0] this show ?thesis
    using assms by (auto simp: parse_extension_def Let_def split_def split: if_splits)
qed

lemma parse_rtp_header_rest_le:
  assumes "parse_rtp_header sp h0 bs = (ok, h, rest, b)"
  shows "length rest \<le> length bs"
proof (cases "length bs < 12")
  case True
  then show ?thesis using assms by (auto simp: parse_rtp_header_def split: if_splits)
next
  case False
  then obtain o0 o1 s0 s1 t0 t1 t2 t3 x0 x1 x2 x3 r where
    bs: "bs = o0 # o1 # s0 # s1 # t0 # t1 # t2 # t3 # x0 # x1 # x2 # x3 # r"
    by (rule length_ge_12E)
  show ?thesis
  proof (cases "length r < 4 * unat (o0 AND 15)")
    case True
    then show ?thesis
      using assms by (auto simp: bs parse_rtp_header_fixed Let_def split: if_splits)
  next
    case False
    then obtain cs rest' where cs: "parse_csrcs sp (unat (o0 AND 15)) (csrcs h0) r = (cs, rest')"
      and "length rest' \<le> length r"
      using parse_csrcs_inverse [of "unat (o0 AND 15)" r "csrcs h0"] by auto
    with assms False show ?thesis
      by (auto simp: bs parse_rtp_header_fixed Let_def split: if_splits prod.splits
        dest!: parse_extension_rest_le)
  qed
qed

lemma custom_fec_parse_total:
  assumes "length bs < fuel"
  shows "custom_fec_parse sp fuel p bs \<noteq> None"
proof -
  obtain ok h r b where hdr: "parse_rtp_header sp (fec_header p) bs = (ok, h, r, b)"
    by (metis prod.exhaust)
  show ?thesis
  proof (cases "ok \<and> \<not> length r < 10")
    case False
    then show ?thesis using hdr by (auto simp: custom_fec_parse_def Let_def)
  next
    case True
    then obtain f0 f1 n0 n1 t0 t1 t2 t3 l0 l1 r' where
      r: "r = f0 # f1 # n0 # n1 # t0 # t1 # t2 # t3 # l0 # l1 # r'"
      by (auto simp: not_less Suc_le_length_iff eval_nat_numeral)
    have "length r' < fuel"
      using parse_rtp_header_rest_le [OF hdr] assms by (simp add: r)
    then have "parse_levels sp fuel k lv b' r' \<noteq> None" if "2 \<le> k" for k lv b'
      using that parse_levels_total by blast
    from this [of 8] this [of 4] show ?thesis
      using True hdr by (auto simp: custom_fec_parse_def r into_simps Let_def)
  qed
qed

lemma custom_fec_parse_mono:
  "custom_fec_parse sp fuel p bs = Some r \<Longrightarrow> custom_fec_parse sp (fuel + k) p bs = Some r"
  by (auto simp: custom_fec_parse_def Let_def split: if_splits prod.splits
     dest: parse_levels_mono [of fuel _ _ _ _ _ k])

end

subsection \<open>Properties\<close>

text \<open>
  C6 (round trip): every packet with a well-formed header of payload type 26, no header
  extension and a fragment offset of 24 bits is generated, and parsing the octets gives
  back the same packet with nothing left over.
\<close>

theorem custom_jpeg_roundtrip:
  assumes "spirit_octets sp" and "wf_rtp_header (jpeg_header p)"
    and "payload_type_field (jpeg_header p) = 26" and "header_extension (jpeg_header p) = []"
    and "fragment_offset (jpeg_header p) < 2 ^ 24"
  shows "\<exists>out. custom_jpeg_generate sp p = (True, out) \<and>
           custom_jpeg_parse sp new_jpeg_packet out = (True, p, [])"
  by (rule spirit_octets.jpeg_parse_generated [OF assms])

text \<open>The packet of the repository's own generator test.\<close>

definition sample_jpeg_packet :: custom_jpeg_packet where
  "sample_jpeg_packet =
     \<lparr>jpeg_header = \<lparr>version = 2, padding_set = False, extension_bit = False, csrc = 3,
        marker = True, payload_type_field = 26, sequence_number = 1337,
        timestamp = 1787569, ssrc = 0x1C4A7EB4, csrcs = [74872, 0, 2352],
        header_extension = [], type_specific = 0x91, fragment_offset = 0xF0FFFB,
        jpeg_type = 11, quantization_table = 13, image_width = 17, image_height = 19\<rparr>,
      jpeg_data = replicate 32 0x0E\<rparr>"

theorem custom_jpeg_roundtrip_witness:
  "\<exists>out. custom_jpeg_generate octet_spirit sample_jpeg_packet = (True, out) \<and>
     custom_jpeg_parse octet_spirit new_jpeg_packet out = (True, sample_jpeg_packet, [])"
  by (rule custom_jpeg_roundtrip [OF octet.spirit_octets_axioms])
    (simp_all add: sample_jpeg_packet_def wf_rtp_header_def)

text \<open>
  A datagram that parses as a JPEG packet without header extension is
  consumed completely, and generating the parsed packet gives back the very same octets,
  so the parser loses nothing.
\<close>

theorem custom_jpeg_reencode:
  assumes "spirit_octets sp" and "custom_jpeg_parse sp new_jpeg_packet bs = (True, p, rest)"
    and "\<not> extension_bit (jpeg_header p)"
  shows "custom_jpeg_generate sp p = (True, bs) \<and> rest = []"
  using spirit_octets.jpeg_generate_parsed [OF assms] by simp

definition sample_jpeg_datagram :: octets where
  "sample_jpeg_datagram =
     [0x80, 0x9A, 0x00, 0x3E, 0x00, 0x00, 0x09, 0xB0, 0, 0, 0, 7,
      0, 0, 0, 0, 1, 2, 48, 36, 0xFF, 0xD8, 0xFF, 0xD9]"

theorem custom_jpeg_reencode_witness:
  "custom_jpeg_generate octet_spirit
     (fst (snd (custom_jpeg_parse octet_spirit new_jpeg_packet sample_jpeg_datagram))) =
   (True, sample_jpeg_datagram)"
proof -
  let ?r = "custom_jpeg_parse octet_spirit new_jpeg_packet sample_jpeg_datagram"
  have "?r = (True, fst (snd ?r), snd (snd ?r)) \<and> \<not> extension_bit (jpeg_header (fst (snd ?r)))"
    by (simp add: sample_jpeg_datagram_def custom_jpeg_parse_def octet.parse_rtp_header_fixed
        decoded_fixed_def Let_def octet.into_simps)
  then show ?thesis
    using custom_jpeg_reencode [OF octet.spirit_octets_axioms] by blast
qed

text \<open>
  C36 (termination): the FEC parser returns. With more fuel than the datagram has octets the
  level loop ends, and further fuel changes nothing, so the fuel is no restriction.
\<close>

theorem custom_fec_parse_terminates:
  assumes "spirit_octets sp" and "length bs < fuel"
  shows "custom_fec_parse sp fuel packet bs \<noteq> None \<and>
         custom_fec_parse sp (fuel + k) packet bs = custom_fec_parse sp fuel packet bs"
  using spirit_octets.custom_fec_parse_total [OF assms, of packet]
    spirit_octets.custom_fec_parse_mono [OF assms(1), of fuel packet bs _ k] by auto

theorem custom_fec_parse_terminates_witness:
  "custom_fec_parse octet_spirit 25 new_fec_packet sample_jpeg_datagram \<noteq> None"
  using custom_fec_parse_terminates [OF octet.spirit_octets_axioms, of sample_jpeg_datagram 25
      new_fec_packet 0]
  by (simp add: sample_jpeg_datagram_def)

text \<open>
  What the parsers make of a header extension. The number of 32-bit words
  is read from the two octets after the four-octet extension header, not from its last two
  octets \<open>l0 l1\<close>, which are where RFC 3550 puts it: those have no influence, and the two
  octets \<open>d0 d1\<close> that are read are dropped from the extension.
\<close>

theorem parse_extension_length:
  assumes "spirit_octets sp"
  shows "parse_extension sp hdr (p0 # p1 # l0 # l1 # d0 # d1 # rest) =
    (let n = 4 * unat (join16 d0 d1)
     in if length rest < n
        then (False, hdr\<lparr>header_extension := [p0, p1, l0, l1]\<rparr>, rest)
        else (True, hdr\<lparr>header_extension := [p0, p1, l0, l1] @ take n rest\<rparr>, drop n rest))"
  using spirit_octets.into_word_Cons [OF assms]
  by (simp add: parse_extension_def Let_def)

theorem parse_extension_length_witness:
  "parse_extension octet_spirit standard_rtp_header [0xBE, 0xDE, 0, 1, 0x10, 0xAA, 0, 0] =
     (False, standard_rtp_header\<lparr>header_extension := [0xBE, 0xDE, 0, 1]\<rparr>, [0, 0])"
  by (simp add: parse_extension_length [OF octet.spirit_octets_axioms] join16_def Let_def)

end
