(* ===== verification/Rtp_Sequence.thy ===== *)
theory Rtp_Sequence
  imports Prelude
begin

section \<open>Sequence numbers: \<open>rtp_receiver_squence_utility\<close>\<close>

text \<open>
  The receiver's book-keeping of 16-bit sequence numbers, after the algorithm of RFC 3550
  A.1. The record holds the members the code reads; \<open>transit\<close> and \<open>jitter\<close> are declared
  but never used. The arithmetic is the code's: a 16-bit operand is promoted to \<open>int\<close>
  before an addition or a comparison, so \<open>max_seq + 1\<close> does not wrap, whereas a result
  stored in a \<open>uint16_t\<close> or \<open>uint32_t\<close> does.
\<close>

record seq_utility =
  max_seq :: u16
  cycles :: u32
  base_seq :: u32
  bad_seq :: u32
  probation :: u32
  received :: u32
  expected_prior :: u32
  received_prior :: u32

definition MAX_DROPOUT :: int where "MAX_DROPOUT = 3000"
definition MAX_MISORDER :: u32 where "MAX_MISORDER = 100"
definition MIN_SEQUENTIAL :: u32 where "MIN_SEQUENTIAL = 2"
definition RTP_SEQ_MOD :: u32 where "RTP_SEQ_MOD = 65536"

lemmas seq_constants = MAX_DROPOUT_def MAX_MISORDER_def MIN_SEQUENTIAL_def RTP_SEQ_MOD_def

definition init_seq :: "seq_utility \<Rightarrow> u16 \<Rightarrow> seq_utility" where
  "init_seq u seq =
     u\<lparr>base_seq := ucast seq, max_seq := seq, bad_seq := RTP_SEQ_MOD + 1, cycles := 0,
       received := 0, received_prior := 0, expected_prior := 0\<rparr>"

text \<open>The constructor; the starting value of the record is overwritten in every field.\<close>

definition new_seq_utility :: "u16 \<Rightarrow> seq_utility" where
  "new_seq_utility seq =
     (init_seq \<lparr>max_seq = 0, cycles = 0, base_seq = 0, bad_seq = 0, probation = 0, received = 0,
        expected_prior = 0, received_prior = 0\<rparr> seq)
       \<lparr>max_seq := seq - 1, probation := MIN_SEQUENTIAL\<rparr>"

definition update_seq :: "seq_utility \<Rightarrow> u16 \<Rightarrow> int \<times> seq_utility" where
  "update_seq u seq =
     (let udelta = seq - max_seq u
      in if probation u \<noteq> 0 then
           (if uint seq = uint (max_seq u) + 1 then
              let u = u\<lparr>probation := probation u - 1, max_seq := seq\<rparr>
              in if probation u = 0
                 then let u = init_seq u seq in (1, u\<lparr>received := received u + 1\<rparr>)
                 else (0, u)
            else (0, u\<lparr>probation := MIN_SEQUENTIAL - 1, max_seq := seq\<rparr>))
         else if uint udelta < MAX_DROPOUT then
           let u = (if seq < max_seq u then u\<lparr>cycles := cycles u + RTP_SEQ_MOD\<rparr> else u);
               u = u\<lparr>max_seq := seq\<rparr>
           in (1, u\<lparr>received := received u + 1\<rparr>)
         else if ucast udelta \<le> RTP_SEQ_MOD - MAX_MISORDER then
           (if ucast seq = bad_seq u
            then let u = init_seq u seq in (1, u\<lparr>received := received u + 1\<rparr>)
            else (0, u\<lparr>bad_seq := (ucast seq + 1) AND (RTP_SEQ_MOD - 1)\<rparr>))
         else (1, u\<lparr>received := received u + 1\<rparr>))"

text \<open>The sum in \<open>extended_max\<close> is 32 bits wide and only then widened.\<close>

definition extended_max :: "seq_utility \<Rightarrow> u64" where
  "extended_max u = ucast (cycles u + ucast (max_seq u))"

definition expected :: "seq_utility \<Rightarrow> u64" where
  "expected u = extended_max u - ucast (base_seq u) + 1"

definition lost :: "seq_utility \<Rightarrow> u64" where
  "lost u = expected u - ucast (received u)"

definition received_packets :: "seq_utility \<Rightarrow> u32" where
  "received_packets u = received u"

definition highest_seq_seen :: "seq_utility \<Rightarrow> u16" where
  "highest_seq_seen u = max_seq u"

subsection \<open>The branches of \<open>update_seq\<close>\<close>

lemma update_seq_probation:
  assumes "probation u \<noteq> 0" and "uint seq = uint (max_seq u) + 1"
  shows "update_seq u seq =
    (if probation u = 1
     then (1, (init_seq (u\<lparr>probation := 0\<rparr>) seq)\<lparr>received := 1\<rparr>)
     else (0, u\<lparr>probation := probation u - 1, max_seq := seq\<rparr>))"
  using assms by (auto simp: update_seq_def Let_def init_seq_def)

lemma update_seq_probation_restart:
  assumes "probation u \<noteq> 0" and "uint seq \<noteq> uint (max_seq u) + 1"
  shows "update_seq u seq = (0, u\<lparr>probation := 1, max_seq := seq\<rparr>)"
  using assms by (simp add: update_seq_def Let_def MIN_SEQUENTIAL_def)

lemma update_seq_in_order:
  assumes "probation u = 0" and "uint (seq - max_seq u) < 3000"
  shows "update_seq u seq =
    (1, u\<lparr>cycles := (if seq < max_seq u then cycles u + 65536 else cycles u),
         max_seq := seq, received := received u + 1\<rparr>)"
  using assms by (simp add: update_seq_def Let_def seq_constants)

lemma update_seq_jump:
  assumes "probation u = 0" and "3000 \<le> uint (seq - max_seq u)"
    and "uint (seq - max_seq u) \<le> 65436"
  shows "update_seq u seq =
    (if ucast seq = bad_seq u then (1, (init_seq u seq)\<lparr>received := 1\<rparr>)
     else (0, u\<lparr>bad_seq := (ucast seq + 1) AND 65535\<rparr>))"
proof -
  have "(ucast (seq - max_seq u) :: u32) \<le> 65436"
    using assms(3) by (simp add: word_le_def)
  then show ?thesis
    using assms by (simp add: update_seq_def Let_def seq_constants init_seq_def)
qed

lemma update_seq_reordered:
  assumes "probation u = 0" and "65436 < uint (seq - max_seq u)"
  shows "update_seq u seq = (1, u\<lparr>received := received u + 1\<rparr>)"
proof -
  have "\<not> (ucast (seq - max_seq u) :: u32) \<le> 65436"
    using assms(2) by (simp add: word_le_def)
  then show ?thesis
    using assms by (simp add: update_seq_def Let_def seq_constants)
qed

lemmas update_seq_simps =
  update_seq_probation update_seq_probation_restart update_seq_in_order update_seq_jump
  update_seq_reordered

subsection \<open>Invariant\<close>

text \<open>
  What every reachable state satisfies: the cycle count is a multiple of the modulus, the
  base is a 16-bit number, \<open>bad_seq\<close> is a sequence number or the impossible value the
  initialisation stores, probation counts down from two.
\<close>

definition seq_inv :: "seq_utility \<Rightarrow> bool" where
  "seq_inv u \<longleftrightarrow>
     unat (cycles u) mod 65536 = 0 \<and> unat (base_seq u) < 65536 \<and> unat (bad_seq u) \<le> 65537 \<and>
     unat (probation u) \<le> 2"

lemma unat_and_65535: "unat ((w::u32) AND 65535) \<le> 65535"
  using word_and_le1 [of w 65535] by (simp add: word_le_nat_alt)

lemma cycles_add_mod: "unat (c::u32) mod 65536 = 0 \<Longrightarrow> unat (c + 65536) mod 65536 = 0"
  by (simp add: unat_word_ariths mod_mod_cancel)

lemma seq_inv_received [simp]: "seq_inv (u\<lparr>received := r\<rparr>) = seq_inv u"
  by (simp add: seq_inv_def)

lemma seq_inv_init: "unat (probation u) \<le> 2 \<Longrightarrow> seq_inv (init_seq u s)"
  by (simp add: seq_inv_def init_seq_def RTP_SEQ_MOD_def unat_16_less)

lemma seq_inv_new [preserved]: "seq_inv (new_seq_utility s)"
  by (simp add: seq_inv_def new_seq_utility_def init_seq_def seq_constants unat_16_less)

lemma seq_inv_update [preserved]:
  assumes "seq_inv u"
  shows "seq_inv (snd (update_seq u s))"
proof -
  have "unat (probation u - 1) \<le> 2" if "probation u \<noteq> 0"
    using assms that by (auto simp: seq_inv_def unat_minus_one)
  then show ?thesis
    using assms
    by (auto simp: update_seq_def Let_def seq_constants seq_inv_init)
      (auto simp: seq_inv_def cycles_add_mod intro: le_trans [OF unat_and_65535])
qed

subsection \<open>The abstract view: one unbounded sequence number\<close>

definition ext_seq :: "seq_utility \<Rightarrow> nat" where
  "ext_seq u = unat (cycles u) + unat (max_seq u)"

lemma unat_extended_max: "ext_seq u < 2 ^ 32 \<Longrightarrow> unat (extended_max u) = ext_seq u"
  by (simp add: extended_max_def ext_seq_def unat_word_ariths)

lemma unat_expected:
  assumes "ext_seq u < 2 ^ 32" and "unat (base_seq u) \<le> ext_seq u"
  shows "unat (expected u) = ext_seq u - unat (base_seq u) + 1"
proof -
  have "unat (extended_max u - ucast (base_seq u)) = ext_seq u - unat (base_seq u)"
    using assms by (simp add: unat_sub word_le_nat_alt unat_extended_max)
  then show ?thesis
    using assms by (simp add: expected_def unat_word_ariths)
qed

lemma unat_lost:
  assumes "ext_seq u < 2 ^ 32" and "unat (base_seq u) \<le> ext_seq u"
    and "unat (received u) \<le> ext_seq u - unat (base_seq u) + 1"
  shows "unat (lost u) = ext_seq u - unat (base_seq u) + 1 - unat (received u)"
  using assms unat_expected [OF assms(1,2)] by (simp add: lost_def unat_sub word_le_nat_alt)

text \<open>An in-order number moves the unbounded number by the distance, wrap-around included.\<close>

lemma ext_seq_in_order:
  assumes "probation u = 0" and "unat (s - max_seq u) < 3000"
    and "ext_seq u + unat (s - max_seq u) < 2 ^ 32"
  shows "ext_seq (snd (update_seq u s)) = ext_seq u + unat (s - max_seq u)"
proof -
  have d: "uint (s - max_seq u) < 3000"
    using assms(2) by (simp add: uint_less_numeral)
  show ?thesis
  proof (cases "s < max_seq u")
    case True
    then have dist: "unat (s - max_seq u) = 65536 + unat s - unat (max_seq u)"
      using unat_16_less [of "max_seq u"] by (simp add: unat_sub_if' word_less_nat_alt)
    have "unat (cycles u + 65536) = unat (cycles u) + 65536"
      using assms(3) dist unat_16_less [of "max_seq u"]
      by (simp add: unat_word_ariths ext_seq_def)
    then show ?thesis
      using True dist unat_16_less [of "max_seq u"]
      by (simp add: update_seq_in_order [OF assms(1) d] ext_seq_def)
  next
    case False
    then show ?thesis
      by (simp add: update_seq_in_order [OF assms(1) d] ext_seq_def unat_sub word_less_nat_alt
          word_le_nat_alt)
  qed
qed

subsection \<open>Streams of sequence numbers\<close>

text \<open>Feeding a list of numbers, and the list that starts after \<open>m\<close> with given distances.\<close>

definition feed :: "seq_utility \<Rightarrow> u16 list \<Rightarrow> seq_utility" where
  "feed u seqs = foldl (\<lambda>u s. snd (update_seq u s)) u seqs"

lemma feed_simps [simp]:
  "feed u [] = u"
  "feed u (s # seqs) = feed (snd (update_seq u s)) seqs"
  by (simp_all add: feed_def)

lemma seq_inv_feed [preserved]: "seq_inv u \<Longrightarrow> seq_inv (feed u seqs)"
  by (induction seqs arbitrary: u) (simp_all add: seq_inv_update)

fun seqs_from :: "u16 \<Rightarrow> nat list \<Rightarrow> u16 list" where
  "seqs_from m [] = []"
| "seqs_from m (d # ds) = (m + of_nat d) # seqs_from (m + of_nat d) ds"

lemma unat_of_nat_16: "d < 65536 \<Longrightarrow> unat (of_nat d :: u16) = d"
  by (simp add: unsigned_of_nat take_bit_nat_eq_self)

lemma feed_in_order:
  assumes "probation u = 0" and "\<forall>d\<in>set ds. d < 3000"
    and "ext_seq u + sum_list ds < 2 ^ 32" and "unat (received u) + length ds < 2 ^ 32"
  shows "ext_seq (feed u (seqs_from (max_seq u) ds)) = ext_seq u + sum_list ds \<and>
    unat (received (feed u (seqs_from (max_seq u) ds))) = unat (received u) + length ds \<and>
    base_seq (feed u (seqs_from (max_seq u) ds)) = base_seq u \<and>
    probation (feed u (seqs_from (max_seq u) ds)) = 0"
  using assms
proof (induction ds arbitrary: u)
  case Nil
  then show ?case by simp
next
  case (Cons d ds)
  let ?s = "max_seq u + of_nat d"
  let ?u = "snd (update_seq u ?s)"
  have d: "unat (?s - max_seq u) = d" "d < 3000"
    using Cons.prems(2) by (simp_all add: unat_of_nat_16)
  then have u: "uint (?s - max_seq u) < 3000"
    by (simp only: uint_less_numeral)
  have upd: "max_seq ?u = ?s" "probation ?u = 0" "base_seq ?u = base_seq u"
    "received ?u = received u + 1"
    using Cons.prems(1) by (simp_all add: update_seq_in_order [OF Cons.prems(1) u])
  have ext: "ext_seq ?u = ext_seq u + d"
    using ext_seq_in_order [OF Cons.prems(1), of ?s] d Cons.prems(3) by simp
  have recv: "unat (received u + 1) = unat (received u) + 1"
    using Cons.prems(4) by (simp add: unat_word_ariths)
  from Cons.IH [of ?u] Cons.prems show ?case
    by (simp add: upd ext recv)
qed

text \<open>After two packets in sequence the source is valid, and counting starts at the second.\<close>

lemma uint_succ_16: "(s::u16) \<noteq> 65535 \<Longrightarrow> uint (s + 1) = uint s + 1"
proof -
  assume "s \<noteq> 65535"
  then have "uint s \<noteq> uint (65535 :: u16)"
    by (simp only: word_uint_eq_iff not_False_eq_True)
  then have "uint s < 65535"
    using uint_lt2p [of s] by simp
  then show ?thesis by (simp add: uint_word_ariths)
qed

lemma unat_succ_16:
  assumes "(s::u16) \<noteq> 65535"
  shows "unat (s + 1) = unat s + 1"
  using arg_cong [where f = nat, OF uint_succ_16 [OF assms]]
  by (simp add: nat_add_distrib)

lemma feed_first_two:
  assumes "s \<noteq> 65535"
  shows "fst (update_seq (new_seq_utility s) s) = 0"
    and "feed (new_seq_utility s) [s, s + 1] =
      (init_seq (new_seq_utility s) (s + 1))\<lparr>probation := 0, received := 1\<rparr>"
proof -
  have one: "snd (update_seq (new_seq_utility s) s) =
      (new_seq_utility s)\<lparr>probation := 1, max_seq := s\<rparr> \<and>
      fst (update_seq (new_seq_utility s) s) = 0"
    by (simp add: update_seq_def new_seq_utility_def init_seq_def seq_constants Let_def)
  show "fst (update_seq (new_seq_utility s) s) = 0"
    using one by simp
  show "feed (new_seq_utility s) [s, s + 1] =
      (init_seq (new_seq_utility s) (s + 1))\<lparr>probation := 0, received := 1\<rparr>"
    using one by (simp add: update_seq_probation uint_succ_16 [OF assms]) (simp add: new_seq_utility_def init_seq_def)
qed

lemma take_bit_succ_16: "take_bit 16 (ucast (s::u16) + 1 :: u32) = ucast (s + 1)"
proof -
  have "uint (ucast s + 1 :: u32) mod 65536 = uint (s + 1)"
    by (simp add: uint_word_ariths mod_mod_cancel)
  then have "uint (take_bit 16 (ucast s + 1 :: u32)) = uint (s + 1)"
    unfolding unsigned_take_bit_eq by (simp add: take_bit_eq_mod)
  then show ?thesis
    by (simp only: word_uint_eq_iff uint_widen)
qed

subsection \<open>Properties\<close>

text \<open>
  Every state a receiver can be in, from the first number it is
  constructed with through any list of further numbers, satisfies the invariant.
\<close>

theorem sequence_invariant: "seq_inv (feed (new_seq_utility s) seqs)"
  by (intro preserved)

text \<open>
  C8 (refinement): for a valid source the 16-bit bookkeeping implements one unbounded
  sequence number: a number less than 3000 ahead of the highest one is accepted, counted,
  and moves the unbounded number by its distance, also where the 16-bit number wraps.
\<close>

theorem update_seq_refines:
  assumes "probation u = 0" and "unat (s - max_seq u) < 3000"
    and "ext_seq u + unat (s - max_seq u) < 2 ^ 32"
  shows "fst (update_seq u s) = 1 \<and>
    ext_seq (snd (update_seq u s)) = ext_seq u + unat (s - max_seq u) \<and>
    received (snd (update_seq u s)) = received u + 1 \<and>
    unat (extended_max (snd (update_seq u s))) = ext_seq u + unat (s - max_seq u)"
proof -
  have "uint (s - max_seq u) < 3000"
    using assms(2) by (simp only: uint_less_numeral)
  note upd = update_seq_in_order [OF assms(1) this]
  have ext: "ext_seq (snd (update_seq u s)) = ext_seq u + unat (s - max_seq u)"
    by (rule ext_seq_in_order [OF assms])
  then have "unat (extended_max (snd (update_seq u s))) = ext_seq u + unat (s - max_seq u)"
    using unat_extended_max [of "snd (update_seq u s)"] assms(3) by simp
  with ext upd show ?thesis by simp
qed

definition sample_utility :: seq_utility where
  "sample_utility =
     \<lparr>max_seq = 65534, cycles = 65536, base_seq = 3, bad_seq = 65537, probation = 0,
      received = 7, expected_prior = 0, received_prior = 0\<rparr>"

theorem update_seq_refines_witness:
  "ext_seq (snd (update_seq sample_utility 1)) = 131070 + 3"
  using update_seq_refines [of sample_utility 1]
  by (simp add: sample_utility_def ext_seq_def)

text \<open>
  C17 (functional): the statistics are exact. A source that starts with two numbers in
  sequence and then sends numbers with any distances below 3000 (distance one is no loss)
  is credited with one packet per accepted number after the first, its expected count is
  the span of the unbounded numbers, and the loss is the number of those skipped; wrap-around
  included, up to the 32-bit range of the extended number.
\<close>

theorem statistics_exact:
  assumes "s \<noteq> 65535" and "\<forall>d\<in>set ds. 0 < d \<and> d < 3000"
    and "unat (s + 1) + sum_list ds < 2 ^ 32"
  shows "let v = feed (new_seq_utility s) (s # (s + 1) # seqs_from (s + 1) ds)
     in unat (received_packets v) = 1 + length ds \<and>
        unat (expected v) = 1 + sum_list ds \<and>
        unat (lost v) = sum_list ds - length ds"
proof -
  let ?u = "(init_seq (new_seq_utility s) (s + 1))\<lparr>probation := 0, received := 1\<rparr>"
  let ?v = "feed ?u (seqs_from (s + 1) ds)"
  have feed: "feed (new_seq_utility s) (s # (s + 1) # seqs_from (s + 1) ds) = ?v"
    using feed_first_two(2) [OF assms(1)] by simp
  have len: "length ds \<le> sum_list ds"
    using assms(2) by (induction ds) (auto simp: Suc_le_eq)
  have u: "max_seq ?u = s + 1" "ext_seq ?u = unat (s + 1)" "base_seq ?u = ucast (s + 1)"
    "received ?u = 1" "probation ?u = 0"
    by (simp_all add: init_seq_def ext_seq_def)
  have v: "ext_seq ?v = unat (s + 1) + sum_list ds" "unat (received ?v) = 1 + length ds"
    "base_seq ?v = ucast (s + 1)"
    using feed_in_order [of ?u ds] assms(2,3) len unat_succ_16 [OF assms(1)]
    unfolding u by auto
  have ext: "ext_seq ?v < 2 ^ 32" "unat (base_seq ?v) \<le> ext_seq ?v"
    using assms(3) by (simp_all add: v)
  show ?thesis
    using unat_expected [OF ext] unat_lost [OF ext] v len
    unfolding Let_def feed received_packets_def by simp
qed

theorem statistics_exact_witness:
  "unat (lost (feed (new_seq_utility 65530) (65530 # (65530 + 1) # seqs_from (65530 + 1) [2, 5, 1])))
     = 5"
  using statistics_exact [of 65530 "[2, 5, 1]"] by (simp add: Let_def)

text \<open>
  A number 3000 to 65435 ahead is rejected and only remembered; the same
  number plus one right after it re-synchronises the source, which restarts its counts
  there.
\<close>

theorem update_seq_resync:
  assumes "probation u = 0" and "3000 \<le> unat (s - max_seq u)" and "unat (s - max_seq u) < 65436"
    and "ucast s \<noteq> bad_seq u"
  shows "update_seq u s = (0, u\<lparr>bad_seq := ucast (s + 1)\<rparr>) \<and>
    update_seq (snd (update_seq u s)) (s + 1) = (1, (init_seq u (s + 1))\<lparr>received := 1\<rparr>)"
proof -
  have "(65535 :: u32) = mask 16"
    by (simp add: mask_eq_exp_minus_1)
  then have "(ucast s + 1 :: u32) AND 65535 = take_bit 16 (ucast s + 1)"
    by (simp add: take_bit_eq_mask)
  also have "\<dots> = ucast (s + 1)"
    by (rule take_bit_succ_16)
  finally have bad: "(ucast s + 1) AND 65535 = (ucast (s + 1) :: u32)" .
  have j: "3000 \<le> uint (s - max_seq u)" "uint (s - max_seq u) \<le> 65436"
    using assms(2,3) by (simp_all add: uint_le_numeral le_uint_numeral)
  have one: "update_seq u s = (0, u\<lparr>bad_seq := ucast (s + 1)\<rparr>)"
    using update_seq_jump [OF assms(1) j] assms(4) bad by simp
  have "unat ((s - max_seq u) + 1) = unat (s - max_seq u) + 1"
    using assms(3) by (simp add: unat_word_ariths)
  then have succ: "unat (s + 1 - max_seq u) = unat (s - max_seq u) + 1"
    by (simp add: algebra_simps)
  have "update_seq (snd (update_seq u s)) (s + 1) = (1, (init_seq u (s + 1))\<lparr>received := 1\<rparr>)"
    using update_seq_jump [of "u\<lparr>bad_seq := ucast (s + 1)\<rparr>" "s + 1"] assms succ
    by (simp add: one init_seq_def uint_le_numeral le_uint_numeral)
  with one show ?thesis by simp
qed

theorem update_seq_resync_witness:
  "update_seq (snd (update_seq sample_utility 20000)) 20001 =
     (1, (init_seq sample_utility 20001)\<lparr>received := 1\<rparr>)"
proof -
  have "probation sample_utility = 0" "3000 \<le> unat (20000 - max_seq sample_utility)"
    "unat (20000 - max_seq sample_utility) < 65436" "ucast (20000 :: u16) \<noteq> bad_seq sample_utility"
    by (simp_all add: sample_utility_def)
  from update_seq_resync [OF this] have
    "update_seq (snd (update_seq sample_utility 20000)) (20000 + 1) =
       (1, (init_seq sample_utility (20000 + 1))\<lparr>received := 1\<rparr>)" ..
  then show ?thesis by simp
qed

text \<open>
  A repeated number of a valid source is accepted and counted once more while
  the expected count stays, so the loss drops by one; it is unsigned, and a loss of zero
  becomes the largest 64-bit number.
\<close>

theorem duplicate_decrements_lost:
  assumes "probation u = 0" and "unat (received u) < 2 ^ 32 - 1"
  shows "fst (update_seq u (max_seq u)) = 1 \<and>
    expected (snd (update_seq u (max_seq u))) = expected u \<and>
    lost (snd (update_seq u (max_seq u))) = lost u - 1 \<and>
    (lost u = 0 \<longrightarrow> unat (lost (snd (update_seq u (max_seq u)))) = 2 ^ 64 - 1)"
proof -
  have upd: "update_seq u (max_seq u) = (1, u\<lparr>received := received u + 1\<rparr>)"
    using update_seq_in_order [OF assms(1), of "max_seq u"] by simp
  have "(ucast (received u + 1) :: u64) = ucast (received u) + 1"
    using assms(2) by (simp add: word_unat_eq_iff unat_word_ariths)
  then have "lost (snd (update_seq u (max_seq u))) = lost u - 1"
    by (simp add: upd lost_def expected_def extended_max_def)
  moreover have "unat (- 1 :: u64) = 2 ^ 64 - 1"
    by (simp add: unsigned_minus_1_eq_mask mask_eq_exp_minus_1)
  ultimately show ?thesis
    by (simp add: upd expected_def extended_max_def)
qed

theorem duplicate_decrements_lost_witness:
  "unat (lost (feed (new_seq_utility 7) [7, 8, 8])) = 2 ^ 64 - 1"
proof -
  let ?u = "feed (new_seq_utility 7) [7, 8]"
  have u: "?u = (init_seq (new_seq_utility 7) 8)\<lparr>probation := 0, received := 1\<rparr>"
    using feed_first_two(2) [of 7] by simp
  then have "probation ?u = 0" "unat (received ?u) < 2 ^ 32 - 1" "max_seq ?u = 8" "lost ?u = 0"
    by (simp_all add: init_seq_def lost_def expected_def extended_max_def)
  then show ?thesis
    using duplicate_decrements_lost [of ?u]
    by (simp add: unsigned_minus_1_eq_mask mask_eq_exp_minus_1)
qed

end
