(* ===== verification/Fec_Generator.thy ===== *)
theory Fec_Generator
  imports Spirit
begin

section \<open>The FEC generator: \<open>rtp::fec_generator\<close>\<close>

text \<open>
  The generator of parity packets in \<open>rtp_endsystem.cpp\<close>. It keeps a running bit string, the
  exclusive or of the blocks of the media packets seen since the last parity packet, and
  a countdown; every \<open>fec_k\<close>-th call returns a parity packet without RTP header. The call
  is modelled as a state transformer that also returns the exception it ends with, because
  a throwing call has already changed the generator. The second half of the theory states
  what the bit string is (a parity of zero-padded blocks) and proves that the calls
  implement it.
\<close>

record fec_generator =
  fec_k :: u16
  current_fec_k :: u16
  fec_bit_string :: octets
  fec_seq_base :: u16

definition new_fec_generator :: "u16 \<Rightarrow> fec_generator" where
  "new_fec_generator k =
     \<lparr>fec_k = k, current_fec_k = k, fec_bit_string = [], fec_seq_base = 0\<rparr>"

subsection \<open>\<open>generate_next_fec_packet\<close>\<close>

text \<open>
  \<open>std::transform(begin + lo, begin + hi, other, begin + lo, f)\<close> with the exclusive or:
  every caller passes at least \<open>hi - lo\<close> octets in \<open>other\<close>.
\<close>

definition xor_range :: "nat \<Rightarrow> nat \<Rightarrow> octets \<Rightarrow> octets \<Rightarrow> octets" where
  "xor_range lo hi bits other =
     take lo bits @ map2 (XOR) (take (hi - lo) (drop lo bits)) other @ drop hi bits"

text \<open>
  How a media packet enters the bit string: its first eight octets, its length without the
  fixed header, and the rest from octet eight on, which grows the string when needed.
\<close>

definition fec_absorb :: "spirit \<Rightarrow> octets \<Rightarrow> octets \<Rightarrow> octets" where
  "fec_absorb sp bits media =
     (let bits = (if bits = [] then take 8 media else xor_range 0 8 bits media);
          len = karma_big_word sp (of_nat (length media - 12));
          bits = (if length bits = 8 then bits @ len else xor_range 8 10 bits len)
      in if length media \<le> length bits - 2
         then xor_range 10 (10 + (length media - 8)) bits (drop 8 media)
         else xor_range 10 (length bits) bits (drop 8 media) @
              map (\<lambda>a. a XOR 0) (drop (length bits - 2) media))"

text \<open>\<open>for (unsigned u = 0; u < fec_k; ++u) mask.at(u / 8u) |= 0b10000000 >> u % 8u;\<close>\<close>

fun set_mask_bits :: "nat \<Rightarrow> nat \<Rightarrow> octets \<Rightarrow> octets result" where
  "set_mask_bits 0 u m = Inr m"
| "set_mask_bits (Suc n) u m =
     rbind (vec_at m (u div 8)) (\<lambda>octet.
       set_mask_bits n (Suc u) (m[u div 8 := octet OR drop_bit (u mod 8) 0x80]))"

definition fec_emit :: "spirit \<Rightarrow> fec_generator \<Rightarrow> octets result \<times> fec_generator" where
  "fec_emit sp g =
     (let bits = fec_bit_string g;
          octet_0 = bits ! 0 AND 0x3F;
          octet_0 = (if fec_k g > 16 then octet_0 OR 0x40 else octet_0);
          sn_base = karma_big_word sp (fec_seq_base g);
          g = g\<lparr>fec_seq_base := 0\<rparr>;
          front = [octet_0, bits ! 1] @ sn_base @ take 6 (drop 4 bits) @
                  karma_big_word sp (of_nat (length bits - 12))
      in case set_mask_bits (unat (fec_k g)) 0 (replicate 6 0) of
           Inl e \<Rightarrow> (Inl e, g)
         | Inr m \<Rightarrow>
             (Inr (front @ (if fec_k g > 16 then m else take 2 m) @ drop 12 bits),
              g\<lparr>fec_bit_string := []\<rparr>))"

definition generate_next_fec_packet ::
    "spirit \<Rightarrow> fec_generator \<Rightarrow> octets \<Rightarrow> u16 \<Rightarrow> octets option result \<times> fec_generator" where
  "generate_next_fec_packet sp g media seq_num =
     (if length media < 12 then (Inl (Logic_error ''Mediapacket size < 10''), g)
      else
      let g = g\<lparr>fec_seq_base := (if fec_seq_base g \<noteq> 0 then min seq_num (fec_seq_base g)
                                else seq_num)\<rparr>;
          g = g\<lparr>fec_bit_string := fec_absorb sp (fec_bit_string g) media\<rparr>;
          current = current_fec_k g;
          g = g\<lparr>current_fec_k := current - 1\<rparr>
      in if current > 1 then (Inr None, g)
         else
         let (packet, g) = fec_emit sp (g\<lparr>current_fec_k := fec_k g\<rparr>)
         in (rbind packet (\<lambda>octets. Inr (Some octets)), g))"

subsection \<open>Parity of zero-padded octet strings\<close>

fun xor_pad :: "octets \<Rightarrow> octets \<Rightarrow> octets" where
  "xor_pad [] ys = ys"
| "xor_pad (x # xs) [] = x # xs"
| "xor_pad (x # xs) (y # ys) = (x XOR y) # xor_pad xs ys"

text \<open>An octet string read as if zeros followed it.\<close>

definition octet_at :: "octets \<Rightarrow> nat \<Rightarrow> u8" where
  "octet_at xs i = (if i < length xs then xs ! i else 0)"

definition same_octets :: "octets \<Rightarrow> octets \<Rightarrow> bool" where
  "same_octets xs ys \<longleftrightarrow> octet_at xs = octet_at ys"

lemma octet_at_simps [simp]:
  "octet_at [] i = 0"
  "octet_at (x # xs) 0 = x"
  "octet_at (x # xs) (Suc i) = octet_at xs i"
  by (simp_all add: octet_at_def)

lemma xor_pad_Nil2 [simp]: "xor_pad xs [] = xs"
  by (cases xs) simp_all

lemma length_xor_pad [simp]: "length (xor_pad xs ys) = max (length xs) (length ys)"
  by (induction xs ys rule: xor_pad.induct) simp_all

lemma octet_at_xor_pad [simp]: "octet_at (xor_pad xs ys) i = octet_at xs i XOR octet_at ys i"
proof (induction xs ys arbitrary: i rule: xor_pad.induct)
  case (3 x xs y ys)
  then show ?case by (cases i) simp_all
qed simp_all

lemma octets_eqI:
  assumes "length xs = length ys" and "\<And>i. octet_at xs i = octet_at ys i"
  shows "xs = ys"
proof (rule nth_equalityI [OF assms(1)])
  fix i assume "i < length xs"
  then show "xs ! i = ys ! i"
    using assms(1) assms(2) [of i] by (simp add: octet_at_def)
qed

lemma same_octets_length: "same_octets xs ys \<Longrightarrow> length xs = length ys \<Longrightarrow> xs = ys"
  by (rule octets_eqI) (simp_all add: same_octets_def)

lemma octet_at_append:
  "octet_at (xs @ ys) i = (if i < length xs then octet_at xs i else octet_at ys (i - length xs))"
  by (auto simp: octet_at_def nth_append)

lemma octet_at_take: "octet_at (take n xs) i = (if i < n then octet_at xs i else 0)"
  by (simp add: octet_at_def)

lemma octet_at_drop: "octet_at (drop n xs) i = octet_at xs (n + i)"
  by (auto simp: octet_at_def)

lemma octet_at_beyond: "length xs \<le> i \<Longrightarrow> octet_at xs i = 0"
  by (simp add: octet_at_def)

lemma octet_at_map2:
  "octet_at (map2 (XOR) xs ys) i =
     (if i < length xs \<and> i < length ys then octet_at xs i XOR octet_at ys i else 0)"
  by (auto simp: octet_at_def)

subsection \<open>Erasure codes\<close>

text \<open>
  What the recovery of one lost packet rests on, as an interface: combining is commutative
  and associative with a neutral element, and combining the same value twice is as good as
  not combining it. The receiver's side is proved from these laws alone: the parity of
  all blocks combined with the parity of all but one is that one.
\<close>

locale erasure_code =
  fixes add :: "'a \<Rightarrow> 'a \<Rightarrow> 'a" and zero :: 'a and eqv :: "'a \<Rightarrow> 'a \<Rightarrow> bool"
  assumes add_assoc: "add (add a b) c = add a (add b c)"
    and add_commute: "add a b = add b a"
    and add_zero: "add a zero = a"
    and add_cancel: "eqv (add a (add a b)) b"
begin

fun parity :: "'a list \<Rightarrow> 'a" where
  "parity [] = zero"
| "parity (x # xs) = add x (parity xs)"

lemma parity_append: "parity (xs @ ys) = add (parity xs) (parity ys)"
  by (induction xs) (simp_all add: add_zero add_commute [of zero] add_assoc)

lemma parity_middle: "parity (xs @ x # ys) = add x (parity (xs @ ys))"
  unfolding parity_append parity.simps by (metis add_assoc add_commute)

lemma parity_foldl: "foldl add z xs = add z (parity xs)"
  by (induction xs arbitrary: z) (simp_all add: add_zero add_assoc)

lemma erasure_recovered: "eqv (add (parity (xs @ ys)) (parity (xs @ x # ys))) x"
  using add_cancel [of "parity (xs @ ys)" x] unfolding parity_middle by (simp add: add_commute)

end

lemma xor_pad_assoc: "xor_pad (xor_pad a b) c = xor_pad a (xor_pad b c)"
  by (rule octets_eqI) (simp_all add: max.assoc xor.assoc)

lemma xor_pad_commute: "xor_pad a b = xor_pad b a"
  by (rule octets_eqI) (simp_all add: max.commute xor.commute)

lemma xor_pad_cancel: "same_octets (xor_pad a (xor_pad a b)) b"
  by (simp add: same_octets_def fun_eq_iff flip: xor.assoc)

interpretation fec: erasure_code xor_pad "[]" same_octets
  by unfold_locales (simp_all add: xor_pad_assoc xor_pad_cancel, rule xor_pad_commute)

subsection \<open>What the bit string is\<close>

text \<open>The block a media packet contributes, and the specification of the running bit string.\<close>

definition fec_block :: "octets \<Rightarrow> octets" where
  "fec_block media = take 8 media @ split16 (of_nat (length media - 12)) @ drop 8 media"

definition fec_parity :: "octets list \<Rightarrow> octets" where
  "fec_parity ms = foldr (\<lambda>m. xor_pad (fec_block m)) ms []"

lemma fec_parity_simps [simp]:
  "fec_parity [] = []"
  "fec_parity (m # ms) = xor_pad (fec_block m) (fec_parity ms)"
  by (simp_all add: fec_parity_def)

lemma fec_parity_eq: "fec_parity ms = fec.parity (map fec_block ms)"
  by (induction ms) simp_all

lemma fec_parity_snoc: "fec_parity (ms @ [m]) = xor_pad (fec_parity ms) (fec_block m)"
  by (simp add: fec_parity_eq fec.parity_append)

lemma length_fec_block: "8 \<le> length m \<Longrightarrow> length (fec_block m) = length m + 2"
  by (simp add: fec_block_def)

lemma length_fec_parity: "m \<in> set ms \<Longrightarrow> 8 \<le> length m \<Longrightarrow> length m + 2 \<le> length (fec_parity ms)"
  by (induction ms) (auto simp: length_fec_block)

lemma length_xor_range:
  "lo \<le> hi \<Longrightarrow> hi \<le> length bits \<Longrightarrow> hi - lo \<le> length other \<Longrightarrow>
     length (xor_range lo hi bits other) = length bits"
  by (simp add: xor_range_def)

lemma octet_at_xor_range:
  assumes "lo \<le> hi" "hi \<le> length bits" "hi - lo \<le> length other"
  shows "octet_at (xor_range lo hi bits other) i =
    (if lo \<le> i \<and> i < hi then octet_at bits i XOR octet_at other (i - lo) else octet_at bits i)"
  using assms
  by (auto simp: xor_range_def octet_at_append octet_at_take octet_at_drop octet_at_map2
      octet_at_beyond)

lemma octet_at_fec_block:
  "8 \<le> length m \<Longrightarrow> octet_at (fec_block m) i =
    (if i < 8 then octet_at m i
     else if i < 10 then octet_at (split16 (of_nat (length m - 12))) (i - 8)
     else octet_at m (i - 2))"
  by (auto simp: fec_block_def octet_at_append octet_at_take octet_at_drop)

context spirit_octets
begin

lemma fec_absorb_first:
  assumes "12 \<le> length m"
  shows "fec_absorb sp [] m = fec_block m"
proof -
  have "xor_range 10 10 xs ys = xs" for xs ys
    by (simp add: xor_range_def)
  then show ?thesis
    using assms by (simp add: fec_absorb_def Let_def karma_simps fec_block_def)
qed

lemma fec_absorb_next:
  assumes "12 \<le> length m" and bits: "14 \<le> length bits"
  shows "fec_absorb sp bits m = xor_pad bits (fec_block m)"
proof -
  define len where "len = split16 (of_nat (length m - 12) :: u16)"
  let ?b = "xor_range 8 10 (xor_range 0 8 bits m) len"
  have len: "length len = 2" by (simp add: len_def)
  have l8: "length (xor_range 0 8 bits m) = length bits"
    using assms by (intro length_xor_range) simp_all
  then have lb: "length ?b = length bits"
    using assms len by (simp add: length_xor_range)
  have b: "octet_at ?b i = (if i < 8 then octet_at bits i XOR octet_at m i
      else if i < 10 then octet_at bits i XOR octet_at len (i - 8) else octet_at bits i)" for i
    using assms len l8 by (simp add: octet_at_xor_range)
  have blk: "octet_at (fec_block m) i = (if i < 8 then octet_at m i
      else if i < 10 then octet_at len (i - 8) else octet_at m (i - 2))" for i
    using assms by (simp add: octet_at_fec_block len_def)
  have "bits \<noteq> []" "length bits \<noteq> 8"
    using bits by auto
  then have absorb: "fec_absorb sp bits m =
      (if length m \<le> length bits - 2 then xor_range 10 (10 + (length m - 8)) ?b (drop 8 m)
       else xor_range 10 (length bits) ?b (drop 8 m) @ drop (length bits - 2) m)"
    using l8 lb by (simp add: fec_absorb_def Let_def karma_simps len_def)
  show ?thesis
  proof (rule octets_eqI)
    show "length (fec_absorb sp bits m) = length (xor_pad bits (fec_block m))"
      using assms lb unfolding absorb
      by (auto simp: length_xor_range length_fec_block)
    fix i
    show "octet_at (fec_absorb sp bits m) i = octet_at (xor_pad bits (fec_block m)) i"
    proof (cases "length m \<le> length bits - 2")
      case True
      then show ?thesis
        using assms lb unfolding absorb
        by (auto simp: octet_at_xor_range b blk octet_at_drop octet_at_beyond)
    next
      case False
      then show ?thesis
        using assms lb unfolding absorb
        by (auto simp: octet_at_append length_xor_range octet_at_xor_range b blk octet_at_drop
            octet_at_beyond)
    qed
  qed
qed

end

subsection \<open>The level mask\<close>

text \<open>The mask whose first \<open>k\<close> bits, counted from the most significant one, are set.\<close>

definition fec_mask :: "nat \<Rightarrow> octets" where
  "fec_mask k = map (\<lambda>i. NOT (drop_bit (k - 8 * i) 0xFF)) [0..<6]"

lemma length_fec_mask [simp]: "length (fec_mask k) = 6"
  by (simp add: fec_mask_def)

lemma fec_mask_0: "fec_mask 0 = replicate 6 0"
  by (rule nth_equalityI) (simp_all add: fec_mask_def)

lemma octet_mask_Suc:
  assumes "j < 8"
  shows "NOT (drop_bit j 0xFF) OR drop_bit j 0x80 = NOT (drop_bit (Suc j) (0xFF :: u8))"
proof -
  have "j = 0 \<or> j = 1 \<or> j = 2 \<or> j = 3 \<or> j = 4 \<or> j = 5 \<or> j = 6 \<or> j = 7"
    using assms by auto
  then show ?thesis by auto
qed

lemma octet_mask_full: "8 \<le> j \<Longrightarrow> NOT (drop_bit j (0xFF :: u8)) = - 1"
proof -
  assume "8 \<le> j"
  then have "drop_bit j (0xFF :: u8) = 0"
    by (intro bit_word_eqI) (simp add: bit_drop_bit_eq bit_imp_le_length not_less)
  then show ?thesis by simp
qed

lemma fec_mask_Suc:
  assumes "u < 48"
  shows "(fec_mask u)[u div 8 := fec_mask u ! (u div 8) OR drop_bit (u mod 8) 0x80] =
    fec_mask (Suc u)"
proof (rule nth_equalityI)
  fix i
  assume "i < length ((fec_mask u)[u div 8 := fec_mask u ! (u div 8) OR drop_bit (u mod 8) 0x80])"
  then have i: "i < 6" by simp
  have q: "u div 8 < 6" using assms by simp
  consider "i = u div 8" | "i < u div 8" | "u div 8 < i" by arith
  then show "(fec_mask u)[u div 8 := fec_mask u ! (u div 8) OR drop_bit (u mod 8) 0x80] ! i =
    fec_mask (Suc u) ! i"
  proof cases
    case 1
    have "u - 8 * (u div 8) = u mod 8" "Suc u - 8 * (u div 8) = Suc (u mod 8)"
      by (simp_all add: minus_mult_div_eq_mod Suc_diff_le)
    then show ?thesis
      using 1 q octet_mask_Suc [of "u mod 8"] by (simp add: fec_mask_def)
  next
    case 2
    then have "8 \<le> u - 8 * i" "8 \<le> Suc u - 8 * i" by auto
    then show ?thesis
      using 2 i octet_mask_full by (simp add: fec_mask_def)
  next
    case 3
    then have "u - 8 * i = 0" "Suc u - 8 * i = 0" by auto
    then show ?thesis
      using 3 i by (simp add: fec_mask_def)
  qed
qed simp

lemma set_mask_bits_ok: "u + n \<le> 48 \<Longrightarrow> set_mask_bits n u (fec_mask u) = Inr (fec_mask (u + n))"
  by (induction n arbitrary: u) (simp_all add: fec_mask_Suc)

lemma set_mask_bits_error:
  "u \<le> 48 \<Longrightarrow> 48 < u + n \<Longrightarrow> set_mask_bits n u (fec_mask u) = Inl Out_of_range"
proof (induction n arbitrary: u)
  case (Suc n)
  show ?case
  proof (cases "u = 48")
    case False
    then have "u < 48" using Suc.prems by simp
    then show ?thesis using Suc by (simp add: fec_mask_Suc)
  qed simp
qed simp

lemma fec_mask_bit:
  assumes "u < 48"
  shows "bit (fec_mask k ! (u div 8)) (7 - u mod 8) \<longleftrightarrow> u < k"
proof -
  have "(255 :: int) = mask 8"
    by (simp add: mask_eq_exp_minus_1)
  then have ff: "bit (255 :: int) n \<longleftrightarrow> n < 8" for n
    by (simp only: bit_mask_iff possible_bit_def) simp
  moreover have "u div 8 < 6" using assms by simp
  moreover have "k - 8 * (u div 8) + 7 - u mod 8 < 8 \<longleftrightarrow> \<not> u < k"
  proof -
    have "k - 8 * q + 7 - r < 8 \<longleftrightarrow> \<not> 8 * q + r < k" if "r < 8" for q r
      using that by auto
    from this [of "u mod 8" "u div 8"] show ?thesis
      by (simp only: mult_div_mod_eq mod_less_divisor zero_less_numeral)
  qed
  ultimately show ?thesis
    by (simp add: fec_mask_def bit_not_iff bit_drop_bit_eq less_imp_diff_less ff)
qed

subsection \<open>The specification and the refinement\<close>

text \<open>
  The specification remembers the media packets and their numbers since the last parity
  packet. It emits a packet made from all of them as soon as there are \<open>k\<close>.
\<close>

definition fec_base :: "u16 list \<Rightarrow> u16" where
  "fec_base seqs = foldl (\<lambda>b s. if b \<noteq> 0 then min s b else s) 0 seqs"

definition fec_packet_of :: "nat \<Rightarrow> (octets \<times> u16) list \<Rightarrow> octets" where
  "fec_packet_of k ms =
     (let bits = fec_parity (map fst ms)
      in [(bits ! 0 AND 0x3F) OR (if 16 < k then 0x40 else 0), bits ! 1] @
         split16 (fec_base (map snd ms)) @ take 6 (drop 4 bits) @
         split16 (of_nat (length bits - 12)) @
         (if 16 < k then fec_mask k else take 2 (fec_mask k)) @ drop 12 bits)"

definition fec_spec_step ::
    "nat \<Rightarrow> (octets \<times> u16) list \<Rightarrow> octets \<Rightarrow> u16 \<Rightarrow> octets option \<times> (octets \<times> u16) list" where
  "fec_spec_step k ms m s =
     (if Suc (length ms) < k then (None, ms @ [(m, s)])
      else (Some (fec_packet_of k (ms @ [(m, s)])), []))"

text \<open>The simulation relation between the pending packets and the generator's members.\<close>

definition fec_refines :: "nat \<Rightarrow> (octets \<times> u16) list \<Rightarrow> fec_generator \<Rightarrow> bool" where
  "fec_refines k ms g \<longleftrightarrow>
     unat (fec_k g) = k \<and> length ms < k \<and> unat (current_fec_k g) = k - length ms \<and>
     fec_bit_string g = fec_parity (map fst ms) \<and> fec_seq_base g = fec_base (map snd ms) \<and>
     (\<forall>(m, s)\<in>set ms. 12 \<le> length m)"

lemma fec_refines_new [preserved]:
  "0 < k \<Longrightarrow> fec_refines (unat k) [] (new_fec_generator k)"
  by (simp add: fec_refines_def new_fec_generator_def fec_base_def word_less_nat_alt)

lemma fec_base_snoc:
  "fec_base (seqs @ [s]) = (if fec_base seqs \<noteq> 0 then min s (fec_base seqs) else s)"
  by (simp add: fec_base_def)

lemma fec_base_Min:
  assumes "seqs \<noteq> []" and "\<forall>s\<in>set seqs. s \<noteq> 0"
  shows "fec_base seqs = Min (set seqs) \<and> fec_base seqs \<noteq> 0"
  using assms
proof (induction seqs rule: rev_nonempty_induct)
  case (single s)
  then show ?case by (simp add: fec_base_def)
next
  case (snoc s seqs)
  then show ?case by (auto simp: fec_base_snoc min_def)
qed

context spirit_octets
begin

lemma fec_absorb_parity:
  assumes "12 \<le> length m" and "\<forall>m\<in>set ms. 12 \<le> length m"
  shows "fec_absorb sp (fec_parity ms) m = fec_parity (ms @ [m])"
proof (cases ms)
  case Nil
  then show ?thesis using assms by (simp add: fec_absorb_first)
next
  case (Cons m' ms')
  then have "14 \<le> length (fec_parity ms)"
    using length_fec_parity [of m' ms] assms(2) by auto
  then show ?thesis
    using assms by (simp add: fec_absorb_next fec_parity_snoc)
qed

lemma fec_emit_ok:
  assumes "unat (fec_k g) = k" "k \<le> 48" "fec_bit_string g = fec_parity (map fst ms)"
    and "fec_seq_base g = fec_base (map snd ms)"
  shows "fec_emit sp g = (Inr (fec_packet_of k ms), g\<lparr>fec_seq_base := 0, fec_bit_string := []\<rparr>)"
proof -
  have "fec_k g > 16 \<longleftrightarrow> 16 < k"
    using assms(1) by (simp add: word_less_nat_alt)
  moreover have "set_mask_bits k 0 (replicate 6 0) = Inr (fec_mask k)"
    using set_mask_bits_ok [of 0 k] assms(2) by (simp add: fec_mask_0)
  ultimately show ?thesis
    using assms by (simp add: fec_emit_def fec_packet_of_def Let_def karma_simps)
qed

lemma fec_emit_error:
  assumes "48 < unat (fec_k g)"
  shows "fec_emit sp g = (Inl Out_of_range, g\<lparr>fec_seq_base := 0\<rparr>)"
  using set_mask_bits_error [of 0 "unat (fec_k g)"] assms
  by (simp add: fec_emit_def Let_def fec_mask_0)

lemma generate_absorbed:
  assumes "fec_refines k ms g" and "12 \<le> length m"
  shows "generate_next_fec_packet sp g m s =
    (let h = g\<lparr>fec_seq_base := fec_base (map snd (ms @ [(m, s)])),
              fec_bit_string := fec_parity (map fst (ms @ [(m, s)]))\<rparr>
     in if Suc (length ms) < k then (Inr None, h\<lparr>current_fec_k := current_fec_k g - 1\<rparr>)
        else let (packet, g) = fec_emit sp (h\<lparr>current_fec_k := fec_k g\<rparr>)
             in (rbind packet (\<lambda>octets. Inr (Some octets)), g))"
proof -
  have "\<forall>m\<in>set (map fst ms). 12 \<le> length m"
    using assms(1) by (auto simp: fec_refines_def)
  note absorb = fec_absorb_parity [OF assms(2) this]
  have "1 < current_fec_k g \<longleftrightarrow> Suc (length ms) < k"
    using assms(1) by (auto simp: fec_refines_def word_less_nat_alt)
  then show ?thesis
    using assms by (simp add: generate_next_fec_packet_def Let_def absorb fec_refines_def
        fec_base_snoc)
qed

lemma generate_pending:
  assumes "fec_refines k ms g" and "12 \<le> length m" and "Suc (length ms) < k"
  shows "\<exists>g'. generate_next_fec_packet sp g m s = (Inr None, g') \<and>
           fec_refines k (ms @ [(m, s)]) g'"
proof -
  have "unat (current_fec_k g) = k - length ms"
    using assms(1) by (simp add: fec_refines_def)
  then have "current_fec_k g \<noteq> 0"
    using assms(3) by auto
  then have "unat (current_fec_k g - 1) = k - Suc (length ms)"
    using assms(1) by (auto simp: fec_refines_def unat_minus_one)
  then show ?thesis
    using assms by (simp add: generate_absorbed [OF assms(1,2)] Let_def)
      (auto simp: fec_refines_def)
qed

lemma generate_due:
  assumes "fec_refines k ms g" and "12 \<le> length m" and "\<not> Suc (length ms) < k"
  shows "generate_next_fec_packet sp g m s =
    (if k \<le> 48
     then (Inr (Some (fec_packet_of k (ms @ [(m, s)]))),
           g\<lparr>current_fec_k := fec_k g, fec_seq_base := 0, fec_bit_string := []\<rparr>)
     else (Inl Out_of_range,
           g\<lparr>current_fec_k := fec_k g, fec_seq_base := 0,
             fec_bit_string := fec_parity (map fst (ms @ [(m, s)]))\<rparr>))"
proof -
  define h where "h = g\<lparr>fec_seq_base := fec_base (map snd (ms @ [(m, s)])),
    fec_bit_string := fec_parity (map fst (ms @ [(m, s)])), current_fec_k := fec_k g\<rparr>"
  have k: "unat (fec_k h) = k"
    using assms(1) by (simp add: h_def fec_refines_def)
  have gen: "generate_next_fec_packet sp g m s =
      (let (packet, g) = fec_emit sp h in (rbind packet (\<lambda>octets. Inr (Some octets)), g))"
    using assms by (simp add: generate_absorbed Let_def h_def)
  show ?thesis
  proof (cases "k \<le> 48")
    case True
    have "fec_emit sp h = (Inr (fec_packet_of k (ms @ [(m, s)])),
        h\<lparr>fec_seq_base := 0, fec_bit_string := []\<rparr>)"
      by (rule fec_emit_ok [OF k True]) (simp_all add: h_def)
    then show ?thesis using True by (simp add: gen h_def)
  next
    case False
    then show ?thesis using fec_emit_error [of h] k by (simp add: gen h_def)
  qed
qed

lemma generate_refines:
  assumes "fec_refines k ms g" and "k \<le> 48" and "12 \<le> length m"
  shows "\<exists>g'. generate_next_fec_packet sp g m s = (Inr (fst (fec_spec_step k ms m s)), g') \<and>
           fec_refines k (snd (fec_spec_step k ms m s)) g'"
proof (cases "Suc (length ms) < k")
  case True
  then show ?thesis
    using generate_pending [OF assms(1,3) True] by (simp add: fec_spec_step_def)
next
  case False
  then show ?thesis
    using assms by (auto simp: generate_due fec_spec_step_def fec_refines_def fec_base_def)
qed

end

text \<open>Whatever the primitives do, only two exceptions can come out of a call.\<close>

lemma set_mask_bits_exn: "set_mask_bits n u m = Inl e \<Longrightarrow> e = Out_of_range"
  by (induction n u m rule: set_mask_bits.induct) (auto simp: vec_at_def split: if_splits)

lemma generate_exn:
  assumes "generate_next_fec_packet sp g m s = (Inl e, g')"
  shows "e = Logic_error ''Mediapacket size < 10'' \<or> e = Out_of_range"
  using assms
  by (auto simp: generate_next_fec_packet_def fec_emit_def Let_def
      split: if_splits sum.splits dest: set_mask_bits_exn)

subsection \<open>Whole streams\<close>

text \<open>Feeding media packets one after the other, as the sender does, until a call throws.\<close>

fun fec_run :: "spirit \<Rightarrow> fec_generator \<Rightarrow> (octets \<times> u16) list \<Rightarrow> octets option result list" where
  "fec_run sp g [] = []"
| "fec_run sp g ((m, s) # ms) =
     (case generate_next_fec_packet sp g m s of
        (Inl e, g) \<Rightarrow> [Inl e]
      | (Inr p, g) \<Rightarrow> Inr p # fec_run sp g ms)"

lemma fec_run_pending:
  assumes "spirit_octets sp" and "fec_refines k pre g" and "k \<le> 48"
    and "\<forall>(m, s)\<in>set ms. 12 \<le> length m" and "length pre + length ms < k"
  shows "fec_run sp g ms = replicate (length ms) (Inr None) \<and>
    (\<forall>rest. \<exists>g'. fec_refines k (pre @ ms) g' \<and>
       fec_run sp g (ms @ rest) = replicate (length ms) (Inr None) @ fec_run sp g' rest)"
  using assms(2-)
proof (induction ms arbitrary: pre g)
  case Nil
  then show ?case by auto
next
  case (Cons x ms)
  obtain m s where x: "x = (m, s)" by force
  have "fec_spec_step k pre m s = (None, pre @ [(m, s)])"
    using Cons.prems(4) by (simp add: fec_spec_step_def)
  then obtain g1 where g1: "generate_next_fec_packet sp g m s = (Inr None, g1)"
    "fec_refines k (pre @ [(m, s)]) g1"
    using spirit_octets.generate_refines [OF assms(1) Cons.prems(1,2), of m s] Cons.prems(3) x
    by auto
  show ?case
    using Cons.IH [OF g1(2) Cons.prems(2)] Cons.prems(3,4) by (simp add: x g1(1))
qed

lemma fec_run_block:
  assumes sp: "spirit_octets sp" and g: "fec_refines k [] g" and k: "k \<le> 48"
    and ms: "\<forall>(m, s)\<in>set ms. 12 \<le> length m" and len: "length ms = k"
  shows "\<exists>g'. fec_refines k [] g' \<and>
    fec_run sp g (ms @ rest) =
      replicate (k - 1) (Inr None) @ Inr (Some (fec_packet_of k ms)) # fec_run sp g' rest"
proof -
  have "0 < k" using g by (simp add: fec_refines_def)
  then obtain front m s where split: "ms = front @ [(m, s)]"
    using len by (metis length_0_conv less_numeral_extra(3) rev_exhaust surj_pair)
  have "length front = k - 1"
    using len split by simp
  then have "\<forall>rest. \<exists>g'. fec_refines k ([] @ front) g' \<and>
      fec_run sp g (front @ rest) = replicate (length front) (Inr None) @ fec_run sp g' rest"
    using fec_run_pending [OF sp g k, of front] ms \<open>0 < k\<close> split by auto
  then obtain g1 where g1: "fec_refines k front g1" "fec_run sp g (front @ (m, s) # rest) =
      replicate (k - 1) (Inr None) @ fec_run sp g1 ((m, s) # rest)"
    unfolding \<open>length front = k - 1\<close> append_Nil by blast
  have "fec_spec_step k front m s = (Some (fec_packet_of k ms), [])"
    using \<open>length front = k - 1\<close> \<open>0 < k\<close> by (simp add: fec_spec_step_def split)
  then obtain g2 where "generate_next_fec_packet sp g1 m s = (Inr (Some (fec_packet_of k ms)), g2)"
    "fec_refines k [] g2"
    using spirit_octets.generate_refines [OF sp g1(1) k, of m s] ms split by auto
  with g1 split show ?thesis by auto
qed

lemma fec_run_blocks:
  assumes sp: "spirit_octets sp" and k: "k \<le> 48"
  shows "fec_refines k [] g \<Longrightarrow> \<forall>b\<in>set bs. length b = k \<and> (\<forall>(m, s)\<in>set b. 12 \<le> length m) \<Longrightarrow>
    \<forall>(m, s)\<in>set rest. 12 \<le> length m \<Longrightarrow> length rest < k \<Longrightarrow>
    fec_run sp g (concat bs @ rest) =
      concat (map (\<lambda>b. replicate (k - 1) (Inr None) @ [Inr (Some (fec_packet_of k b))]) bs) @
      replicate (length rest) (Inr None)"
proof (induction bs arbitrary: g)
  case Nil
  then show ?case using fec_run_pending [OF sp Nil(1) k, of rest] by simp
next
  case (Cons b bs)
  then obtain g' where "fec_refines k [] g'"
    "fec_run sp g (b @ concat bs @ rest) =
      replicate (k - 1) (Inr None) @ Inr (Some (fec_packet_of k b)) # fec_run sp g' (concat bs @ rest)"
    using fec_run_block [OF sp Cons.prems(1) k, of b "concat bs @ rest"] by auto
  with Cons show ?case by simp
qed

text \<open>How long the part of a parity packet before the payload is.\<close>

definition fec_front_length :: "nat \<Rightarrow> nat" where
  "fec_front_length k = (if 16 < k then 18 else 14)"

lemma fec_packet_payload:
  assumes "10 \<le> length (fec_parity (map fst ms))"
  shows "drop (fec_front_length k) (fec_packet_of k ms) = drop 12 (fec_parity (map fst ms))"
    and "length (fec_packet_of k ms) =
      fec_front_length k + (length (fec_parity (map fst ms)) - 12)"
  using assms by (simp_all add: fec_packet_of_def fec_front_length_def Let_def)

lemma octet_at_parity_middle:
  "octet_at (fec_parity (xs @ m # ys)) i =
     octet_at (fec_block m) i XOR octet_at (fec_parity (xs @ ys)) i"
  by (simp add: fec_parity_eq fec.parity_middle)

subsection \<open>Properties\<close>

text \<open>
  C7 (refinement): every call implements the specification. From related states, with at
  most 48 packets per parity packet, a media packet with a complete header never makes the
  generator throw; it returns what the specification returns, a parity packet exactly when
  \<open>k\<close> packets are pending, and the states stay related.
\<close>

theorem generate_next_fec_packet_refines:
  assumes "spirit_octets sp" and "fec_refines k ms g" and "k \<le> 48" and "12 \<le> length m"
  shows "\<exists>g'. generate_next_fec_packet sp g m s = (Inr (fst (fec_spec_step k ms m s)), g') \<and>
           fec_refines k (snd (fec_spec_step k ms m s)) g'"
  by (rule spirit_octets.generate_refines [OF assms])

theorem generate_next_fec_packet_refines_witness:
  "\<exists>g'. generate_next_fec_packet octet_spirit (new_fec_generator 3) (replicate 12 7) 99 =
     (Inr None, g') \<and> fec_refines 3 [(replicate 12 7, 99)] g'"
  using generate_next_fec_packet_refines [OF octet.spirit_octets_axioms, of 3 "[]"
      "new_fec_generator 3" "replicate 12 7" 99] fec_refines_new [of 3]
  by (simp add: fec_spec_step_def)

text \<open>
  C9 (functional): the output of a whole stream. A fresh generator cuts the stream of media
  packets into blocks of \<open>k\<close>: the calls for a block return nothing but for the last one,
  which returns the parity packet of precisely this block, and the calls for an unfinished
  block at the end return nothing.
\<close>

theorem fec_generator_stream:
  assumes "spirit_octets sp" and "0 < k" and "unat k \<le> 48"
    and "\<forall>b\<in>set blocks. length b = unat k \<and> (\<forall>(m, s)\<in>set b. 12 \<le> length m)"
    and "\<forall>(m, s)\<in>set rest. 12 \<le> length m" and "length rest < unat k"
  shows "fec_run sp (new_fec_generator k) (concat blocks @ rest) =
    concat (map (\<lambda>b. replicate (unat k - 1) (Inr None) @
                     [Inr (Some (fec_packet_of (unat k) b))]) blocks) @
    replicate (length rest) (Inr None)"
  using fec_run_blocks [OF assms(1,3) fec_refines_new [OF assms(2)] assms(4-6)] .

theorem fec_generator_stream_witness:
  "fec_run octet_spirit (new_fec_generator 2)
     (concat [[(replicate 20 1, 5), (replicate 14 2, 6)]] @ [(replicate 12 9, 7)]) =
   [Inr None, Inr (Some ([3, 3, 0, 5, 3, 3, 3, 3, 0, 10, 0, 10, 192, 0] @
      [3, 3, 3, 3] @ replicate 6 1)), Inr None]"
proof -
  have "fec_packet_of 2 [(replicate 20 1, 5), (replicate 14 2, 6)] =
      [3, 3, 0, 5, 3, 3, 3, 3, 0, 10, 0, 10, 192, 0] @ [3, 3, 3, 3] @ replicate 6 1"
    by code_simp
  then show ?thesis
    by (subst fec_generator_stream [OF octet.spirit_octets_axioms]) simp_all
qed

text \<open>
  The calls that throw, all of them. A media packet shorter than the fixed
  header throws \<open>logic_error\<close> and changes nothing; with more than 48 packets per parity
  packet the call that should emit it throws \<open>out_of_range\<close> from \<open>mask.at\<close>, and by then the
  countdown and the base are reset but the bit string is not, so the stale octets go into
  the next block.
\<close>

theorem generate_next_fec_packet_errors:
  assumes "spirit_octets sp"
  shows "(fst (generate_next_fec_packet sp g m s) = Inl e \<longleftrightarrow>
      length m < 12 \<and> e = Logic_error ''Mediapacket size < 10'' \<or>
      12 \<le> length m \<and> unat (current_fec_k g) \<le> 1 \<and> 48 < unat (fec_k g) \<and> e = Out_of_range) \<and>
    (length m < 12 \<longrightarrow> snd (generate_next_fec_packet sp g m s) = g) \<and>
    (12 \<le> length m \<and> unat (current_fec_k g) \<le> 1 \<and> 48 < unat (fec_k g) \<longrightarrow>
      snd (generate_next_fec_packet sp g m s) =
        g\<lparr>current_fec_k := fec_k g, fec_seq_base := 0,
          fec_bit_string := fec_absorb sp (fec_bit_string g) m\<rparr>)"
proof -
  have one: "1 < current_fec_k g \<longleftrightarrow> \<not> unat (current_fec_k g) \<le> 1"
    by (auto simp: word_less_nat_alt)
  define h where "h = g\<lparr>fec_seq_base :=
      (if fec_seq_base g \<noteq> 0 then min s (fec_seq_base g) else s),
      fec_bit_string := fec_absorb sp (fec_bit_string g) m, current_fec_k := fec_k g\<rparr>"
  have gen: "generate_next_fec_packet sp g m s =
      (let (packet, g) = fec_emit sp h in (rbind packet (\<lambda>octets. Inr (Some octets)), g))"
    if "\<not> length m < 12" "unat (current_fec_k g) \<le> 1"
    using that one by (simp add: generate_next_fec_packet_def Let_def h_def)
  show ?thesis
  proof (cases "12 \<le> length m \<and> unat (current_fec_k g) \<le> 1")
    case False
    then show ?thesis using one by (auto simp: generate_next_fec_packet_def Let_def)
  next
    case True
    show ?thesis
    proof (cases "48 < unat (fec_k g)")
      case False
      then have "set_mask_bits (unat (fec_k h)) 0 (replicate 6 0) = Inr (fec_mask (unat (fec_k h)))"
        using set_mask_bits_ok [of 0 "unat (fec_k h)"] by (simp add: fec_mask_0 h_def)
      then show ?thesis using True False gen by (auto simp: fec_emit_def Let_def)
    next
      case k: True
      then have "fec_emit sp h = (Inl Out_of_range, h\<lparr>fec_seq_base := 0\<rparr>)"
        using spirit_octets.fec_emit_error [OF assms] by (simp add: h_def)
      then show ?thesis using True k gen by (auto simp: h_def)
    qed
  qed
qed

theorem generate_next_fec_packet_errors_witness:
  "fst (generate_next_fec_packet octet_spirit
          (new_fec_generator 50\<lparr>current_fec_k := 1\<rparr>) (replicate 12 0) 9) = Inl Out_of_range"
  using generate_next_fec_packet_errors [OF octet.spirit_octets_axioms,
      of "new_fec_generator 50\<lparr>current_fec_k := 1\<rparr>" "replicate 12 0" 9 Out_of_range]
  by (simp add: new_fec_generator_def)



end
