(* ===== verification/Rtp_Receiver.thy ===== *)
theory Rtp_Receiver
  imports Rtp_Packet Rtp_Sequence Fec_Generator "HOL-Library.Sublist"
begin

section \<open>The receiver: \<open>rtp::unicast_jpeg_rtp_receiver\<close>\<close>

text \<open>
  The handlers of the receiving end system: a datagram is tried as a JPEG packet, then as
  a FEC packet; JPEG packets wait in an incoming buffer of fifty, where a single missing
  packet is recovered twenty packets before the end, and leave it for the frame buffer the
  display timer empties. The handlers run one at a time on a strand. Each is a state
  transformer that also returns the exception it ends with: the event loop catches it and
  goes on with the state it left.
\<close>

type_synonym buffered_jpeg = "custom_jpeg_packet \<times> octets"
type_synonym buffered_fec = "custom_fec_packet \<times> octets"

record jpeg_receiver =
  rx_ssrc :: u32
  jpeg_sequence_utility :: "seq_utility option"
  fec_sequence_utility :: "seq_utility option"
  jpeg_packet_frame_buffer :: "custom_jpeg_packet list"
  jpeg_packet_incoming_buffer :: "buffered_jpeg list"
  fec_packet_incoming_buffer :: "buffered_fec list"
  corrected :: u64
  uncorrectable :: u64
  statistics_handler :: bool

definition buffer_size :: nat where "buffer_size = 50"
definition media_packet_delay :: nat where "media_packet_delay = 20"

lemmas receiver_constants = buffer_size_def media_packet_delay_def

definition new_jpeg_receiver :: "u32 \<Rightarrow> jpeg_receiver" where
  "new_jpeg_receiver own_ssrc =
     \<lparr>rx_ssrc = own_ssrc, jpeg_sequence_utility = None, fec_sequence_utility = None,
      jpeg_packet_frame_buffer = [], jpeg_packet_incoming_buffer = [],
      fec_packet_incoming_buffer = [], corrected = 0, uncorrectable = 0,
      statistics_handler = False\<rparr>"

abbreviation jpeg_seq :: "buffered_jpeg \<Rightarrow> int" where
  "jpeg_seq p \<equiv> uint (sequence_number (jpeg_header (fst p)))"

subsection \<open>\<open>fec_reconstruction\<close>\<close>

text \<open>Feeding the received media packets to a generator whose parity packet is not due yet.\<close>

fun fec_feed :: "spirit \<Rightarrow> fec_generator \<Rightarrow> buffered_jpeg list \<Rightarrow> fec_generator result" where
  "fec_feed sp g [] = Inr g"
| "fec_feed sp g (p # ps) =
     (case generate_next_fec_packet sp g (snd p) (sequence_number (jpeg_header (fst p))) of
        (Inl e, _) \<Rightarrow> Inl e
      | (Inr _, g) \<Rightarrow> fec_feed sp g ps)"

text \<open>
  The header of the lost packet, from the ten recovery octets. The length recovery that
  follows in the code parses four octets out of two, which always fails, and is not used.
\<close>

definition recover_header :: "spirit \<Rightarrow> octets \<Rightarrow> rtp_header" where
  "recover_header sp bit_string =
     (let step_4 = standard_rtp_header;
          octet = bit_string ! 0;
          step_4 = step_4\<lparr>padding_set := drop_bit 5 (octet AND 0x20) \<noteq> 0,
                          extension_bit := drop_bit 4 (octet AND 0x10) \<noteq> 0,
                          csrc := octet AND 0x0F\<rparr>;
          octet = bit_string ! 1;
          step_4 = step_4\<lparr>marker := drop_bit 7 (octet AND 0x80) \<noteq> 0,
                          payload_type_field := octet AND 0x7F\<rparr>;
          (ts, _) = qi_into (qi_big_dword sp) (timestamp step_4) (take 4 (drop 4 bit_string))
      in step_4\<lparr>timestamp := ts\<rparr>)"

text \<open>
  The payload: the level's octets, filled up to the protection length, combined with every
  media packet from octet twelve on. \<open>fill_n\<close> gets an unsigned difference, which is
  huge when the level holds more octets than its protection length says.
\<close>

fun combine_media :: "octets \<Rightarrow> buffered_jpeg list \<Rightarrow> octets result" where
  "combine_media bits [] = Inr bits"
| "combine_media bits (p # ps) =
     (if length (snd p) - 12 > length bits
      then Inl (Undefined_behaviour ''transform past the end of bit_string'')
      else combine_media (xor_range 0 (length (snd p) - 12) bits (drop 12 (snd p))) ps)"

definition recover_payload ::
    "custom_fec_level_header \<times> octets \<Rightarrow> buffered_jpeg list \<Rightarrow> octets result" where
  "recover_payload level media_packets =
     (let protection_len = unat (protection_length_field (fst level));
          payload = snd level
      in if length payload > protection_len then Inl Bad_alloc
         else combine_media (payload @ replicate (protection_len - length payload) 0)
                media_packets)"

definition fec_reconstruction ::
    "spirit \<Rightarrow> buffered_fec \<Rightarrow> buffered_jpeg list \<Rightarrow> buffered_jpeg result" where
  "fec_reconstruction sp fec_packet media_packets =
     (let fec_k = of_nat (length media_packets + 1) :: u16
      in rbind (fec_feed sp (new_fec_generator fec_k) media_packets) (\<lambda>fec_gen.
         rbind (vec_at media_packets 0) (\<lambda>first.
         rbind (fst (generate_next_fec_packet sp fec_gen (replicate 12 0)
                  (sequence_number (jpeg_header (fst first))))) (\<lambda>step_1.
         case step_1 of
           None \<Rightarrow> Inl (Undefined_behaviour ''null step_1'')
         | Some step_1 \<Rightarrow>
             let start = 12 + 4 * unat (csrc (fec_header (fst fec_packet)))
             in if length (snd fec_packet) < start + 10
                then Inl (Undefined_behaviour ''transform past the end of the FEC packet'')
                else
                let step_4 = recover_header sp
                      (map2 (XOR) (take 10 step_1) (drop start (snd fec_packet)))
                in rbind (vec_at (fec_levels (fst fec_packet)) 0) (\<lambda>level.
                   rbind (recover_payload level media_packets) (\<lambda>bit_string.
                   let (_, out) = standard_rtp_header_generate sp step_4;
                       buffer = out @ bit_string;
                       (_, packet, _) = custom_jpeg_parse sp new_jpeg_packet buffer
                   in Inr (packet, buffer)))))))"

subsection \<open>\<open>recover_packet_by_fec\<close>\<close>

text \<open>The predicate of \<open>find_if\<close>, and the search from the newest FEC packet backwards.\<close>

definition fec_covers :: "int \<Rightarrow> buffered_fec \<Rightarrow> bool result" where
  "fec_covers seq_num p =
     (let sn_base = uint (sn_base_field (fec_header (fst p)))
      in if seq_num < sn_base \<or> seq_num > sn_base + 48 then Inr False
         else rbind (vec_at (fec_levels (fst p)) 0) (\<lambda>level.
                Inr (bit (mask_field (fst level)) (63 - nat (seq_num - sn_base)))))"

fun find_fec :: "int \<Rightarrow> buffered_fec list \<Rightarrow> buffered_fec option result" where
  "find_fec seq_num [] = Inr None"
| "find_fec seq_num (p # ps) =
     rbind (fec_covers seq_num p) (\<lambda>found.
       if found then Inr (Some p) else find_fec seq_num ps)"

text \<open>
  The two loops over the mask: bit \<open>u\<close> stands for a packet whose place in the buffer and
  whose number are computed from \<open>u\<close>; a packet with another number ends the recovery.
\<close>

fun collect_media ::
    "buffered_jpeg list \<Rightarrow> u64 \<Rightarrow> (nat \<Rightarrow> int) \<Rightarrow> (nat \<Rightarrow> int) \<Rightarrow> nat list \<Rightarrow>
       buffered_jpeg list option result" where
  "collect_media buf m place number [] = Inr (Some [])"
| "collect_media buf m place number (u # us) =
     (if bit m (63 - u) then
        rbind (deref_at buf (place u)) (\<lambda>p.
          if jpeg_seq p \<noteq> number u then Inr None
          else rbind (collect_media buf m place number us) (\<lambda>rest.
            Inr (map_option (\<lambda>ps. p # ps) rest)))
      else collect_media buf m place number us)"

text \<open>\<open>std::find_end\<close> for the two octets that end a JPEG frame.\<close>

fun find_end_of_frame :: "octets \<Rightarrow> nat option" where
  "find_end_of_frame (a # b # r) =
     (case find_end_of_frame (b # r) of
        Some i \<Rightarrow> Some (Suc i)
      | None \<Rightarrow> if a = 0xFF \<and> b = 0xD9 then Some 0 else None)"
| "find_end_of_frame _ = None"

definition remove_padding :: "buffered_jpeg \<Rightarrow> buffered_jpeg" where
  "remove_padding packet =
     (case find_end_of_frame (jpeg_data (fst packet)) of
        None \<Rightarrow> packet
      | Some i \<Rightarrow>
          let padding_count = length (jpeg_data (fst packet)) - (i + 2)
          in ((fst packet)\<lparr>jpeg_data := take (i + 2) (jpeg_data (fst packet))\<rparr>,
              take (length (snd packet) - padding_count) (snd packet)))"

definition recovered_packet :: "spirit \<Rightarrow> jpeg_receiver \<Rightarrow> buffered_jpeg option result" where
  "recovered_packet sp r =
     (let buf = jpeg_packet_incoming_buffer r;
          delayed = int (length buf) - int media_packet_delay
      in rbind (deref_at buf delayed) (\<lambda>p.
         let seq_num = jpeg_seq p - 1
         in rbind (find_fec seq_num (rev (fec_packet_incoming_buffer r))) (\<lambda>candidate.
         case candidate of
           None \<Rightarrow> Inr None
         | Some fec_packet \<Rightarrow>
             let seq_i = seq_num - uint (sn_base_field (fec_header (fst fec_packet)))
             in rbind (vec_at (fec_levels (fst fec_packet)) 0) (\<lambda>level.
                rbind (collect_media buf (mask_field (fst level))
                         (\<lambda>u. delayed - seq_i + int u) (\<lambda>u. seq_num - seq_i + int u)
                         [0..<nat seq_i]) (\<lambda>before.
                case before of
                  None \<Rightarrow> Inr None
                | Some before \<Rightarrow>
                    rbind (collect_media buf (mask_field (fst level))
                             (\<lambda>u. delayed + (int u - seq_i - 1)) (\<lambda>u. seq_num + (int u - seq_i))
                             [nat seq_i + 1..<64]) (\<lambda>behind.
                    case behind of
                      None \<Rightarrow> Inr None
                    | Some behind \<Rightarrow>
                        rbind (fec_reconstruction sp fec_packet (before @ behind)) (\<lambda>packet.
                          Inr (Some (remove_padding packet)))))))))"

definition recover_packet_by_fec :: "spirit \<Rightarrow> jpeg_receiver \<Rightarrow> bool result \<times> jpeg_receiver" where
  "recover_packet_by_fec sp r =
     (case recovered_packet sp r of
        Inl e \<Rightarrow> (Inl e, r)
      | Inr None \<Rightarrow> (Inr False, r)
      | Inr (Some packet) \<Rightarrow>
          let buf = jpeg_packet_incoming_buffer r;
              place = length buf - media_packet_delay
          in (Inr True,
              r\<lparr>jpeg_packet_incoming_buffer := take place buf @ [packet] @ drop place buf\<rparr>))"

subsection \<open>The message handlers\<close>

text \<open>The reaction to the gap in front of the delayed packet.\<close>

definition account_gap :: "spirit \<Rightarrow> jpeg_receiver \<Rightarrow> int \<Rightarrow> unit result \<times> jpeg_receiver" where
  "account_gap sp r gap =
     (if gap = 2 then
        (case recover_packet_by_fec sp r of
           (Inl e, r) \<Rightarrow> (Inl e, r)
         | (Inr True, r) \<Rightarrow> (Inr (), r\<lparr>corrected := corrected r + 1\<rparr>)
         | (Inr False, r) \<Rightarrow> (Inr (), r\<lparr>uncorrectable := uncorrectable r + 1\<rparr>))
      else if gap > 2 then (Inr (), r\<lparr>uncorrectable := uncorrectable r + 1\<rparr>)
      else (Inr (), r))"

text \<open>What follows when an accepted JPEG packet was put at the end of the buffer.\<close>

definition advance_buffers :: "spirit \<Rightarrow> jpeg_receiver \<Rightarrow> bool result \<times> jpeg_receiver" where
  "advance_buffers sp r =
     (let buf = jpeg_packet_incoming_buffer r
      in if length buf < buffer_size then (Inr True, r)
      else
      let gap = jpeg_seq (buf ! (length buf - media_packet_delay)) -
                jpeg_seq (buf ! (length buf - (media_packet_delay + 1)))
      in case account_gap sp r gap of
           (Inl e, r) \<Rightarrow> (Inl e, r)
         | (Inr _, r) \<Rightarrow>
             (Inr True,
              r\<lparr>jpeg_packet_frame_buffer :=
                  jpeg_packet_frame_buffer r @ [fst (hd (jpeg_packet_incoming_buffer r))],
                jpeg_packet_incoming_buffer := tl (jpeg_packet_incoming_buffer r)\<rparr>))"

definition handle_new_jpeg_packet ::
    "spirit \<Rightarrow> jpeg_receiver \<Rightarrow> octets \<Rightarrow> bool result \<times> jpeg_receiver" where
  "handle_new_jpeg_packet sp r message =
     (let (success, packet, _) = custom_jpeg_parse sp new_jpeg_packet message
      in if \<not> success then (Inr False, r)
      else if ssrc (jpeg_header packet) \<noteq> rx_ssrc r
      then (Inl (Runtime_error ''Got jpeg rtp packet with wrong ssrc, dropping''), r)
      else if length (jpeg_data packet) < 2 then (Inl Out_of_range, r)
      else
      let utility = (case jpeg_sequence_utility r of
                       Some u \<Rightarrow> u
                     | None \<Rightarrow> new_seq_utility (sequence_number (jpeg_header packet)));
          (valid, utility) = update_seq utility (sequence_number (jpeg_header packet));
          r = r\<lparr>jpeg_sequence_utility := Some utility\<rparr>
      in if valid = 0 then (Inr True, r)
         else advance_buffers sp
                (r\<lparr>jpeg_packet_incoming_buffer :=
                     jpeg_packet_incoming_buffer r @ [(packet, message)]\<rparr>))"

text \<open>The FEC parser gets fuel for every octet of the datagram, which is always enough.\<close>

definition handle_new_fec_packet ::
    "spirit \<Rightarrow> jpeg_receiver \<Rightarrow> octets \<Rightarrow> bool result \<times> jpeg_receiver" where
  "handle_new_fec_packet sp r message =
     (case custom_fec_parse sp (Suc (length message)) new_fec_packet message of
        None \<Rightarrow> (Inl (Undefined_behaviour ''the level loop does not end''), r)
      | Some (success, packet, _) \<Rightarrow>
          if \<not> success then (Inr False, r)
          else if payload_type_field (fec_header packet) \<noteq> 100 then (Inr False, r)
          else if ssrc (fec_header packet) \<noteq> rx_ssrc r
          then (Inl (Runtime_error ''Got fec rtp packet with wrong ssrc, dropping''), r)
          else
          let utility = (case fec_sequence_utility r of
                           Some u \<Rightarrow> u
                         | None \<Rightarrow> new_seq_utility (sequence_number (fec_header packet)));
              (valid, utility) = update_seq utility (sequence_number (fec_header packet));
              r = r\<lparr>fec_sequence_utility := Some utility\<rparr>
          in if valid = 0 then (Inr True, r)
          else
          let buf = fec_packet_incoming_buffer r @ [(packet, message)];
              buf = (if length buf > buffer_size then tl buf else buf)
          in (Inr True, r\<lparr>fec_packet_incoming_buffer := buf\<rparr>))"

record statistics =
  received_stat :: u64
  expected_stat :: u64
  corrected_stat :: u64
  uncorrectable_stat :: u64

definition current_statistics :: "jpeg_receiver \<Rightarrow> statistics option result" where
  "current_statistics r =
     (if \<not> statistics_handler r then Inr None
      else case jpeg_sequence_utility r of
        None \<Rightarrow> Inl (Undefined_behaviour ''empty jpeg_sequence_utility_'')
      | Some u \<Rightarrow>
          Inr (Some \<lparr>received_stat = ucast (received_packets u), expected_stat = expected u,
                     corrected_stat = corrected r, uncorrectable_stat = uncorrectable r\<rparr>))"

definition handle_new_incoming_message ::
    "spirit \<Rightarrow> jpeg_receiver \<Rightarrow> octets \<Rightarrow> statistics option result \<times> jpeg_receiver" where
  "handle_new_incoming_message sp r message =
     (case handle_new_jpeg_packet sp r message of
        (Inl e, r) \<Rightarrow> (Inl e, r)
      | (Inr True, r) \<Rightarrow> (current_statistics r, r)
      | (Inr False, r) \<Rightarrow>
          (case handle_new_fec_packet sp r message of
             (Inl e, r) \<Rightarrow> (Inl e, r)
           | (Inr _, r) \<Rightarrow> (current_statistics r, r)))"

text \<open>The display timer: the frame handed to the frame handler, if any.\<close>

definition display_next_frame_timer_handler ::
    "jpeg_receiver \<Rightarrow> bool \<Rightarrow> octets option result \<times> jpeg_receiver" where
  "display_next_frame_timer_handler r error =
     (if error then (Inl (Runtime_error ''timer''), r)
      else case jpeg_packet_frame_buffer r of
        [] \<Rightarrow> (Inr None, r)
      | p # ps \<Rightarrow> (Inr (Some (jpeg_data p)), r\<lparr>jpeg_packet_frame_buffer := ps\<rparr>))"

definition set_statistics_handler :: "jpeg_receiver \<Rightarrow> jpeg_receiver" where
  "set_statistics_handler r = r\<lparr>statistics_handler := True\<rparr>"

subsection \<open>The buffers\<close>

text \<open>All packets a receiver still holds, in the order the display will see them.\<close>

definition pending_packets :: "jpeg_receiver \<Rightarrow> custom_jpeg_packet list" where
  "pending_packets r = jpeg_packet_frame_buffer r @ map fst (jpeg_packet_incoming_buffer r)"

lemma recover_packet_by_fec_cases:
  assumes "recover_packet_by_fec sp r = (res, r')"
  obtains (recovered) xs p ys where "res = Inr True"
      "jpeg_packet_incoming_buffer r = xs @ ys"
      "r' = r\<lparr>jpeg_packet_incoming_buffer := xs @ [p] @ ys\<rparr>"
    | (unchanged) "res \<noteq> Inr True" "r' = r"
proof (cases "recovered_packet sp r")
  case (Inl e)
  then show ?thesis using assms unchanged by (auto simp: recover_packet_by_fec_def)
next
  case (Inr x)
  show ?thesis
  proof (cases x)
    case None
    then show ?thesis using Inr assms unchanged by (auto simp: recover_packet_by_fec_def)
  next
    case (Some p)
    let ?n = "length (jpeg_packet_incoming_buffer r) - media_packet_delay"
    show ?thesis
      using Inr Some assms recovered [of "take ?n (jpeg_packet_incoming_buffer r)"
          "drop ?n (jpeg_packet_incoming_buffer r)" p]
      by (auto simp: recover_packet_by_fec_def Let_def)
  qed
qed

lemma account_gap_cases:
  assumes "account_gap sp r gap = (res, r')"
  obtains (throws) e where "gap = 2" "res = Inl e" "r' = r"
    | (corrected) xs p ys where "gap = 2" "res = Inr ()" "jpeg_packet_incoming_buffer r = xs @ ys"
      "r' = r\<lparr>jpeg_packet_incoming_buffer := xs @ [p] @ ys, corrected := corrected r + 1\<rparr>"
    | (lost) "2 \<le> gap" "res = Inr ()" "r' = r\<lparr>uncorrectable := uncorrectable r + 1\<rparr>"
    | (fine) "gap < 2" "res = Inr ()" "r' = r"
proof (cases "gap = 2")
  case False
  then show ?thesis using assms lost fine by (auto simp: account_gap_def split: if_splits)
next
  case True
  obtain x r1 where x: "recover_packet_by_fec sp r = (x, r1)" by force
  then show ?thesis
  proof (cases rule: recover_packet_by_fec_cases)
    case (recovered xs p ys)
    then show ?thesis using True assms x corrected [of xs ys p] by (simp add: account_gap_def)
  next
    case unchanged
    then show ?thesis
      using True assms x throws lost by (cases x) (auto simp: account_gap_def)
  qed
qed

lemma advance_buffers_cases:
  assumes "advance_buffers sp r = (res, r')"
  obtains (waits) "length (jpeg_packet_incoming_buffer r) < 50" "res = Inr True" "r' = r"
    | (throws) e where "50 \<le> length (jpeg_packet_incoming_buffer r)"
      "jpeg_seq (jpeg_packet_incoming_buffer r !
               (length (jpeg_packet_incoming_buffer r) - 20)) -
             jpeg_seq (jpeg_packet_incoming_buffer r !
               (length (jpeg_packet_incoming_buffer r) - 21)) = 2"
      "res = Inl e" "r' = r"
    | (releases) r1 gap where "50 \<le> length (jpeg_packet_incoming_buffer r)"
      "gap = jpeg_seq (jpeg_packet_incoming_buffer r !
               (length (jpeg_packet_incoming_buffer r) - 20)) -
             jpeg_seq (jpeg_packet_incoming_buffer r !
               (length (jpeg_packet_incoming_buffer r) - 21))"
      "account_gap sp r gap = (Inr (), r1)" "res = Inr True"
      "r' = r1\<lparr>jpeg_packet_frame_buffer :=
                jpeg_packet_frame_buffer r1 @ [fst (hd (jpeg_packet_incoming_buffer r1))],
              jpeg_packet_incoming_buffer := tl (jpeg_packet_incoming_buffer r1)\<rparr>"
proof (cases "length (jpeg_packet_incoming_buffer r) < 50")
  case True
  then have "advance_buffers sp r = (Inr True, r)"
    by (simp add: advance_buffers_def receiver_constants Let_def)
  then show ?thesis using True assms waits by simp
next
  case False
  define gap where "gap = jpeg_seq (jpeg_packet_incoming_buffer r !
      (length (jpeg_packet_incoming_buffer r) - 20)) -
    jpeg_seq (jpeg_packet_incoming_buffer r ! (length (jpeg_packet_incoming_buffer r) - 21))"
  obtain x r1 where x: "account_gap sp r gap = (x, r1)" by force
  have adv: "advance_buffers sp r = (case account_gap sp r gap of (Inl e, r) \<Rightarrow> (Inl e, r)
    | (Inr _, r) \<Rightarrow> (Inr True,
         r\<lparr>jpeg_packet_frame_buffer :=
             jpeg_packet_frame_buffer r @ [fst (hd (jpeg_packet_incoming_buffer r))],
           jpeg_packet_incoming_buffer := tl (jpeg_packet_incoming_buffer r)\<rparr>))"
    using False by (simp add: advance_buffers_def receiver_constants Let_def gap_def)
  show ?thesis
  proof (cases x)
    case (Inl e)
    then have "r1 = r \<and> gap = 2" using x by (cases rule: account_gap_cases [OF x]) auto
    moreover have "res = Inl e \<and> r' = r1" using Inl adv assms x by simp
    ultimately show ?thesis using False throws by (simp add: gap_def)
  next
    case (Inr u)
    then show ?thesis using adv assms False x releases [OF _ gap_def, of r1] by simp
  qed
qed

lemma advance_buffers_pending:
  assumes "advance_buffers sp r = (res, r')" and "jpeg_packet_incoming_buffer r \<noteq> []"
  shows "subseq (pending_packets r) (pending_packets r')"
  using assms(1)
proof (cases rule: advance_buffers_cases)
  case (releases r1 gap)
  from releases(3) show ?thesis
  proof (cases rule: account_gap_cases)
    case (corrected xs p ys)
    then have "pending_packets r' =
        jpeg_packet_frame_buffer r @ map fst xs @ [fst p] @ map fst ys"
      using releases(5) by (cases xs) (simp_all add: pending_packets_def)
    moreover have "pending_packets r = jpeg_packet_frame_buffer r @ map fst xs @ map fst ys"
      using corrected by (simp add: pending_packets_def)
    ultimately show ?thesis
      by (auto simp: subseq_append' intro: list_emb_Cons)
  qed (use assms(2) releases(5) in
      \<open>auto simp: pending_packets_def neq_Nil_conv split: list.splits\<close>)
qed simp_all

lemma advance_buffers_frame:
  assumes "advance_buffers sp r = (res, r')"
  shows "fec_packet_incoming_buffer r' = fec_packet_incoming_buffer r" "rx_ssrc r' = rx_ssrc r"
    and "jpeg_sequence_utility r' = jpeg_sequence_utility r"
    and "fec_sequence_utility r' = fec_sequence_utility r"
    and "statistics_handler r' = statistics_handler r"
  using assms
  by (cases rule: advance_buffers_cases; auto elim: account_gap_cases)+

lemma advance_buffers_length:
  assumes "advance_buffers sp r = (res, r')"
  shows "length (jpeg_packet_incoming_buffer r') \<le> max 49 (length (jpeg_packet_incoming_buffer r) -
    (if isl res \<or> corrected r' \<noteq> corrected r then 0 else 1))"
  using assms
proof (cases rule: advance_buffers_cases)
  case (releases r1 gap)
  from releases(3) show ?thesis
    by (cases rule: account_gap_cases) (use releases in auto)
qed auto

subsection \<open>Runs\<close>

text \<open>The JPEG packet of a datagram that the receiver takes into its buffer.\<close>

definition accepted_packet :: "spirit \<Rightarrow> jpeg_receiver \<Rightarrow> octets \<Rightarrow> custom_jpeg_packet option" where
  "accepted_packet sp r message =
     (let (success, packet, _) = custom_jpeg_parse sp new_jpeg_packet message;
          utility = (case jpeg_sequence_utility r of
                       Some u \<Rightarrow> u
                     | None \<Rightarrow> new_seq_utility (sequence_number (jpeg_header packet)))
      in if success \<and> ssrc (jpeg_header packet) = rx_ssrc r \<and> 2 \<le> length (jpeg_data packet) \<and>
            fst (update_seq utility (sequence_number (jpeg_header packet))) \<noteq> 0
         then Some packet else None)"

text \<open>
  Every history of a receiver: the accepted packets in order of arrival, the frames handed to
  the frame handler, and how many handlers ended with an exception.
\<close>

inductive rx_reach ::
    "spirit \<Rightarrow> u32 \<Rightarrow> custom_jpeg_packet list \<Rightarrow> octets list \<Rightarrow> nat \<Rightarrow> jpeg_receiver \<Rightarrow> bool"
  for sp own_ssrc where
  start: "rx_reach sp own_ssrc [] [] 0 (new_jpeg_receiver own_ssrc)"
| datagram: "rx_reach sp own_ssrc acc shown n r \<Longrightarrow>
    handle_new_incoming_message sp r message = (res, r') \<Longrightarrow>
    rx_reach sp own_ssrc (acc @ (case accepted_packet sp r message of None \<Rightarrow> [] | Some p \<Rightarrow> [p]))
      shown (n + (if isl res then 1 else 0)) r'"
| display: "rx_reach sp own_ssrc acc shown n r \<Longrightarrow>
    display_next_frame_timer_handler r False = (Inr frame, r') \<Longrightarrow>
    rx_reach sp own_ssrc acc (shown @ (case frame of None \<Rightarrow> [] | Some d \<Rightarrow> [d])) n r'"
| observe: "rx_reach sp own_ssrc acc shown n r \<Longrightarrow>
    rx_reach sp own_ssrc acc shown n (set_statistics_handler r)"

inductive_cases rx_reach_datagramE: "rx_reach sp own_ssrc (acc @ [p]) shown n r"

text \<open>The JPEG handler, by what it does to the packet.\<close>

lemma handle_new_jpeg_packet_cases:
  assumes "handle_new_jpeg_packet sp r message = (res, r')"
  obtains (rejected) "accepted_packet sp r message = None"
      "r' = r \<or> (\<exists>u. r' = r\<lparr>jpeg_sequence_utility := Some u\<rparr>)"
    | (accepted) packet utility where "accepted_packet sp r message = Some packet"
      "advance_buffers sp (r\<lparr>jpeg_sequence_utility := Some utility,
         jpeg_packet_incoming_buffer :=
           jpeg_packet_incoming_buffer r @ [(packet, message)]\<rparr>) = (res, r')"
      "\<exists>rest. custom_jpeg_parse sp new_jpeg_packet message = (True, packet, rest)"
proof -
  obtain success packet rest where parse:
    "custom_jpeg_parse sp new_jpeg_packet message = (success, packet, rest)"
    by (metis prod.exhaust)
  define u where "u = (case jpeg_sequence_utility r of Some u \<Rightarrow> u
    | None \<Rightarrow> new_seq_utility (sequence_number (jpeg_header packet)))"
  obtain valid u' where upd: "update_seq u (sequence_number (jpeg_header packet)) = (valid, u')"
    by force
  note defs = handle_new_jpeg_packet_def accepted_packet_def parse Let_def u_def [symmetric] upd
  let ?checks = "success \<and> ssrc (jpeg_header packet) = rx_ssrc r \<and> 2 \<le> length (jpeg_data packet)"
  show ?thesis
  proof (cases "?checks \<and> valid \<noteq> 0")
    case True
    then show ?thesis using assms parse accepted [of packet u'] by (simp add: defs)
  next
    case False
    then have "accepted_packet sp r message = None"
      by (auto simp: defs)
    moreover have "r' = r \<or> r' = r\<lparr>jpeg_sequence_utility := Some u'\<rparr>"
      using False assms by (auto simp: defs split: if_splits)
    ultimately show ?thesis using rejected by auto
  qed
qed

lemma handle_new_fec_packet_frame:
  assumes "handle_new_fec_packet sp r message = (res, r')"
  shows "pending_packets r' = pending_packets r" "rx_ssrc r' = rx_ssrc r"
    and "jpeg_packet_incoming_buffer r' = jpeg_packet_incoming_buffer r"
    and "corrected r' = corrected r" "jpeg_sequence_utility r' = jpeg_sequence_utility r"
    and "length (fec_packet_incoming_buffer r') \<le> max 50 (length (fec_packet_incoming_buffer r))"
  using assms
  by (auto simp: handle_new_fec_packet_def Let_def pending_packets_def receiver_constants
      split: option.splits prod.splits if_splits)

text \<open>What one datagram does to the buffers.\<close>

definition accepted_list :: "spirit \<Rightarrow> jpeg_receiver \<Rightarrow> octets \<Rightarrow> custom_jpeg_packet list" where
  "accepted_list sp r message =
     (case accepted_packet sp r message of None \<Rightarrow> [] | Some p \<Rightarrow> [p])"

definition buffers_step :: "custom_jpeg_packet list \<Rightarrow> bool \<Rightarrow> jpeg_receiver \<Rightarrow> jpeg_receiver \<Rightarrow> bool" where
  "buffers_step acc thrown r r' \<longleftrightarrow>
     subseq (pending_packets r @ acc) (pending_packets r') \<and>
     length (fec_packet_incoming_buffer r') \<le> max 50 (length (fec_packet_incoming_buffer r)) \<and>
     length (jpeg_packet_incoming_buffer r') \<le>
       max 49 (length (jpeg_packet_incoming_buffer r) +
         (if thrown \<or> corrected r' \<noteq> corrected r then 1 else 0)) \<and>
     (corrected r' = corrected r \<or> corrected r' = corrected r + 1) \<and>
     rx_ssrc r' = rx_ssrc r"

lemma advance_buffers_corrected:
  assumes "advance_buffers sp r = (res, r')"
  shows "corrected r' = corrected r \<or> corrected r' = corrected r + 1"
  using assms
proof (cases rule: advance_buffers_cases)
  case (releases r1 gap)
  from releases(3) show ?thesis
    by (cases rule: account_gap_cases) (use releases in auto)
qed auto

lemma jpeg_packet_step:
  assumes "handle_new_jpeg_packet sp r message = (res, r')"
  shows "buffers_step (accepted_list sp r message) (isl res) r r'"
  using assms
proof (cases rule: handle_new_jpeg_packet_cases)
  case rejected
  then show ?thesis
    by (auto simp: buffers_step_def accepted_list_def pending_packets_def)
next
  case (accepted packet utility)
  let ?r = "r\<lparr>jpeg_sequence_utility := Some utility,
    jpeg_packet_incoming_buffer := jpeg_packet_incoming_buffer r @ [(packet, message)]\<rparr>"
  have "pending_packets ?r = pending_packets r @ [packet]"
    by (simp add: pending_packets_def)
  moreover have "subseq (pending_packets ?r) (pending_packets r')"
    using advance_buffers_pending [OF accepted(2)] by simp
  ultimately show ?thesis
    using advance_buffers_frame(1,2) [OF accepted(2)] advance_buffers_length [OF accepted(2)]
      advance_buffers_corrected [OF accepted(2)] accepted(1)
    by (auto simp: buffers_step_def accepted_list_def split: if_splits)
qed

lemma buffers_step_weaken:
  "buffers_step acc thrown r r1 \<Longrightarrow> pending_packets r' = pending_packets r1 \<Longrightarrow>
   rx_ssrc r' = rx_ssrc r1 \<Longrightarrow> corrected r' = corrected r1 \<Longrightarrow>
   jpeg_packet_incoming_buffer r' = jpeg_packet_incoming_buffer r1 \<Longrightarrow>
   length (fec_packet_incoming_buffer r') \<le> max 50 (length (fec_packet_incoming_buffer r1)) \<Longrightarrow>
   thrown \<longrightarrow> thrown' \<Longrightarrow> buffers_step acc thrown' r r'"
  by (auto simp: buffers_step_def split: if_splits)

lemma message_step:
  assumes "handle_new_incoming_message sp r message = (res, r')"
  shows "buffers_step (accepted_list sp r message) (isl res) r r'"
proof -
  obtain x r1 where x: "handle_new_jpeg_packet sp r message = (x, r1)" by force
  note step = jpeg_packet_step [OF x]
  show ?thesis
  proof (cases "x = Inr False")
    case False
    then have "r' = r1 \<and> (isl x \<longrightarrow> isl res)"
      using assms x by (cases x) (auto simp: handle_new_incoming_message_def split: if_splits)
    then show ?thesis using buffers_step_weaken [OF step] by simp
  next
    case True
    obtain y r2 where y: "handle_new_fec_packet sp r1 message = (y, r2)" by force
    have "r' = r2"
      using assms x y True by (cases y) (auto simp: handle_new_incoming_message_def)
    then show ?thesis
      using buffers_step_weaken [OF step] handle_new_fec_packet_frame [OF y] True by simp
  qed
qed

subsection \<open>The invariant of all runs\<close>

definition rx_inv ::
    "u32 \<Rightarrow> custom_jpeg_packet list \<Rightarrow> octets list \<Rightarrow> nat \<Rightarrow> jpeg_receiver \<Rightarrow> bool" where
  "rx_inv own_ssrc acc shown n r \<longleftrightarrow>
     subseq (map jpeg_data acc) (shown @ map jpeg_data (pending_packets r)) \<and>
     length (fec_packet_incoming_buffer r) \<le> 50 \<and>
     (\<exists>c. unat (corrected r) = c mod 2 ^ 64 \<and>
          length (jpeg_packet_incoming_buffer r) \<le> 49 + n + c) \<and>
     rx_ssrc r = own_ssrc"

lemma rx_inv_start [preserved]: "rx_inv s [] [] 0 (new_jpeg_receiver s)"
  by (auto simp: rx_inv_def new_jpeg_receiver_def intro: exI [of _ 0])

lemma rx_inv_observe [preserved]:
  "rx_inv s acc shown n r \<Longrightarrow> rx_inv s acc shown n (set_statistics_handler r)"
  by (simp add: rx_inv_def set_statistics_handler_def pending_packets_def)

lemma rx_inv_display [preserved]:
  assumes "rx_inv s acc shown n r"
    and "display_next_frame_timer_handler r False = (Inr frame, r')"
  shows "rx_inv s acc (shown @ (case frame of None \<Rightarrow> [] | Some d \<Rightarrow> [d])) n r'"
  using assms
  by (auto simp: rx_inv_def display_next_frame_timer_handler_def pending_packets_def
      split: list.splits)

lemma rx_inv_datagram [preserved]:
  assumes inv: "rx_inv s acc shown n r" and "handle_new_incoming_message sp r message = (res, r')"
  shows "rx_inv s (acc @ accepted_list sp r message) shown (n + (if isl res then 1 else 0)) r'"
proof -
  have step: "buffers_step (accepted_list sp r message) (isl res) r r'"
    by (rule message_step [OF assms(2)])
  have "subseq (map jpeg_data acc @ map jpeg_data (accepted_list sp r message))
    (shown @ map jpeg_data (pending_packets r @ accepted_list sp r message))"
    using inv list_emb_append_mono [of "(=)" "map jpeg_data acc" _
        "map jpeg_data (accepted_list sp r message)"]
    by (fastforce simp: rx_inv_def)
  also have "subseq \<dots> (shown @ map jpeg_data (pending_packets r'))"
    using step subseq_map [of "pending_packets r @ accepted_list sp r message" "pending_packets r'"
        jpeg_data]
    by (simp add: buffers_step_def subseq_append')
  finally have seq: "subseq (map jpeg_data (acc @ accepted_list sp r message))
    (shown @ map jpeg_data (pending_packets r'))" by simp
  obtain c where c: "unat (corrected r) = c mod 2 ^ 64"
    "length (jpeg_packet_incoming_buffer r) \<le> 49 + n + c"
    using inv by (auto simp: rx_inv_def)
  have "\<exists>c. unat (corrected r') = c mod 2 ^ 64 \<and>
    length (jpeg_packet_incoming_buffer r') \<le> 49 + (n + (if isl res then 1 else 0)) + c"
  proof (cases "corrected r' = corrected r")
    case True
    then show ?thesis
      using c step by (intro exI [of _ c]) (auto simp: buffers_step_def split: if_splits)
  next
    case False
    then have "unat (corrected r') = Suc c mod 2 ^ 64"
      using step c(1) by (auto simp: buffers_step_def unat_word_ariths mod_Suc_eq)
    then show ?thesis
      using c step by (intro exI [of _ "Suc c"]) (auto simp: buffers_step_def split: if_splits)
  qed
  with seq step inv show ?thesis
    by (auto simp: rx_inv_def buffers_step_def)
qed

lemma rx_reach_inv: "rx_reach sp s acc shown n r \<Longrightarrow> rx_inv s acc shown n r"
proof (induction rule: rx_reach.induct)
  case (datagram acc shown n r message res r')
  then show ?case using rx_inv_datagram unfolding accepted_list_def by blast
qed (simp_all add: preserved)

subsection \<open>What \<open>fec_reconstruction\<close> computes\<close>

abbreviation media_of :: "buffered_jpeg \<Rightarrow> octets \<times> u16" where
  "media_of p \<equiv> (snd p, sequence_number (jpeg_header (fst p)))"

text \<open>The media packets without their fixed headers, combined.\<close>

definition parity_of_tails :: "octets list \<Rightarrow> octets" where
  "parity_of_tails ms = fec.parity (map (drop 12) ms)"

lemma combine_media_ok:
  "\<forall>p\<in>set ps. length (snd p) - 12 \<le> length bits \<Longrightarrow>
   \<exists>out. combine_media bits ps = Inr out \<and> length out = length bits \<and>
     (\<forall>i. octet_at out i = octet_at bits i XOR octet_at (parity_of_tails (map snd ps)) i)"
proof (induction ps arbitrary: bits)
  case Nil
  then show ?case by (simp add: parity_of_tails_def)
next
  case (Cons p ps)
  let ?b = "xor_range 0 (length (snd p) - 12) bits (drop 12 (snd p))"
  have len: "length ?b = length bits"
    using Cons.prems by (simp add: length_xor_range)
  moreover have "octet_at ?b i = octet_at bits i XOR octet_at (drop 12 (snd p)) i" for i
    using Cons.prems by (auto simp: octet_at_xor_range octet_at_beyond)
  ultimately show ?case
    using Cons.IH [of ?b] Cons.prems by (auto simp: parity_of_tails_def xor.assoc)
qed

lemma combine_media_error:
  "\<exists>p\<in>set ps. length bits < length (snd p) - 12 \<Longrightarrow>
   combine_media bits ps = Inl (Undefined_behaviour ''transform past the end of bit_string'')"
proof (induction ps arbitrary: bits)
  case (Cons p ps)
  show ?case
  proof (cases "length bits < length (snd p) - 12")
    case False
    then have "length (xor_range 0 (length (snd p) - 12) bits (drop 12 (snd p))) = length bits"
      by (simp add: length_xor_range)
    then show ?thesis using Cons False by auto
  qed simp
qed simp

context spirit_octets
begin

lemma fec_feed_ok:
  "fec_refines k pre g \<Longrightarrow> \<forall>p\<in>set ps. 12 \<le> length (snd p) \<Longrightarrow> length pre + length ps < k \<Longrightarrow>
   \<exists>g'. fec_feed sp g ps = Inr g' \<and> fec_refines k (pre @ map media_of ps) g'"
proof (induction ps arbitrary: pre g)
  case Nil
  then show ?case by simp
next
  case (Cons p ps)
  then obtain g1 where "generate_next_fec_packet sp g (snd p) (sequence_number (jpeg_header (fst p)))
      = (Inr None, g1)" "fec_refines k (pre @ [media_of p]) g1"
    using generate_pending [of k pre g "snd p"] by fastforce
  with Cons.IH [of "pre @ [media_of p]" g1] Cons.prems show ?case by simp
qed

text \<open>The parity packet of the received packets and twelve zeros stands for \<open>step_1\<close>.\<close>

lemma fec_reconstruction_unfold:
  assumes ms: "\<forall>p\<in>set ms. 12 \<le> length (snd p)" "length ms < 65535"
    and raw: "12 + 4 * unat (csrc (fec_header (fst f))) + 10 \<le> length (snd f)"
    and level: "fec_levels (fst f) = level # levels"
  shows "fec_reconstruction sp f ms =
    (if ms = [] \<or> 48 \<le> length ms then Inl Out_of_range
     else rbind (recover_payload level ms) (\<lambda>bits.
       let hdr = recover_header sp (map2 (XOR)
             (take 10 (fec_packet_of (Suc (length ms))
               (map media_of ms @ [(replicate 12 0, snd (media_of (hd ms)))])))
             (drop (12 + 4 * unat (csrc (fec_header (fst f)))) (snd f)));
           buffer = snd (standard_rtp_header_generate sp hdr) @ bits
       in Inr (fst (snd (custom_jpeg_parse sp new_jpeg_packet buffer)), buffer)))"
proof -
  define k where "k = Suc (length ms)"
  let ?k = "of_nat (length ms + 1) :: u16"
  have k: "unat ?k = k"
    using ms(2) unat_of_nat_16 [of "length ms + 1"] by (simp add: k_def)
  have "fec_refines k [] (new_fec_generator ?k)"
    using fec_refines_new [of ?k] k by (simp add: word_less_nat_alt k_def)
  then obtain g where g: "fec_feed sp (new_fec_generator ?k) ms = Inr g"
    "fec_refines k (map media_of ms) g"
    using fec_feed_ok [of k "[]" _ ms] ms(1) by (auto simp: k_def)
  show ?thesis
  proof (cases ms)
    case Nil
    then show ?thesis using g(1) by (simp add: fec_reconstruction_def Let_def)
  next
    case (Cons first rest)
    note due = generate_due [OF g(2), of "replicate 12 0" "snd (media_of first)"]
    have "\<not> Suc (length (map media_of ms)) < k"
      by (simp add: k_def)
    with due have step_1: "fst (generate_next_fec_packet sp g (replicate 12 0)
        (snd (media_of first))) =
      (if k \<le> 48 then Inr (Some (fec_packet_of k
          (map media_of ms @ [(replicate 12 0, snd (media_of first))])))
       else Inl Out_of_range)"
      by simp
    have "vec_at ms 0 = Inr first"
      by (simp add: Cons)
    then show ?thesis
      using g(1) step_1 raw level Cons
      by (simp add: fec_reconstruction_def Let_def k_def [symmetric] split_def)
        (simp add: k_def)
  qed
qed

end

text \<open>Every error of the payload's recovery, and what it computes otherwise.\<close>

lemma recover_payload_cases:
  defines "plen level \<equiv> unat (protection_length_field (fst level))"
  shows "plen level < length (snd level) \<Longrightarrow> recover_payload level ms = Inl Bad_alloc"
    and "length (snd level) \<le> plen level \<Longrightarrow> \<exists>p\<in>set ms. plen level < length (snd p) - 12 \<Longrightarrow>
      recover_payload level ms =
        Inl (Undefined_behaviour ''transform past the end of bit_string'')"
    and "length (snd level) \<le> plen level \<Longrightarrow> \<forall>p\<in>set ms. length (snd p) - 12 \<le> plen level \<Longrightarrow>
      \<exists>bits. recover_payload level ms = Inr bits \<and> length bits = plen level \<and>
        (\<forall>i. octet_at bits i =
           octet_at (snd level) i XOR octet_at (parity_of_tails (map snd ms)) i)"
proof -
  let ?bits = "snd level @ replicate (plen level - length (snd level)) 0"
  assume "length (snd level) \<le> plen level"
  then have len: "length ?bits = plen level" and rec: "recover_payload level ms = combine_media ?bits ms"
    by (simp_all add: recover_payload_def plen_def Let_def)
  have at: "octet_at ?bits i = octet_at (snd level) i" for i
    by (auto simp: octet_at_append octet_at_beyond) (simp add: octet_at_def)
  show "\<exists>p\<in>set ms. plen level < length (snd p) - 12 \<Longrightarrow> recover_payload level ms =
      Inl (Undefined_behaviour ''transform past the end of bit_string'')"
    using combine_media_error [of ms ?bits] len rec by simp
  show "\<forall>p\<in>set ms. length (snd p) - 12 \<le> plen level \<Longrightarrow>
      \<exists>bits. recover_payload level ms = Inr bits \<and> length bits = plen level \<and>
        (\<forall>i. octet_at bits i =
           octet_at (snd level) i XOR octet_at (parity_of_tails (map snd ms)) i)"
    using combine_media_ok [of ms ?bits] len rec at by simp
qed (simp add: recover_payload_def plen_def)

text \<open>The header fields that the parity protects come back exactly.\<close>

lemma octet_at_fec_packet:
  assumes "10 \<le> length (fec_parity (map fst ms))"
  shows "octet_at (fec_packet_of k ms) 0 =
      (octet_at (fec_parity (map fst ms)) 0 AND 0x3F) OR (if 16 < k then 0x40 else 0)"
    and "octet_at (fec_packet_of k ms) 1 = octet_at (fec_parity (map fst ms)) 1"
    and "4 \<le> i \<Longrightarrow> i < 10 \<Longrightarrow>
      octet_at (fec_packet_of k ms) i = octet_at (fec_parity (map fst ms)) i"
    and "10 \<le> length (fec_packet_of k ms)"
proof -
  let ?bits = "fec_parity (map fst ms)"
  have front: "fec_packet_of k ms = [(?bits ! 0 AND 0x3F) OR (if 16 < k then 0x40 else 0), ?bits ! 1] @
      split16 (fec_base (map snd ms)) @ take 6 (drop 4 ?bits) @
      (split16 (of_nat (length ?bits - 12)) @
      (if 16 < k then fec_mask k else take 2 (fec_mask k)) @ drop 12 ?bits)"
    by (simp add: fec_packet_of_def Let_def)
  show "octet_at (fec_packet_of k ms) 0 =
      (octet_at ?bits 0 AND 0x3F) OR (if 16 < k then 0x40 else 0)"
    "octet_at (fec_packet_of k ms) 1 = octet_at ?bits 1"
    "10 \<le> length (fec_packet_of k ms)"
    using assms by (auto simp: front octet_at_append octet_at_def nth_append)
  show "octet_at (fec_packet_of k ms) i = octet_at ?bits i" if "4 \<le> i" "i < 10"
  proof -
    obtain j where "i = Suc (Suc (Suc (Suc j)))" "j < 6"
      using \<open>4 \<le> i\<close> \<open>i < 10\<close> by (intro that [of "i - 4"]) simp_all
    moreover have e: "4 + j = Suc (Suc (Suc (Suc j)))" by simp
    ultimately show ?thesis
      using assms by (simp add: front octet_at_append octet_at_take octet_at_drop) (simp only: e)
  qed
qed

context spirit_octets
begin

lemma recover_header_eq:
  assumes "10 \<le> length hb"
  shows "recover_header sp hb = standard_rtp_header\<lparr>padding_set := bit (hb ! 0) 5,
    extension_bit := bit (hb ! 0) 4, csrc := hb ! 0 AND 0x0F, marker := bit (hb ! 1) 7,
    payload_type_field := hb ! 1 AND 0x7F,
    timestamp := join32 (hb ! 4) (hb ! 5) (hb ! 6) (hb ! 7)\<rparr>"
proof -
  have "\<not> length hb < 8" using assms by simp
  then obtain b0 b1 b2 b3 b4 b5 b6 b7 r where
    hb: "hb = b0 # b1 # b2 # b3 # b4 # b5 # b6 # b7 # r"
    by (rule length_ge_8E)
  show ?thesis
    by (simp add: hb recover_header_def Let_def into_dword_Cons flag_test)
qed

text \<open>A header and eight or more octets of payload parse as a JPEG packet.\<close>

lemma parse_header_and_payload:
  assumes "wf_rtp_header hdr" "payload_type_field hdr = 26" "header_extension hdr = []"
  shows "custom_jpeg_parse sp new_jpeg_packet (snd (standard_rtp_header_generate sp hdr) @
      f0 # f1 # f2 # f3 # f4 # f5 # f6 # f7 # d) =
    (True, \<lparr>jpeg_header = rtp_header.extend hdr
       (custom_jpeg_payload_header.fields f0 (join32 0 f1 f2 f3) f4 f5 f6 f7), jpeg_data = d\<rparr>, [])"
proof -
  let ?p = "\<lparr>jpeg_header = rtp_header.extend hdr
      (custom_jpeg_payload_header.fields f0 (join32 0 f1 f2 f3) f4 f5 f6 f7), jpeg_data = d\<rparr>"
  note defs = rtp_header.defs custom_jpeg_payload_header.defs
  have fo: "(join32 0 f1 f2 f3) < 2 ^ 24"
    using unat_join32_small [of f1 f2 f3] by (simp add: word_less_nat_alt)
  obtain out where out: "standard_rtp_header_generate sp hdr = (True, out)"
    using generate_rtp_header [of hdr] assms(1) by (simp add: wf_rtp_header_def)
  have "standard_rtp_header_generate sp (jpeg_header ?p) = standard_rtp_header_generate sp hdr"
    by (simp add: standard_rtp_header_generate_def header_octet_0_def header_octet_1_def defs
        cong: if_cong)
  then have "custom_jpeg_generate sp ?p = (True, out @ f0 # f1 # f2 # f3 # f4 # f5 # f6 # f7 # d)"
    by (simp add: custom_jpeg_generate_def Let_def out karma_simps split32_list)
      (simp add: defs)
  moreover have "wf_rtp_header (jpeg_header ?p)"
    using assms(1) by (simp add: wf_rtp_header_def defs)
  ultimately show ?thesis
    using jpeg_parse_generated [of ?p] assms(2,3) fo by (simp add: out defs)
qed

end

lemma nth_map2_XOR:
  "i < length xs \<Longrightarrow> i < length ys \<Longrightarrow>
   map2 (XOR) xs ys ! i = octet_at xs i XOR octet_at (ys :: octets) i"
  by (simp add: octet_at_def)

lemma masked_XOR:
  fixes a b l :: u8
  assumes "l = 0 \<or> l = 0x40"
  shows "((a AND 0x3F) OR l) XOR (((b XOR a) AND 0x3F) OR l) = b AND 0x3F"
  using assms by (intro u8_eqI) (auto simp: u8_bit_simps bit_xor_iff)

text \<open>The ten recovery octets, combined by the receiver, are those of the lost packet.\<close>

lemma recovered_header_octets:
  fixes k :: nat and s' :: u16
  assumes long: "\<forall>(p, s)\<in>set (xs @ (m, s) # ys). 12 \<le> length p"
  defines "step_1 \<equiv> fec_packet_of k (xs @ ys @ [(replicate 12 0, s')])"
    and "raw \<equiv> fec_packet_of k (xs @ (m, s) # ys)"
  shows "length (map2 (XOR) (take 10 step_1) raw) = 10"
    and "map2 (XOR) (take 10 step_1) raw ! 0 = m ! 0 AND 0x3F"
    and "map2 (XOR) (take 10 step_1) raw ! 1 = m ! 1"
    and "4 \<le> i \<Longrightarrow> i < 8 \<Longrightarrow> map2 (XOR) (take 10 step_1) raw ! i = m ! i"
proof -
  let ?o = "fec_parity (map fst xs @ map fst ys)"
  have m: "12 \<le> length m" using long by auto
  have par: "octet_at (fec_parity (map fst xs @ m # map fst ys)) j = octet_at m j XOR octet_at ?o j"
    if "j < 8" for j
    using that m by (simp add: octet_at_parity_middle octet_at_fec_block)
  have par1: "octet_at (fec_parity (map fst xs @ map fst ys @ [replicate 12 0])) j = octet_at ?o j"
    if "j < 8" for j
    using that fec_parity_snoc [of "map fst xs @ map fst ys" "replicate 12 0"]
    by (simp add: octet_at_fec_block) (simp add: octet_at_def)
  have len: "10 \<le> length (fec_parity (map fst (xs @ (m, s) # ys)))"
    using length_fec_parity [of m "map fst (xs @ (m, s) # ys)"] m by auto
  have len1: "10 \<le> length (fec_parity (map fst (xs @ ys @ [(replicate 12 0, s')])))"
    using length_fec_parity [of "replicate 12 0" "map fst (xs @ ys @ [(replicate 12 0, s')])"]
    by auto
  note p = octet_at_fec_packet [OF len, where k = k, folded raw_def]
  note q = octet_at_fec_packet [OF len1, where k = k, folded step_1_def]
  have at: "map2 (XOR) (take 10 step_1) raw ! j = octet_at step_1 j XOR octet_at raw j"
    if "j < 10" for j
    using that p(4) q(4) by (subst nth_map2_XOR) (auto simp: octet_at_take)
  have m_at: "octet_at m j = m ! j" if "j < 8" for j
    using that m by (simp add: octet_at_def)
  show "length (map2 (XOR) (take 10 step_1) raw) = 10"
    using p(4) q(4) by simp
  show "map2 (XOR) (take 10 step_1) raw ! 0 = m ! 0 AND 0x3F"
    using masked_XOR [of 0 "octet_at ?o 0" "m ! 0"] masked_XOR [of 64 "octet_at ?o 0" "m ! 0"]
    by (simp add: at p(1) q(1) par par1 m_at del: octet_at_simps)
  show "map2 (XOR) (take 10 step_1) raw ! 1 = m ! 1"
    by (simp add: at p(2) q(2) par par1 m_at del: octet_at_simps One_nat_def)
      (simp add: xor.commute xor.left_commute)
  show "map2 (XOR) (take 10 step_1) raw ! i = m ! i" if "4 \<le> i" "i < 8"
    using that by (simp add: at p(3) q(3) par par1 m_at del: octet_at_simps)
      (simp add: xor.commute xor.left_commute)
qed

subsection \<open>Properties\<close>

text \<open>
  C21 (safety): no accepted frame is lost, duplicated out of order or overtaken inside the
  receiver. In every history, exceptions in between included, the frames of the accepted
  packets form, in order of arrival, a subsequence of the frames displayed so far followed
  by those of the frame buffer and of the incoming buffer.
\<close>

theorem receiver_keeps_order:
  assumes "rx_reach sp own_ssrc acc shown n r"
  shows "subseq (map jpeg_data acc)
    (shown @ map jpeg_data (jpeg_packet_frame_buffer r) @
     map (jpeg_data \<circ> fst) (jpeg_packet_incoming_buffer r))"
  using rx_reach_inv [OF assms] by (simp add: rx_inv_def pending_packets_def)

text \<open>Two frames in sequence, of which the second makes the source valid.\<close>

definition second_jpeg_datagram :: octets where
  "second_jpeg_datagram = sample_jpeg_datagram[3 := 0x3F]"

definition receiver_after_two :: jpeg_receiver where
  "receiver_after_two =
     snd (handle_new_incoming_message octet_spirit
       (snd (handle_new_incoming_message octet_spirit (new_jpeg_receiver 7) sample_jpeg_datagram))
       second_jpeg_datagram)"

lemma two_datagrams:
  "accepted_packet octet_spirit (new_jpeg_receiver 7) sample_jpeg_datagram = None"
  "map_option jpeg_data (accepted_packet octet_spirit
     (snd (handle_new_incoming_message octet_spirit (new_jpeg_receiver 7) sample_jpeg_datagram))
     second_jpeg_datagram) = Some [0xFF, 0xD8, 0xFF, 0xD9]"
  by code_simp+

lemma reach_after_two:
  "\<exists>p n. rx_reach octet_spirit 7 [p] [] n receiver_after_two \<and>
     jpeg_data p = [0xFF, 0xD8, 0xFF, 0xD9]"
proof -
  let ?r1 = "snd (handle_new_incoming_message octet_spirit (new_jpeg_receiver 7) sample_jpeg_datagram)"
  obtain p where p: "accepted_packet octet_spirit ?r1 second_jpeg_datagram = Some p"
    "jpeg_data p = [0xFF, 0xD8, 0xFF, 0xD9]"
    using two_datagrams(2) by auto
  obtain n where "rx_reach octet_spirit 7 [] [] n ?r1"
    using rx_reach.datagram [OF rx_reach.start surjective_pairing, of octet_spirit 7
        sample_jpeg_datagram] two_datagrams(1) by auto
  from rx_reach.datagram [OF this surjective_pairing, of second_jpeg_datagram] p
  show ?thesis by (auto simp: receiver_after_two_def)
qed

theorem receiver_keeps_order_witness:
  "subseq [[0xFF, 0xD8, 0xFF, 0xD9]]
    (map jpeg_data (jpeg_packet_frame_buffer receiver_after_two) @
     map (jpeg_data \<circ> fst) (jpeg_packet_incoming_buffer receiver_after_two))"
proof -
  obtain p n where "rx_reach octet_spirit 7 [p] [] n receiver_after_two"
    and "jpeg_data p = [0xFF, 0xD8, 0xFF, 0xD9]"
    using reach_after_two by blast
  then show ?thesis using receiver_keeps_order [of octet_spirit 7 "[p]" "[]"] by simp
qed

text \<open>
  The buffers. The FEC buffer never exceeds 50 packets; the incoming buffer
  holds at most 49 packets plus one for every packet recovered and for every handler that
  threw, since a recovery inserts a packet and only one leaves.
\<close>

theorem receiver_buffer_bounds:
  assumes "rx_reach sp own_ssrc acc shown n r"
  shows "length (fec_packet_incoming_buffer r) \<le> 50 \<and>
    (\<exists>c. unat (corrected r) = c mod 2 ^ 64 \<and>
         length (jpeg_packet_incoming_buffer r) \<le> 49 + n + c) \<and>
    rx_ssrc r = own_ssrc"
  using rx_reach_inv [OF assms] by (simp add: rx_inv_def)

theorem receiver_buffer_bounds_witness:
  "length (fec_packet_incoming_buffer receiver_after_two) \<le> 50 \<and> rx_ssrc receiver_after_two = 7"
  using reach_after_two receiver_buffer_bounds [of octet_spirit 7] by blast

text \<open>
  Loss accounting. When an accepted packet finds the buffer full, the gap in
  front of the delayed packet decides: below two nothing is counted; above two one packet is
  counted as uncorrectable, however many are missing; at two exactly one of the counters
  moves, unless the recovery throws, and then nothing changes.
\<close>

theorem receiver_loss_accounting:
  assumes "advance_buffers sp r = (res, r')" and "50 \<le> length (jpeg_packet_incoming_buffer r)"
    and "gap = jpeg_seq (jpeg_packet_incoming_buffer r !
                 (length (jpeg_packet_incoming_buffer r) - 20)) -
               jpeg_seq (jpeg_packet_incoming_buffer r !
                 (length (jpeg_packet_incoming_buffer r) - 21))"
  shows "(gap < 2 \<longrightarrow> res = Inr True \<and> corrected r' = corrected r \<and>
            uncorrectable r' = uncorrectable r) \<and>
    (2 < gap \<longrightarrow> res = Inr True \<and> corrected r' = corrected r \<and>
            uncorrectable r' = uncorrectable r + 1) \<and>
    (gap = 2 \<longrightarrow> isl res \<and> r' = r \<or>
       res = Inr True \<and> corrected r' = corrected r + 1 \<and> uncorrectable r' = uncorrectable r \<or>
       res = Inr True \<and> corrected r' = corrected r \<and> uncorrectable r' = uncorrectable r + 1)"
  using assms(1)
proof (cases rule: advance_buffers_cases)
  case waits
  then show ?thesis using assms(2) by simp
next
  case (throws e)
  then show ?thesis using assms(3) by simp
next
  case (releases r1 gap')
  then have "gap' = gap" using assms(3) by simp
  with releases(3) show ?thesis
    by (cases rule: account_gap_cases) (use releases in auto)
qed

text \<open>A receiver whose full buffer has a hole in front of the delayed packet.\<close>

definition numbered_packet :: "nat \<Rightarrow> buffered_jpeg" where
  "numbered_packet i =
     (new_jpeg_packet\<lparr>jpeg_header := (jpeg_header new_jpeg_packet)\<lparr>sequence_number := of_nat i\<rparr>\<rparr>,
      replicate 20 0)"

definition receiver_with_hole :: jpeg_receiver where
  "receiver_with_hole = (new_jpeg_receiver 7)\<lparr>jpeg_packet_incoming_buffer :=
     map numbered_packet ([0..<30] @ [31..<51])\<rparr>"

theorem receiver_loss_accounting_witness:
  "uncorrectable (snd (advance_buffers octet_spirit receiver_with_hole)) = 1"
proof -
  obtain res r' where adv: "advance_buffers octet_spirit receiver_with_hole = (res, r')"
    by fastforce
  have gap: "jpeg_seq (jpeg_packet_incoming_buffer receiver_with_hole !
        (length (jpeg_packet_incoming_buffer receiver_with_hole) - 20)) -
      jpeg_seq (jpeg_packet_incoming_buffer receiver_with_hole !
        (length (jpeg_packet_incoming_buffer receiver_with_hole) - 21)) = 2"
    "50 \<le> length (jpeg_packet_incoming_buffer receiver_with_hole)"
    by (simp_all add: receiver_with_hole_def numbered_packet_def nth_append)
  have "recovered_packet octet_spirit receiver_with_hole = Inr None"
    by (simp add: recovered_packet_def receiver_with_hole_def new_jpeg_receiver_def deref_at_def
        media_packet_delay_def)
  then have "advance_buffers octet_spirit receiver_with_hole \<noteq> (Inl e, r)" for e r
    using gap by (simp add: advance_buffers_def receiver_constants Let_def account_gap_def
        recover_packet_by_fec_def)
  moreover have "corrected r' = corrected receiver_with_hole"
    using adv gap \<open>recovered_packet octet_spirit receiver_with_hole = Inr None\<close>
    by (auto simp: advance_buffers_def receiver_constants Let_def account_gap_def
        recover_packet_by_fec_def)
  ultimately show ?thesis
    using receiver_loss_accounting [OF adv gap(2) gap(1) [symmetric]] adv
    by (auto simp: receiver_with_hole_def new_jpeg_receiver_def isl_def)
qed

text \<open>
  How a reconstruction from stored packets can fail, completely. It throws
  \<open>out_of_range\<close> for no media packet or for 48 and more, exhausts the memory when the level
  holds more octets than its protection length, and writes past its buffer when a media packet
  is longer than the protected length; the null pointer of an undue parity packet and a
  read past the FEC packet cannot happen.
\<close>

theorem fec_reconstruction_errors:
  assumes "spirit_octets sp" and "\<forall>p\<in>set ms. 12 \<le> length (snd p)" and "length ms < 65535"
    and "12 + 4 * unat (csrc (fec_header (fst f))) + 10 \<le> length (snd f)"
    and "fec_levels (fst f) = level # levels"
  shows "fec_reconstruction sp f ms = Inl e \<longleftrightarrow>
    (if ms = [] \<or> 48 \<le> length ms then e = Out_of_range
     else if unat (protection_length_field (fst level)) < length (snd level) then e = Bad_alloc
     else (\<exists>p\<in>set ms. unat (protection_length_field (fst level)) < length (snd p) - 12) \<and>
          e = Undefined_behaviour ''transform past the end of bit_string'')"
proof -
  note rec = spirit_octets.fec_reconstruction_unfold [OF assms]
  note payload = recover_payload_cases [of level, where ms = ms]
  consider (none) "ms = [] \<or> 48 \<le> length ms"
    | (long) "ms \<noteq> []" "length ms < 48"
        "unat (protection_length_field (fst level)) < length (snd level)"
    | (past) "ms \<noteq> []" "length ms < 48"
        "length (snd level) \<le> unat (protection_length_field (fst level))"
        "\<exists>p\<in>set ms. unat (protection_length_field (fst level)) < length (snd p) - 12"
    | (fine) "ms \<noteq> []" "length ms < 48"
        "length (snd level) \<le> unat (protection_length_field (fst level))"
        "\<forall>p\<in>set ms. length (snd p) - 12 \<le> unat (protection_length_field (fst level))"
    by (meson not_le_imp_less)
  then show ?thesis
  proof cases
    case none
    then show ?thesis by (auto simp: rec)
  next
    case long
    then show ?thesis using payload(1) by (auto simp: rec)
  next
    case past
    then have "recover_payload level ms =
        Inl (Undefined_behaviour ''transform past the end of bit_string'')"
      by (intro payload(2))
    then show ?thesis using past by (simp add: rec) auto
  next
    case fine
    then obtain bits where "recover_payload level ms = Inr bits"
      using payload(3) by blast
    then show ?thesis using fine by (auto simp: rec Let_def not_less)
  qed
qed

definition sample_fec_packet :: buffered_fec where
  "sample_fec_packet =
     (new_fec_packet\<lparr>fec_levels :=
        [(\<lparr>protection_length_field = 2, mask_field = 0xC000000000000000\<rparr>, [1, 2, 3])]\<rparr>,
      replicate 40 0)"

theorem fec_reconstruction_errors_witness:
  "fec_reconstruction octet_spirit sample_fec_packet [numbered_packet 4] = Inl Bad_alloc"
  using fec_reconstruction_errors [OF octet.spirit_octets_axioms, of "[numbered_packet 4]"
      sample_fec_packet "hd (fec_levels (fst sample_fec_packet))" "[]" Bad_alloc]
  by (simp add: sample_fec_packet_def numbered_packet_def new_fec_packet_def
      standard_rtp_header_def rtp_header.defs)

text \<open>
  C37 (functional): what a receiver makes of one lost packet of a block whose parity packet and
  other media packets it holds. The marker, the payload type and the timestamp of the
  result are those of the lost packet, the sequence number and the SSRC are zero, but the
  frame is not: octet \<open>i\<close> of the result is octet \<open>18 + i\<close> of the lost datagram, not \<open>20 + i\<close>,
  mixed with the other packets shifted against each other, because the parity protects the
  media packets from octet ten and the receiver combines them from octet twelve.
\<close>

theorem fec_reconstruction_result:
  fixes xs ys :: "buffered_jpeg list" and m :: octets and s :: u16
  defines "others \<equiv> xs @ ys" and "block \<equiv> map media_of xs @ (m, s) # map media_of ys"
    and "k \<equiv> Suc (length (xs @ ys))"
  assumes "spirit_octets sp" and "\<forall>p\<in>set others. 12 \<le> length (snd p)" and "others \<noteq> []"
    and "length others < 48" and "20 \<le> length m"
    and "m ! 0 AND 0x3F = 0" and "m ! 1 AND 0x7F = 26"
    and "length h12 = 12" and "csrc (fec_header fp) = 0"
    and "fec_levels fp = [(lv, drop (fec_front_length k) (fec_packet_of k block))]"
    and "unat (protection_length_field lv) = length (fec_parity (map fst block)) - 12"
  shows "\<exists>p buffer. fec_reconstruction sp (fp, h12 @ fec_packet_of k block) others =
      Inr (p, buffer) \<and>
    payload_type_field (jpeg_header p) = 26 \<and> marker (jpeg_header p) = bit (m ! 1) 7 \<and>
    timestamp (jpeg_header p) = join32 (m ! 4) (m ! 5) (m ! 6) (m ! 7) \<and>
    sequence_number (jpeg_header p) = 0 \<and> ssrc (jpeg_header p) = 0 \<and>
    (\<forall>i. octet_at (jpeg_data p) i = octet_at m (18 + i) XOR
       octet_at (fec_parity (map snd others)) (20 + i) XOR
       octet_at (parity_of_tails (map snd others)) (8 + i))"
proof -
  let ?F = "fec_packet_of k block" and ?par = "fec_parity (map fst block)"
  let ?lv = "(lv, drop (fec_front_length k) ?F)"
  have fst_block: "map fst block = map snd xs @ m # map snd ys"
    by (simp add: block_def)
  have long: "\<forall>(p, s)\<in>set (map media_of xs @ (m, s) # map media_of ys). 12 \<le> length p"
    using assms(5,8) by (auto simp: others_def)
  have par_long: "length m' + 2 \<le> length ?par" if "m' = m \<or> m' \<in> snd ` set others" for m'
  proof -
    have "12 \<le> length m'" using that assms(5,8) by auto
    then show ?thesis
      using that unfolding fst_block by (intro length_fec_parity) (auto simp: others_def)
  qed
  have par_m: "22 \<le> length ?par"
    using par_long [of m] assms(8) by simp
  note F = fec_packet_payload [of block, where k = k]
  define octs where "octs = map2 (XOR)
    (take 10 (fec_packet_of k (map media_of others @ [(replicate 12 0, snd (media_of (hd others)))])))
    ?F"
  define hdr where "hdr = recover_header sp octs"
  note recovered = recovered_header_octets [OF long, where k = k and s' = "snd (media_of (hd others))",
    folded block_def]
  have octs: "length octs = 10" "octs ! 0 = 0" "octs ! 1 = m ! 1"
    "4 \<le> i \<Longrightarrow> i < 8 \<Longrightarrow> octs ! i = m ! i" for i
    using recovered(1-3) recovered(4) [of i] assms(9)
    unfolding octs_def others_def map_append append_assoc by simp_all
  have hdr: "hdr = standard_rtp_header\<lparr>marker := bit (m ! 1) 7, payload_type_field := 26,
      timestamp := join32 (m ! 4) (m ! 5) (m ! 6) (m ! 7)\<rparr>"
    using octs(4) [of 4] octs(4) [of 5] octs(4) [of 6] octs(4) [of 7] assms(10)
    by (simp add: hdr_def spirit_octets.recover_header_eq [OF assms(4)] octs(1-3)
        standard_rtp_header_def del: One_nat_def)
  then have wf: "wf_rtp_header hdr" "payload_type_field hdr = 26" "header_extension hdr = []"
    by (simp_all add: wf_rtp_header_def standard_rtp_header_def)
  have payload: "drop (fec_front_length k) ?F = drop 12 ?par"
    using F(1) par_m by simp
  have "length (snd ?lv) \<le> unat (protection_length_field (fst ?lv))"
    using assms(14) by (simp add: payload)
  moreover have "\<forall>p\<in>set others. length (snd p) - 12 \<le> unat (protection_length_field (fst ?lv))"
  proof
    fix p assume "p \<in> set others"
    then show "length (snd p) - 12 \<le> unat (protection_length_field (fst ?lv))"
      using par_long [of "snd p"] assms(14) by simp
  qed
  ultimately obtain bits where bits: "recover_payload ?lv others = Inr bits"
    "length bits = length ?par - 12"
    "\<And>i. octet_at bits i = octet_at (drop 12 ?par) i XOR
       octet_at (parity_of_tails (map snd others)) i"
    using recover_payload_cases(3) [of ?lv others] assms(14) by (auto simp: payload)
  then have "\<not> length bits < 8"
    using par_m by simp
  then obtain f0 f1 f2 f3 f4 f5 f6 f7 d where
    split: "bits = f0 # f1 # f2 # f3 # f4 # f5 # f6 # f7 # d"
    by (rule length_ge_8E)
  let ?p = "\<lparr>jpeg_header = rtp_header.extend hdr
      (custom_jpeg_payload_header.fields f0 (join32 0 f1 f2 f3) f4 f5 f6 f7), jpeg_data = d\<rparr>"
  let ?buffer = "snd (standard_rtp_header_generate sp hdr) @ bits"
  have parse: "custom_jpeg_parse sp new_jpeg_packet ?buffer = (True, ?p, [])"
    unfolding split by (rule spirit_octets.parse_header_and_payload [OF assms(4) wf])
  have "fec_reconstruction sp (fp, h12 @ ?F) others = Inr (?p, ?buffer)"
    using spirit_octets.fec_reconstruction_unfold [OF assms(4) assms(5), of "(fp, h12 @ ?F)" ?lv "[]"]
      assms(6,7,11-13) F(2) par_m hdr_def octs_def bits(1) parse
    by (simp add: Let_def fec_front_length_def k_def others_def)
  moreover have "octet_at d i = octet_at m (18 + i) XOR
       octet_at (fec_parity (map snd others)) (20 + i) XOR
       octet_at (parity_of_tails (map snd others)) (8 + i)" for i
  proof -
    have "octet_at d i = octet_at bits (8 + i)"
      by (simp add: split eval_nat_numeral)
    also have "\<dots> = octet_at ?par (20 + i) XOR octet_at (parity_of_tails (map snd others)) (8 + i)"
      by (simp add: bits(3) octet_at_drop)
    also have "octet_at ?par (20 + i) = octet_at m (18 + i) XOR
        octet_at (fec_parity (map snd others)) (20 + i)"
      using assms(8) by (simp add: fst_block octet_at_parity_middle octet_at_fec_block others_def)
    finally show ?thesis by (simp add: xor.assoc)
  qed
  ultimately show ?thesis
    by (intro exI [of _ ?p] exI [of _ ?buffer])
      (simp add: hdr standard_rtp_header_def rtp_header.defs)
qed

text \<open>A lost frame that differs from the other frame of its block in its first octet only.\<close>

definition lost_jpeg_datagram :: octets where
  "lost_jpeg_datagram = sample_jpeg_datagram[20 := 0]"

theorem fec_reconstruction_result_witness:
  "\<exists>fp h12 p buffer.
     fec_reconstruction octet_spirit (fp, h12 @ fec_packet_of 2
       [(sample_jpeg_datagram, 0), (lost_jpeg_datagram, 63)])
       [(new_jpeg_packet, sample_jpeg_datagram)] = Inr (p, buffer) \<and>
     octet_at (jpeg_data p) 0 = 0xFF \<and> lost_jpeg_datagram ! 20 = 0"
proof -
  let ?o = "(new_jpeg_packet, sample_jpeg_datagram)"
  let ?block = "[(sample_jpeg_datagram, 0), (lost_jpeg_datagram, 63)]"
  let ?fp = "new_fec_packet\<lparr>fec_levels := [(\<lparr>protection_length_field = 14, mask_field = 0\<rparr>,
      drop (fec_front_length 2) (fec_packet_of 2 ?block))]\<rparr>"
  have m: "map media_of [?o] @ (lost_jpeg_datagram, 63) # map media_of [] = ?block"
    by (simp add: new_jpeg_packet_def standard_rtp_header_def rtp_header.defs)
  have k: "Suc (length ([?o] @ ([] :: buffered_jpeg list))) = 2"
    by simp
  have first: "lost_jpeg_datagram ! 0 AND 0x3F = 0" "lost_jpeg_datagram ! 1 AND 0x7F = 26"
    by (simp_all add: lost_jpeg_datagram_def sample_jpeg_datagram_def)
  have csrc0: "csrc (fec_header ?fp) = 0"
    by (simp add: new_fec_packet_def standard_rtp_header_def rtp_header.defs)
  have len: "length sample_jpeg_datagram = 24" "length lost_jpeg_datagram = 24"
    by (simp_all add: sample_jpeg_datagram_def lost_jpeg_datagram_def)
  have at: "octet_at lost_jpeg_datagram 18 = 48"
    "octet_at (fec_parity [sample_jpeg_datagram]) 20 = 48"
    "octet_at (parity_of_tails [sample_jpeg_datagram]) 8 = 0xFF"
    by (simp_all add: octet_at_fec_block len parity_of_tails_def octet_at_drop)
      (simp_all add: octet_at_def lost_jpeg_datagram_def sample_jpeg_datagram_def)
  have "\<exists>p buffer. fec_reconstruction octet_spirit (?fp, replicate 12 0 @ fec_packet_of 2 ?block)
      ([?o] @ []) = Inr (p, buffer) \<and>
    (\<forall>i. octet_at (jpeg_data p) i = octet_at lost_jpeg_datagram (18 + i) XOR
       octet_at (fec_parity (map snd ([?o] @ []))) (20 + i) XOR
       octet_at (parity_of_tails (map snd ([?o] @ []))) (8 + i))"
    using fec_reconstruction_result [OF octet.spirit_octets_axioms, of "[?o]" "[]"
        lost_jpeg_datagram "replicate 12 0" ?fp "\<lparr>protection_length_field = 14, mask_field = 0\<rparr>" 63,
        unfolded m k] first csrc0
    by (simp add: len length_fec_block) blast
  then show ?thesis
    using at by (fastforce simp: lost_jpeg_datagram_def sample_jpeg_datagram_def)
qed

text \<open>
  The statistics handler may only be called once a JPEG packet has come. While none
  has, a datagram that is no JPEG packet, a FEC packet included, makes the message handler
  dereference an empty \<open>optional\<close>; after one, that never happens again.
\<close>

theorem statistics_need_a_jpeg_packet:
  assumes "handle_new_jpeg_packet sp r message = (Inr False, r)"
    and "handle_new_fec_packet sp r message = (Inr b, r')" and "statistics_handler r"
  shows "(fst (handle_new_incoming_message sp r message) =
      Inl (Undefined_behaviour ''empty jpeg_sequence_utility_'')) \<longleftrightarrow>
    jpeg_sequence_utility r = None"
proof -
  have "statistics_handler r' = statistics_handler r"
    using assms(2) by (auto simp: handle_new_fec_packet_def Let_def
        split: option.splits prod.splits if_splits)
  then show ?thesis
    using assms handle_new_fec_packet_frame(5) [OF assms(2)]
    by (simp add: handle_new_incoming_message_def current_statistics_def split: option.split)
qed

theorem statistics_need_a_jpeg_packet_witness:
  "fst (handle_new_incoming_message octet_spirit (set_statistics_handler (new_jpeg_receiver 7)) []) =
     Inl (Undefined_behaviour ''empty jpeg_sequence_utility_'')"
proof -
  let ?r = "set_statistics_handler (new_jpeg_receiver 7)"
  have "handle_new_jpeg_packet octet_spirit ?r [] = (Inr False, ?r)"
    "handle_new_fec_packet octet_spirit ?r [] = (Inr False, ?r)"
    by (simp_all add: handle_new_jpeg_packet_def handle_new_fec_packet_def custom_jpeg_parse_def
        custom_fec_parse_def parse_rtp_header_def)
  from statistics_need_a_jpeg_packet [OF this] show ?thesis
    by (simp add: set_statistics_handler_def new_jpeg_receiver_def)
qed

end
