(* ===== verification/Rtp_Sender.thy ===== *)
theory Rtp_Sender
  imports Rtp_Packet Fec_Generator
begin

section \<open>The sender: \<open>rtp::unicast_jpeg_rtp_sender\<close>\<close>

text \<open>
  The sending end system: a timer handler that reads one frame from the source, sends it as a
  JPEG packet, feeds the FEC generator and re-arms the timer, and the calls \<open>start\<close> and
  \<open>stop\<close> that other threads make. The first part models the handler; the second part the
  life cycle, whose steps interleave calls, closures dispatched to the strand, and completions
  of the timer.
\<close>

subsection \<open>The frame source\<close>

text \<open>
  The parser for the five octets of a frame length (\<open>qi::uint_parser<uint_fast32_t, 10>\<close>) is
  Boost's and a parameter. The source is a stream: \<open>read\<close> takes as many octets as are
  there, the constructor of \<open>istream_iterator\<close> reads the first one (\<open>skipws\<close> is
  off), and \<open>copy_n\<close> increments the iterator between the octets it copies.
\<close>

type_synonym uint_parser = "octets \<Rightarrow> (u32 \<times> octets) option"

datatype frame_read =
    No_length
  | Bad_length octets
  | Source_end octets
  | Frame octets octets
  | Truncated octets

definition read_frame :: "uint_parser \<Rightarrow> octets \<Rightarrow> frame_read" where
  "read_frame uint_parse source =
     (let frame_length = take 5 source;
          source = drop 5 source
      in if length frame_length \<noteq> 5 then No_length
      else case uint_parse frame_length of
        None \<Rightarrow> Bad_length source
      | Some (frame_size, _) \<Rightarrow>
          (if source = [] then Source_end source
           else if frame_size = 0 then Frame [] (tl source)
           else if length source < unat frame_size then Truncated []
           else Frame (take (unat frame_size) source) (drop (unat frame_size) source)))"

subsection \<open>\<open>send_next_packet_handler\<close>\<close>

record jpeg_sender =
  tx_ssrc :: u32
  jpeg_source :: octets
  channel_failure_distribution :: bool
  tx_fec_generator :: "fec_generator option"
  current_sequence_number :: u16
  current_fec_sequence_number :: u16
  running :: bool

text \<open>The two constructors; the random starting numbers are arguments.\<close>

definition new_jpeg_sender :: "u32 \<Rightarrow> octets \<Rightarrow> u16 \<Rightarrow> u16 \<Rightarrow> jpeg_sender" where
  "new_jpeg_sender own_ssrc source seq fec_seq =
     \<lparr>tx_ssrc = own_ssrc, jpeg_source = source, channel_failure_distribution = False,
      tx_fec_generator = None, current_sequence_number = seq,
      current_fec_sequence_number = fec_seq, running = False\<rparr>"

definition new_jpeg_fec_sender :: "u32 \<Rightarrow> octets \<Rightarrow> u16 \<Rightarrow> u16 \<Rightarrow> u16 \<Rightarrow> jpeg_sender" where
  "new_jpeg_fec_sender own_ssrc source seq fec_seq k =
     (new_jpeg_sender own_ssrc source seq fec_seq)
       \<lparr>channel_failure_distribution := True, tx_fec_generator := Some (new_fec_generator k)\<rparr>"

text \<open>The packet for a frame. The product for the timestamp is an \<open>int\<close> and does not wrap.\<close>

definition jpeg_packet_for :: "jpeg_sender \<Rightarrow> octets \<Rightarrow> custom_jpeg_packet" where
  "jpeg_packet_for s frame =
     \<lparr>jpeg_header = (jpeg_header new_jpeg_packet)
        \<lparr>payload_type_field := 26, ssrc := tx_ssrc s, marker := True,
         sequence_number := current_sequence_number s,
         timestamp := word_of_int (uint (current_sequence_number s) * 40 * 90),
         image_width := 384 div 8, image_height := 288 div 8\<rparr>,
      jpeg_data = frame\<rparr>"

text \<open>
  What the handler does after sending the media packet: \<open>draw\<close> is what the simulated
  channel answers, true for a loss. The FEC sequence number only advances for packets sent.
\<close>

definition send_fec_packet ::
    "spirit \<Rightarrow> jpeg_sender \<Rightarrow> custom_jpeg_packet \<Rightarrow> octets \<Rightarrow> bool \<Rightarrow> octets list result \<times> jpeg_sender"
where
  "send_fec_packet sp s packet buffer draw =
     (case tx_fec_generator s of
        None \<Rightarrow> (Inr [], s)
      | Some g \<Rightarrow>
          (case generate_next_fec_packet sp g buffer (current_sequence_number s) of
             (Inl e, g) \<Rightarrow> (Inl e, s\<lparr>tx_fec_generator := Some g\<rparr>)
           | (Inr None, g) \<Rightarrow> (Inr [], s\<lparr>tx_fec_generator := Some g\<rparr>)
           | (Inr (Some fec_packet), g) \<Rightarrow>
               (let s = s\<lparr>tx_fec_generator := Some g\<rparr>
                in if channel_failure_distribution s \<and> draw then (Inr [], s)
                else
                let hdr = standard_rtp_header\<lparr>
                      sequence_number := current_fec_sequence_number s, ssrc := tx_ssrc s,
                      payload_type_field := 100, timestamp := timestamp (jpeg_header packet)\<rparr>;
                    s = s\<lparr>current_fec_sequence_number := current_fec_sequence_number s + 1\<rparr>
                in (Inr [snd (standard_rtp_header_generate sp hdr) @ fec_packet], s))))"

text \<open>
  The whole handler: the datagrams handed to the socket, whether the timer is armed again, or
  the exception, and the new state. \<open>draws\<close> are the channel's answers for the media and
  the FEC packet.
\<close>

definition send_next_packet_handler ::
    "spirit \<Rightarrow> uint_parser \<Rightarrow> bool \<times> bool \<Rightarrow> bool \<Rightarrow> jpeg_sender \<Rightarrow>
       (octets list \<times> bool) result \<times> jpeg_sender" where
  "send_next_packet_handler sp uint_parse draws error s =
     (if error then (Inr ([], False), s\<lparr>running := False\<rparr>)
      else case read_frame uint_parse (jpeg_source s) of
        No_length \<Rightarrow> (Inr ([], False), s\<lparr>jpeg_source := [], running := False\<rparr>)
      | Bad_length rest \<Rightarrow>
          (Inl (Runtime_error ''Could not parse jpeg frame length''),
           s\<lparr>jpeg_source := rest, running := False\<rparr>)
      | Source_end rest \<Rightarrow> (Inr ([], False), s\<lparr>jpeg_source := rest, running := False\<rparr>)
      | Truncated rest \<Rightarrow>
          (Inl (Undefined_behaviour ''end-of-stream iterator dereferenced''),
           s\<lparr>jpeg_source := rest\<rparr>)
      | Frame frame rest \<Rightarrow>
          (let s = s\<lparr>jpeg_source := rest\<rparr>;
               packet = jpeg_packet_for s frame;
               (_, buffer) = custom_jpeg_generate sp packet;
               sent = (if channel_failure_distribution s \<and> fst draws then [] else [buffer])
           in case send_fec_packet sp s packet buffer (snd draws) of
                (Inl e, s) \<Rightarrow> (Inl e, s)
              | (Inr fec, s) \<Rightarrow>
                  (Inr (sent @ fec, True),
                   s\<lparr>current_sequence_number := current_sequence_number s + 1\<rparr>)))"

text \<open>The completion handlers of the two sends, which differ in their message.\<close>

definition send_completed :: "string \<Rightarrow> string option \<Rightarrow> nat \<Rightarrow> nat \<Rightarrow> unit result" where
  "send_completed incomplete error bytes_transferred buffer_length =
     (case error of
        Some message \<Rightarrow> Inl (Runtime_error message)
      | None \<Rightarrow>
          if bytes_transferred \<noteq> buffer_length then Inl (Runtime_error incomplete) else Inr ())"

subsection \<open>The life cycle\<close>

text \<open>
  The sender as a system: closures dispatched to the strand and not yet run, waits on the timer,
  and completions of waits that are queued for the event loop (true for a cancelled one).
  Setting the expiry cancels the waits there are. Calls of \<open>start\<close> and \<open>stop\<close> are atomic
  steps, as the sessions that own a sender make them one at a time.
\<close>

datatype strand_task = Arm | Cancel

record sender_sys =
  the_sender :: jpeg_sender
  strand_tasks :: "strand_task list"
  timer_waits :: nat
  completed_waits :: "bool list"

definition new_sender_sys :: "jpeg_sender \<Rightarrow> sender_sys" where
  "new_sender_sys s =
     \<lparr>the_sender = s, strand_tasks = [], timer_waits = 0, completed_waits = []\<rparr>"

definition sender_start :: "sender_sys \<Rightarrow> sender_sys" where
  "sender_start y =
     (if running (the_sender y) then y
      else y\<lparr>the_sender := (the_sender y)\<lparr>running := True\<rparr>,
             strand_tasks := strand_tasks y @ [Arm]\<rparr>)"

definition sender_stop :: "sender_sys \<Rightarrow> sender_sys" where
  "sender_stop y =
     (if \<not> running (the_sender y) then y else y\<lparr>strand_tasks := strand_tasks y @ [Cancel]\<rparr>)"

definition cancel_waits :: "sender_sys \<Rightarrow> sender_sys" where
  "cancel_waits y =
     y\<lparr>completed_waits := completed_waits y @ replicate (timer_waits y) True, timer_waits := 0\<rparr>"

definition arm_timer :: "sender_sys \<Rightarrow> sender_sys" where
  "arm_timer y = (let y = cancel_waits y in y\<lparr>timer_waits := timer_waits y + 1\<rparr>)"

datatype sender_event =
    Start
  | Stop
  | Run_task
  | Expire
  | Run_handler "bool \<times> bool"

text \<open>One step: the datagrams sent or the exception, and the new state, if the event can happen.\<close>

definition sender_step ::
    "spirit \<Rightarrow> uint_parser \<Rightarrow> sender_event \<Rightarrow> sender_sys \<Rightarrow>
       (octets list result \<times> sender_sys) option" where
  "sender_step sp uint_parse event y =
     (case event of
        Start \<Rightarrow> Some (Inr [], sender_start y)
      | Stop \<Rightarrow> Some (Inr [], sender_stop y)
      | Run_task \<Rightarrow>
          (case strand_tasks y of
             [] \<Rightarrow> None
           | Arm # ts \<Rightarrow> Some (Inr [], arm_timer (y\<lparr>strand_tasks := ts\<rparr>))
           | Cancel # ts \<Rightarrow> Some (Inr [], cancel_waits (y\<lparr>strand_tasks := ts\<rparr>)))
      | Expire \<Rightarrow>
          (if timer_waits y = 0 then None
           else Some (Inr [], y\<lparr>completed_waits := completed_waits y @ replicate (timer_waits y) False,
                                 timer_waits := 0\<rparr>))
      | Run_handler draws \<Rightarrow>
          (case completed_waits y of
             [] \<Rightarrow> None
           | error # ds \<Rightarrow>
               (let y = y\<lparr>completed_waits := ds\<rparr>
                in case send_next_packet_handler sp uint_parse draws error (the_sender y) of
                     (Inl e, s) \<Rightarrow> Some (Inl e, y\<lparr>the_sender := s\<rparr>)
                   | (Inr (sent, rearm), s) \<Rightarrow>
                       let y = y\<lparr>the_sender := s\<rparr>
                       in Some (Inr sent, if rearm then arm_timer y else y))))"

text \<open>The histories of a sender, with what it sent and the exceptions of its handler.\<close>

inductive sender_reach ::
    "spirit \<Rightarrow> uint_parser \<Rightarrow> jpeg_sender \<Rightarrow> octets list \<Rightarrow> exn list \<Rightarrow> sender_sys \<Rightarrow> bool"
  for sp uint_parse s0 where
  created: "\<not> running s0 \<Longrightarrow> sender_reach sp uint_parse s0 [] [] (new_sender_sys s0)"
| step: "sender_reach sp uint_parse s0 sent exns y \<Longrightarrow>
    sender_step sp uint_parse event y = Some (Inr out, y') \<Longrightarrow>
    sender_reach sp uint_parse s0 (sent @ out) exns y'"
| throw: "sender_reach sp uint_parse s0 sent exns y \<Longrightarrow>
    sender_step sp uint_parse event y = Some (Inl e, y') \<Longrightarrow>
    sender_reach sp uint_parse s0 sent (exns @ [e]) y'"

subsection \<open>The invariant of the life cycle\<close>

text \<open>How many chains of timer waits are under way: closures that will arm, waits, completions.\<close>

definition timer_chains :: "sender_sys \<Rightarrow> nat" where
  "timer_chains y =
     count_list (strand_tasks y) Arm + timer_waits y + length (completed_waits y)"

definition length_error :: exn where
  "length_error = Runtime_error ''Could not parse jpeg frame length''"

definition sender_inv :: "exn list \<Rightarrow> sender_sys \<Rightarrow> bool" where
  "sender_inv exns y \<longleftrightarrow>
     timer_chains y \<le> (if running (the_sender y) then 1 else 0) \<and>
     (set exns \<subseteq> {length_error} \<longrightarrow> running (the_sender y) \<longrightarrow> timer_chains y = 1)"

lemma timer_chains_simps [simp]:
  "timer_chains (arm_timer y) = timer_chains y + 1"
  "timer_chains (cancel_waits y) = timer_chains y"
  "timer_chains (y\<lparr>the_sender := s\<rparr>) = timer_chains y"
  by (simp_all add: timer_chains_def arm_timer_def cancel_waits_def Let_def)

lemma the_sender_simps [simp]:
  "the_sender (arm_timer y) = the_sender y"
  "the_sender (cancel_waits y) = the_sender y"
  by (simp_all add: arm_timer_def cancel_waits_def Let_def)

text \<open>What the handler does to the flag.\<close>

lemma send_fec_packet_running:
  assumes "send_fec_packet sp s packet buffer draw = (res, s')"
  shows "running s' = running s" and "res \<noteq> Inl length_error"
  using assms
  by (auto simp: send_fec_packet_def Let_def length_error_def
      split: option.splits sum.splits prod.splits if_splits dest: generate_exn)

lemma handler_running:
  assumes "send_next_packet_handler sp up draws error s = (res, s')"
  shows "res = Inr (out, False) \<Longrightarrow> \<not> running s'"
    and "res = Inr (out, True) \<Longrightarrow> running s' = running s"
    and "res = Inl length_error \<Longrightarrow> \<not> running s'"
    and "running s' \<Longrightarrow> running s"
  using assms
  by (auto simp: send_next_packet_handler_def Let_def length_error_def
      split: if_splits frame_read.splits prod.splits sum.splits
      dest: send_fec_packet_running(1) send_fec_packet_running(2) [unfolded length_error_def])

text \<open>Every step of the system preserves the invariant.\<close>

lemma sender_inv_created [preserved]: "\<not> running s0 \<Longrightarrow> sender_inv [] (new_sender_sys s0)"
  by (simp add: sender_inv_def new_sender_sys_def timer_chains_def)

lemma sender_inv_step [preserved]:
  assumes inv: "sender_inv exns y" and step: "sender_step sp up event y = Some (res, y')"
  shows "sender_inv (case res of Inl e \<Rightarrow> exns @ [e] | Inr _ \<Rightarrow> exns) y'"
proof (cases event)
  case Start
  then show ?thesis
    using inv step
    by (auto simp: sender_step_def sender_start_def sender_inv_def timer_chains_def
        split: if_splits)
next
  case Stop
  then show ?thesis
    using inv step
    by (auto simp: sender_step_def sender_stop_def sender_inv_def timer_chains_def
        split: if_splits)
next
  case Run_task
  then show ?thesis
    using inv step
    by (auto simp: sender_step_def sender_inv_def split: list.splits strand_task.splits if_splits)
      (auto simp: timer_chains_def)
next
  case Expire
  then show ?thesis
    using inv step by (auto simp: sender_step_def sender_inv_def timer_chains_def split: if_splits)
next
  case (Run_handler draws)
  then obtain error ds where ds: "completed_waits y = error # ds"
    using step by (auto simp: sender_step_def split: list.splits)
  let ?y = "y\<lparr>completed_waits := ds\<rparr>"
  obtain x s where x: "send_next_packet_handler sp up draws error (the_sender y) = (x, s)"
    by force
  have chains: "timer_chains y = timer_chains ?y + 1"
    by (simp add: timer_chains_def ds)
  then have run: "running (the_sender y)" "timer_chains ?y = 0"
    using inv by (auto simp: sender_inv_def split: if_splits)
  note handler = handler_running [OF x]
  show ?thesis
  proof (cases x)
    case (Inl e)
    then have "res = Inl e" "y' = ?y\<lparr>the_sender := s\<rparr>"
      using step x ds Run_handler by (simp_all add: sender_step_def Let_def)
    then show ?thesis
      using run handler Inl by (auto simp: sender_inv_def)
  next
    case (Inr sr)
    obtain sent rearm where sr: "sr = (sent, rearm)" by force
    then have "res = Inr sent" "y' = (if rearm then arm_timer (?y\<lparr>the_sender := s\<rparr>)
        else ?y\<lparr>the_sender := s\<rparr>)"
      using step x ds Run_handler Inr by (simp_all add: sender_step_def Let_def)
    then show ?thesis
      using run handler Inr sr inv by (cases rearm) (auto simp: sender_inv_def)
  qed
qed

lemma sender_reach_inv: "sender_reach sp up s0 sent exns y \<Longrightarrow> sender_inv exns y"
proof (induction rule: sender_reach.induct)
  case (step sent exns y event out y')
  then show ?case using sender_inv_step [OF step.IH step.hyps(2)] by simp
next
  case (throw sent exns y event e y')
  then show ?case using sender_inv_step [OF throw.IH throw.hyps(2)] by simp
qed (rule sender_inv_created)

subsection \<open>The frames on the wire\<close>

text \<open>
  The interface to the frame length format: five octets written by \<open>digits\<close>, which the
  parser reads back.
\<close>

locale decimal_lengths =
  fixes uint_parse :: uint_parser and digits :: "nat \<Rightarrow> octets"
  assumes length_digits: "n < 100000 \<Longrightarrow> length (digits n) = 5"
    and parse_digits: "n < 100000 \<Longrightarrow> uint_parse (digits n) = Some (of_nat n, [])"
begin

definition encode_frame :: "octets \<Rightarrow> octets" where
  "encode_frame frame = digits (length frame) @ frame"

lemma read_encoded_frame:
  assumes "frame \<noteq> []" and "length frame < 100000"
  shows "read_frame uint_parse (encode_frame frame @ rest) = Frame frame rest"
proof -
  have "unat (of_nat (length frame) :: u32) = length frame"
    using assms(2) by (simp add: unsigned_of_nat take_bit_nat_eq_self)
  moreover from this have "(of_nat (length frame) :: u32) \<noteq> 0"
    using assms(1) by auto
  ultimately show ?thesis
    using assms by (simp add: read_frame_def encode_frame_def length_digits parse_digits Let_def)
qed

lemma read_frame_Nil: "read_frame uint_parse [] = No_length"
  by (simp add: read_frame_def)

end

text \<open>ASCII digits, and a parser that behaves as documented on them.\<close>

definition ascii_digits :: "nat \<Rightarrow> octets" where
  "ascii_digits n = map (\<lambda>i. of_nat (48 + n div 10 ^ i mod 10)) [4, 3, 2, 1, 0]"

fun ascii_value :: "nat \<Rightarrow> octets \<Rightarrow> nat \<times> octets" where
  "ascii_value n [] = (n, [])"
| "ascii_value n (d # ds) =
     (if 48 \<le> unat d \<and> unat d \<le> 57 then ascii_value (10 * n + (unat d - 48)) ds else (n, d # ds))"

definition ascii_uint_parse :: uint_parser where
  "ascii_uint_parse bs =
     (let (n, rest) = ascii_value 0 bs in if length rest = length bs then None else Some (of_nat n, rest))"

lemma ascii_digit: "unat (of_nat (48 + n mod 10) :: u8) = 48 + n mod 10"
proof -
  have "n mod 10 < 10" by simp
  then have "48 + n mod 10 < 256" by linarith
  then show ?thesis by (simp only: unsigned_of_nat) (simp add: take_bit_nat_eq_self)
qed

lemma five_digits:
  assumes "n < 100000"
  shows "10 * (10 * (10 * (10 * (n div 10000 mod 10) + n div 1000 mod 10) + n div 100 mod 10) +
    n div 10 mod 10) + n mod 10 = (n :: nat)"
proof -
  have step: "10 * (m div 10) + m mod 10 = m" for m :: nat
    by simp
  have "n div 10000 mod 10 = n div 10000"
    using assms by (simp add: less_mult_imp_div_less)
  then show ?thesis
    using step [of "n div 1000"] step [of "n div 100"] step [of "n div 10"] step [of n]
    by (simp only: div_mult2_eq [symmetric]) simp
qed

interpretation ascii: decimal_lengths ascii_uint_parse ascii_digits
proof
  show "length (ascii_digits n) = 5" for n
    by (simp add: ascii_digits_def)
  fix n :: nat assume n: "n < 100000"
  have "ascii_value v (of_nat (48 + k mod 10) # ds) = ascii_value (10 * v + k mod 10) ds" for v k ds
  proof -
    have "k mod 10 \<le> 9"
      using mod_less_divisor [of 10 k] by linarith
    then show ?thesis using ascii_digit [of k] by simp
  qed
  then have "ascii_value 0 (ascii_digits n) = (n, [])"
    using five_digits [OF n] by (simp add: ascii_digits_def)
  then show "ascii_uint_parse (ascii_digits n) = Some (of_nat n, [])"
    by (simp add: ascii_uint_parse_def ascii_digits_def)
qed

text \<open>The timer expires \<open>n\<close> times, nothing is cancelled and the channel loses nothing.\<close>

fun run_handlers ::
    "spirit \<Rightarrow> uint_parser \<Rightarrow> nat \<Rightarrow> jpeg_sender \<Rightarrow> octets list \<times> jpeg_sender" where
  "run_handlers sp up 0 s = ([], s)"
| "run_handlers sp up (Suc n) s =
     (case send_next_packet_handler sp up (False, False) False s of
        (Inl e, s) \<Rightarrow> ([], s)
      | (Inr (sent, rearm), s) \<Rightarrow>
          if rearm then let (more, s) = run_handlers sp up n s in (sent @ more, s)
          else (sent, s))"

text \<open>The packets for a list of frames, numbered from the sender's current number.\<close>

fun packets_for :: "jpeg_sender \<Rightarrow> octets list \<Rightarrow> custom_jpeg_packet list" where
  "packets_for s [] = []"
| "packets_for s (f # fs) =
     jpeg_packet_for s f #
     packets_for (s\<lparr>current_sequence_number := current_sequence_number s + 1\<rparr>) fs"

lemma jpeg_packet_for_wf:
  "wf_rtp_header (jpeg_header (jpeg_packet_for s f))"
  "payload_type_field (jpeg_header (jpeg_packet_for s f)) = 26"
  "header_extension (jpeg_header (jpeg_packet_for s f)) = []"
  "fragment_offset (jpeg_header (jpeg_packet_for s f)) = 0"
  "jpeg_data (jpeg_packet_for s f) = f"
  by (simp_all add: jpeg_packet_for_def wf_rtp_header_def new_jpeg_packet_def
      standard_rtp_header_def rtp_header.defs custom_jpeg_payload_header.defs)

lemma jpeg_packet_for_source [simp]:
  "jpeg_packet_for (s\<lparr>jpeg_source := x\<rparr>) f = jpeg_packet_for s f"
  by (simp add: jpeg_packet_for_def)

lemma packets_for_eq:
  "tx_ssrc s = tx_ssrc t \<Longrightarrow> current_sequence_number s = current_sequence_number t \<Longrightarrow>
   packets_for s fs = packets_for t fs"
proof (induction fs arbitrary: s t)
  case (Cons f fs)
  from Cons.IH [of "s\<lparr>current_sequence_number := current_sequence_number s + 1\<rparr>"
      "t\<lparr>current_sequence_number := current_sequence_number t + 1\<rparr>"] Cons.prems
  show ?case by (simp add: jpeg_packet_for_def)
qed simp

context spirit_octets
begin

lemma sent_packet_parses:
  "custom_jpeg_parse sp new_jpeg_packet (snd (custom_jpeg_generate sp (jpeg_packet_for s f))) =
     (True, jpeg_packet_for s f, [])"
  using jpeg_parse_generated [OF jpeg_packet_for_wf(1-3), of s f]
  by (auto simp: jpeg_packet_for_wf(4))

lemma length_sent_packet:
  "20 \<le> length (snd (custom_jpeg_generate sp (jpeg_packet_for s f)))"
proof -
  let ?h = "jpeg_header (jpeg_packet_for s f)"
  have "standard_rtp_header_generate sp ?h = (True, header_octet_0 ?h # header_octet_1 ?h #
      split16 (sequence_number ?h) @ split32 (timestamp ?h) @ split32 (ssrc ?h) @
      concat (map split32 (csrcs ?h)))"
    using jpeg_packet_for_wf(1) [of s f] by (intro generate_rtp_header) (simp_all add: wf_rtp_header_def)
  then show ?thesis
    by (simp add: custom_jpeg_generate_def Let_def karma_simps)
qed

end

lemma run_handlers_frames:
  assumes lengths: "decimal_lengths up digits"
    and frames: "\<forall>f\<in>set fs. f \<noteq> [] \<and> length f < 100000"
    and s: "jpeg_source s = concat (map (decimal_lengths.encode_frame digits) fs)"
      "tx_fec_generator s = None" "\<not> channel_failure_distribution s" and n: "length fs < n"
  shows "run_handlers sp up n s =
    (map (\<lambda>p. snd (custom_jpeg_generate sp p)) (packets_for s fs),
     s\<lparr>jpeg_source := [], running := False,
       current_sequence_number := current_sequence_number s + of_nat (length fs)\<rparr>)"
  using frames s n
proof (induction fs arbitrary: s n)
  case Nil
  then obtain n' where "n = Suc n'" by (cases n) auto
  then show ?case
    using Nil decimal_lengths.read_frame_Nil [OF lengths]
    by (simp add: send_next_packet_handler_def)
next
  case (Cons f fs)
  let ?rest = "concat (map (decimal_lengths.encode_frame digits) fs)"
  obtain n' where n': "n = Suc n'" "length fs < n'" using Cons.prems(5) by (cases n) auto
  have "read_frame up (jpeg_source s) = Frame f ?rest"
    using decimal_lengths.read_encoded_frame [OF lengths, of f ?rest] Cons.prems(1,2) by simp
  then have "send_next_packet_handler sp up (False, False) False s =
      (Inr ([snd (custom_jpeg_generate sp (jpeg_packet_for s f))], True),
       s\<lparr>jpeg_source := ?rest, current_sequence_number := current_sequence_number s + 1\<rparr>)"
    using Cons.prems(3,4)
    by (simp add: send_next_packet_handler_def Let_def send_fec_packet_def split_def)
  then show ?case
    using Cons.IH [of "s\<lparr>jpeg_source := ?rest,
        current_sequence_number := current_sequence_number s + 1\<rparr>" n'] Cons.prems n'
      packets_for_eq [of "s\<lparr>jpeg_source := ?rest,
        current_sequence_number := current_sequence_number s + 1\<rparr>"
        "s\<lparr>current_sequence_number := current_sequence_number s + 1\<rparr>" fs]
    by (simp add: algebra_simps)
qed

subsection \<open>The parity packets on the wire\<close>

text \<open>The level mask as the parser assembles it, bit by bit.\<close>

lemma bit_mask_octet:
  assumes "u < 64" and "i < 8"
  shows "bit (push_bit (8 * (7 - i)) (ucast (b :: u8)) :: u64) (63 - u) \<longleftrightarrow>
    u div 8 = i \<and> bit b (7 - u mod 8)"
proof (cases "u div 8 = i")
  case True
  have "63 - (8 * q + r) - 8 * (7 - q) = 7 - r" if "q < 8" "r < 8" for q r :: nat
    using that by auto
  moreover have "8 * i + u mod 8 = u"
    using mult_div_mod_eq [of 8 u] True by simp
  ultimately have "63 - u - 8 * (7 - i) = 7 - u mod 8"
    using assms(2) by (metis mod_less_divisor zero_less_numeral)
  moreover have "8 * (7 - i) \<le> 63 - u"
    using True assms by auto
  ultimately have "63 - u - 8 * (7 - i) = 7 - u mod 8" "8 * (7 - i) \<le> 63 - u" .
  then show ?thesis
    using True assms by (auto simp: bit_push_bit_iff bit_ucast_iff less_imp_diff_less)
next
  case False
  then consider "u div 8 < i" | "i < u div 8" by arith
  then have "\<not> (8 * (7 - i) \<le> 63 - u \<and> 63 - u - 8 * (7 - i) < 8)"
    using assms by cases auto
  then show ?thesis
    using False by (auto simp: bit_push_bit_iff bit_ucast_iff dest: bit_imp_le_length)
qed

context spirit_octets
begin

lemma parse_mask_bits:
  "length octets + i \<le> 8 \<Longrightarrow>
   \<exists>m' b'. parse_mask sp i (length octets) m b (octets @ rest) = (m', b', rest) \<and>
     (\<forall>u<64. bit m' (63 - u) \<longleftrightarrow> bit m (63 - u) \<or>
        (i \<le> u div 8 \<and> u div 8 < i + length octets \<and> bit (octets ! (u div 8 - i)) (7 - u mod 8)))"
proof (induction octets arbitrary: i m b)
  case Nil
  then show ?case by auto
next
  case (Cons x xs)
  let ?m = "m OR push_bit (8 * (7 - i)) (ucast x)"
  from Cons.IH [of "Suc i" ?m x] Cons.prems obtain m' b' where
    m': "parse_mask sp (Suc i) (length xs) ?m x (xs @ rest) = (m', b', rest)"
    "\<forall>u<64. bit m' (63 - u) \<longleftrightarrow> bit ?m (63 - u) \<or>
        (Suc i \<le> u div 8 \<and> u div 8 < Suc i + length xs \<and> bit (xs ! (u div 8 - Suc i)) (7 - u mod 8))"
    by auto
  have "bit ?m (63 - u) \<longleftrightarrow> bit m (63 - u) \<or> u div 8 = i \<and> bit x (7 - u mod 8)" if "u < 64" for u
    using bit_mask_octet [OF that, of i x] Cons.prems by (simp add: bit_or_iff)
  moreover have "(x # xs) ! (u div 8 - i) = (if u div 8 = i then x else xs ! (u div 8 - Suc i))"
    if "i \<le> u div 8" for u
    using that by (auto simp: nth_Cons' )
  ultimately show ?case
    using m' Cons.prems by (auto simp: into_byte_Cons Suc_le_eq le_less)
qed

lemma parse_sender_mask:
  assumes "k \<le> 48"
  defines "octets \<equiv> (if 16 < k then fec_mask k else take 2 (fec_mask k))"
  shows "\<exists>m' b'. parse_mask sp 0 (length octets) 0 b (octets @ rest) = (m', b', rest) \<and>
    (\<forall>u<64. bit m' (63 - u) \<longleftrightarrow> u < k)"
proof -
  have len: "length octets = (if 16 < k then 6 else 2)"
    by (simp add: octets_def)
  then have "length octets + 0 \<le> 8" by simp
  from parse_mask_bits [OF this, of 0 b rest] obtain m' b' where
    m': "parse_mask sp 0 (length octets) 0 b (octets @ rest) = (m', b', rest)"
    "\<forall>u<64. bit m' (63 - u) \<longleftrightarrow> u div 8 < length octets \<and> bit (octets ! (u div 8)) (7 - u mod 8)"
    by (simp del: length_0_conv) blast
  have "u div 8 < length octets \<and> bit (octets ! (u div 8)) (7 - u mod 8) \<longleftrightarrow> u < k" for u
  proof (cases "u div 8 < length octets")
    case True
    then have "u < 48" using len by (auto split: if_splits)
    moreover have "octets ! (u div 8) = fec_mask k ! (u div 8)"
      using True len by (auto simp: octets_def split: if_splits)
    ultimately show ?thesis using True fec_mask_bit by simp
  next
    case False
    then show ?thesis using len assms by (auto split: if_splits)
  qed
  with m' show ?thesis by auto
qed

end

text \<open>The RTP header the sender puts in front of a parity packet.\<close>

abbreviation fec_rtp_header :: "u16 \<Rightarrow> u32 \<Rightarrow> u32 \<Rightarrow> rtp_header" where
  "fec_rtp_header seq src ts \<equiv> standard_rtp_header\<lparr>sequence_number := seq, ssrc := src,
     payload_type_field := 100, timestamp := ts\<rparr>"

context spirit_octets
begin

lemma parse_one_level:
  assumes "length payload = unat len" and "unat len < fuel" "k \<le> 48"
    and mask: "octets = (if 16 < k then fec_mask k else take 2 (fec_mask k))"
  shows "\<exists>m. parse_levels sp (Suc fuel) (if 16 < k then 8 else 4) [] b
      (split16 len @ octets @ payload) =
    Some (True, [(\<lparr>protection_length_field = len, mask_field = m\<rparr>, payload)], []) \<and>
    (\<forall>u<64. bit m (63 - u) \<longleftrightarrow> u < k)"
proof -
  let ?h = "if 16 < k then 8 else 4 :: nat"
  have octets: "length octets = ?h - 2"
    by (simp add: mask)
  obtain m b' where m: "parse_mask sp 0 (length octets) 0 b (octets @ payload) = (m, b', payload)"
    "\<forall>u<64. bit m (63 - u) \<longleftrightarrow> u < k"
    using parse_sender_mask [OF assms(3), of b payload, folded mask] by blast
  obtain fuel' where "fuel = Suc fuel'"
    using assms(2) by (cases fuel) auto
  then have "parse_levels sp fuel ?h lv b'' [] = Some (True, lv, [])" for lv b''
    by simp
  moreover have "drop (unat len) payload = []" "\<not> length payload < unat len"
    using assms(1) by simp_all
  moreover have "\<not> length (split16 len @ octets @ payload) < ?h"
    using octets by simp
  ultimately show ?thesis
    using m octets by (auto simp: into_word_split Let_def)
qed

lemma fec_datagram_parses:
  fixes ms :: "(octets \<times> u16) list"
  defines "par \<equiv> fec_parity (map fst ms)"
  assumes k: "k \<le> 48" and long: "14 \<le> length par" and short: "length par - 12 < 65536"
    and out: "standard_rtp_header_generate sp (fec_rtp_header seq src ts) = (True, out)"
    and fuel: "length (out @ fec_packet_of k ms) < fuel"
  shows "\<exists>p m. custom_fec_parse sp fuel new_fec_packet (out @ fec_packet_of k ms) = Some (True, p, []) \<and>
    payload_type_field (fec_header p) = 100 \<and> sequence_number (fec_header p) = seq \<and>
    ssrc (fec_header p) = src \<and> timestamp (fec_header p) = ts \<and> csrc (fec_header p) = 0 \<and>
    sn_base_field (fec_header p) = fec_base (map snd ms) \<and>
    fec_levels p = [(\<lparr>protection_length_field = of_nat (length par - 12), mask_field = m\<rparr>,
      drop (fec_front_length k) (fec_packet_of k ms))] \<and>
    (\<forall>u<64. bit m (63 - u) \<longleftrightarrow> u < k)"
proof -
  let ?len = "of_nat (length par - 12) :: u16"
  let ?mask = "if 16 < k then fec_mask k else take 2 (fec_mask k)"
  let ?payload = "drop 12 par"
  have len: "unat ?len = length ?payload"
    using short by (simp add: unsigned_of_nat take_bit_nat_eq_self)
  obtain a0 a1 b2 b3 t0 t1 t2 t3 l0 l1 r where par:
    "par = a0 # a1 # b2 # b3 # t0 # t1 # t2 # t3 # l0 # l1 # r"
    using long by (auto simp: Suc_le_length_iff eval_nat_numeral)
  define o0 where "o0 = (a0 AND 0x3F) OR (if 16 < k then 0x40 else 0)"
  have F: "fec_packet_of k ms = o0 # a1 # split16 (fec_base (map snd ms)) @
      t0 # t1 # t2 # t3 # l0 # l1 # split16 ?len @ ?mask @ ?payload"
    by (simp add: fec_packet_of_def Let_def o0_def flip: par_def) (simp add: par)
  have o0: "bit o0 6 = (16 < k)"
    by (auto simp: o0_def u8_bit_simps)
  have fuel': "\<exists>f. fuel = Suc f \<and> unat ?len < f"
    using fuel len F by (cases fuel) auto
  then obtain f where f: "fuel = Suc f" "unat ?len < f" by blast
  define hdr where "hdr = (fec_header new_fec_packet)\<lparr>payload_type_field := 100,
    sequence_number := seq, timestamp := ts, ssrc := src\<rparr>"
  have wf: "wf_rtp_header (fec_rtp_header seq src ts)"
    by (simp add: wf_rtp_header_def standard_rtp_header_def)
  have "decoded_fixed (fec_header new_fec_packet) (header_octet_0 (fec_rtp_header seq src ts))
      (header_octet_1 (fec_rtp_header seq src ts)) seq ts src\<lparr>csrcs := []\<rparr> = hdr"
    by (simp add: decoded_wf [OF wf] hdr_def)
      (simp add: new_fec_packet_def standard_rtp_header_def rtp_header.defs)
  then obtain b where hdr: "parse_rtp_header sp (fec_header new_fec_packet)
      (out @ fec_packet_of k ms) = (True, hdr, fec_packet_of k ms, b)"
    using parse_generated_header [OF wf _ out, of "fec_header new_fec_packet" "fec_packet_of k ms"]
    by (auto simp: standard_rtp_header_def new_fec_packet_def rtp_header.defs)
  obtain m where m: "parse_levels sp fuel (if 16 < k then 8 else 4) [] a1
      (split16 ?len @ ?mask @ ?payload) =
      Some (True, [(\<lparr>protection_length_field = ?len, mask_field = m\<rparr>, ?payload)], [])"
    "\<forall>u<64. bit m (63 - u) \<longleftrightarrow> u < k"
    using parse_one_level [OF len [symmetric] f(2) k refl] unfolding f(1) by blast
  have payload: "drop (fec_front_length k) (fec_packet_of k ms) = ?payload"
    using fec_packet_payload(1) [of ms k] long by (simp flip: par_def)
  have simps: "custom_fec_parse sp fuel new_fec_packet (out @ fec_packet_of k ms) =
    Some (True, new_fec_packet\<lparr>fec_header := hdr\<lparr>extension_flag := bit o0 7,
      long_mask_flag := bit o0 6, p_recovery_field := bit o0 5, x_recovery_field := bit o0 4,
      cc_recovery_field := o0 AND 0x0F, m_recovery_field := bit a1 7,
      pt_recovery_field := a1 AND 0x7F, sn_base_field := fec_base (map snd ms),
      ts_recovery_field := join32 t0 t1 t2 t3, length_recovery_field := join16 l0 l1\<rparr>,
      fec_levels := [(\<lparr>protection_length_field = ?len, mask_field = m\<rparr>, ?payload)]\<rparr>, [])"
    unfolding custom_fec_parse_def hdr
    using m(1) by (simp add: F into_simps flag_test o0 new_fec_packet_def Let_def)
  show ?thesis
    unfolding simps payload using m(2)
    by (auto simp: hdr_def new_fec_packet_def standard_rtp_header_def rtp_header.defs)
qed

end

subsection \<open>Generators that do not throw\<close>

definition sender_fec_ok :: "nat \<Rightarrow> jpeg_sender \<Rightarrow> bool" where
  "sender_fec_ok k s \<longleftrightarrow> (\<exists>g ms. tx_fec_generator s = Some g \<and> fec_refines k ms g)"

definition truncated_error :: exn where
  "truncated_error = Undefined_behaviour ''end-of-stream iterator dereferenced''"

lemma sender_fec_ok_simps [simp]:
  "sender_fec_ok k (s\<lparr>jpeg_source := x\<rparr>) = sender_fec_ok k s"
  "sender_fec_ok k (s\<lparr>running := b\<rparr>) = sender_fec_ok k s"
  "sender_fec_ok k (s\<lparr>current_sequence_number := n\<rparr>) = sender_fec_ok k s"
  "sender_fec_ok k (s\<lparr>current_fec_sequence_number := n\<rparr>) = sender_fec_ok k s"
  by (simp_all add: sender_fec_ok_def)

context spirit_octets
begin

lemma send_fec_packet_ok:
  assumes ok: "sender_fec_ok k s" and "k \<le> 48" "12 \<le> length buffer"
    and send: "send_fec_packet sp s packet buffer draw = (res, s')"
  shows "\<not> isl res \<and> sender_fec_ok k s'"
proof -
  obtain g ms where g: "tx_fec_generator s = Some g" "fec_refines k ms g"
    using ok by (auto simp: sender_fec_ok_def)
  obtain g' where g': "generate_next_fec_packet sp g buffer (current_sequence_number s) =
      (Inr (fst (fec_spec_step k ms buffer (current_sequence_number s))), g')"
    "fec_refines k (snd (fec_spec_step k ms buffer (current_sequence_number s))) g'"
    using generate_refines [OF g(2) assms(2,3)] by blast
  have "sender_fec_ok k (s\<lparr>tx_fec_generator := Some g'\<rparr>)"
    using g'(2) by (auto simp: sender_fec_ok_def)
  then show ?thesis
    using send g(1) g'(1)
    by (auto simp: send_fec_packet_def Let_def split: option.splits if_splits)
qed

lemma handler_fec_ok:
  assumes ok: "sender_fec_ok k s" and k: "k \<le> 48"
    and h: "send_next_packet_handler sp up draws error s = (res, s')"
  shows "sender_fec_ok k s' \<and> (res = Inl e \<longrightarrow> e = length_error \<or> e = truncated_error)"
proof (cases "\<not> error \<and> (\<exists>f rest. read_frame up (jpeg_source s) = Frame f rest)")
  case True
  then obtain f rest where f: "\<not> error" "read_frame up (jpeg_source s) = Frame f rest" by blast
  define t where "t = s\<lparr>jpeg_source := rest\<rparr>"
  let ?b = "snd (custom_jpeg_generate sp (jpeg_packet_for s f))"
  obtain x t' where x: "send_fec_packet sp t (jpeg_packet_for s f) ?b (snd draws) = (x, t')"
    by force
  have "12 \<le> length ?b"
    using length_sent_packet [of s f] by simp
  with send_fec_packet_ok [OF _ k _ x] ok have "\<not> isl x \<and> sender_fec_ok k t'"
    by (simp add: t_def)
  then show ?thesis
    using h f x by (cases x) (auto simp: send_next_packet_handler_def Let_def split_def t_def)
next
  case False
  then show ?thesis
    using h ok by (auto simp: send_next_packet_handler_def length_error_def truncated_error_def
        split: if_splits frame_read.splits)
qed

lemma step_fec_ok:
  assumes ok: "sender_fec_ok k (the_sender y)" and k: "k \<le> 48"
    and step: "sender_step sp up event y = Some (res, y')"
  shows "sender_fec_ok k (the_sender y') \<and>
    (res = Inl e \<longrightarrow> e = length_error \<or> e = truncated_error)"
proof (cases event)
  case (Run_handler draws)
  then obtain error ds where ds: "completed_waits y = error # ds"
    using step by (auto simp: sender_step_def split: list.splits)
  obtain x s where x: "send_next_packet_handler sp up draws error (the_sender y) = (x, s)"
    by force
  show ?thesis
    using handler_fec_ok [OF ok k x] step ds x Run_handler
    by (cases x) (auto simp: sender_step_def Let_def split: prod.splits)
qed (use ok step in \<open>auto simp: sender_step_def sender_start_def sender_stop_def
      split: if_splits list.splits strand_task.splits\<close>)

lemma reach_fec_ok:
  assumes "sender_reach sp up s0 sent exns y" and "sender_fec_ok k s0" and "k \<le> 48"
  shows "sender_fec_ok k (the_sender y) \<and> set exns \<subseteq> {length_error, truncated_error}"
  using assms(1)
proof (induction rule: sender_reach.induct)
  case created
  then show ?case using assms(2) by (simp add: new_sender_sys_def)
next
  case (step sent exns y event out y')
  then show ?case using step_fec_ok [OF _ assms(3) step.hyps(2)] by blast
next
  case (throw sent exns y event e y')
  then show ?case using step_fec_ok [OF _ assms(3) throw.hyps(2)] by auto
qed

end

subsection \<open>A sender that never stops\<close>

text \<open>Running without any timer wait under way.\<close>

definition sender_stuck :: "sender_sys \<Rightarrow> bool" where
  "sender_stuck y \<longleftrightarrow> running (the_sender y) \<and> timer_chains y = 0"

fun sender_run ::
    "spirit \<Rightarrow> uint_parser \<Rightarrow> sender_event list \<Rightarrow> sender_sys \<Rightarrow> octets list \<times> sender_sys" where
  "sender_run sp up [] y = ([], y)"
| "sender_run sp up (e # es) y =
     (case sender_step sp up e y of
        None \<Rightarrow> sender_run sp up es y
      | Some (res, y) \<Rightarrow>
          let (more, y) = sender_run sp up es y
          in ((case res of Inl _ \<Rightarrow> [] | Inr sent \<Rightarrow> sent) @ more, y))"

lemma stuck_step:
  assumes "sender_stuck y" and "sender_step sp up e y = Some (res, y')"
  shows "res = Inr [] \<and> sender_stuck y'"
  using assms
  by (cases e) (auto simp: sender_stuck_def sender_step_def sender_start_def sender_stop_def
      timer_chains_def arm_timer_def cancel_waits_def Let_def
      split: list.splits strand_task.splits if_splits)

lemma stuck_forever:
  "sender_stuck y \<Longrightarrow> fst (sender_run sp up es y) = [] \<and> sender_stuck (snd (sender_run sp up es y))"
proof (induction es arbitrary: y)
  case (Cons e es)
  show ?case
  proof (cases "sender_step sp up e y")
    case None
    then show ?thesis using Cons by simp
  next
    case (Some p)
    obtain res y' where p: "p = (res, y')" by force
    then show ?thesis
      using Some stuck_step [OF Cons.prems, of sp up e res y'] Cons.IH [of y']
      by (auto simp: split_def Let_def)
  qed
qed simp

subsection \<open>Properties\<close>


definition sample_sender :: jpeg_sender where
  "sample_sender = new_jpeg_sender 7 (ascii_digits 4 @ [1, 2, 3, 4]) 65535 9"

lemma sample_sender_started:
  "sender_reach octet_spirit ascii_uint_parse sample_sender ([] @ []) []
     (sender_start (new_sender_sys sample_sender))"
proof (rule sender_reach.step [where event = Start])
  show "sender_reach octet_spirit ascii_uint_parse sample_sender [] [] (new_sender_sys sample_sender)"
    by (rule sender_reach.created) (simp add: sample_sender_def new_jpeg_sender_def)
qed (simp add: sender_step_def)


text \<open>
  C22 (functional): a sender sends the whole source. For every list of non-empty frames in the
  file format, the timer handler sends one datagram per frame, in order, numbered
  consecutively modulo 65536; each datagram parses as a JPEG packet with that number
  and exactly the frame as its data; after the last frame the sender stops by itself.
\<close>

theorem sender_sends_all_frames:
  assumes "spirit_octets sp" and "decimal_lengths up digits"
    and "\<forall>f\<in>set fs. f \<noteq> [] \<and> length f < 100000"
    and "jpeg_source s = concat (map (decimal_lengths.encode_frame digits) fs)"
    and "tx_fec_generator s = None" and "\<not> channel_failure_distribution s" and "length fs < n"
  shows "\<exists>sent s'. run_handlers sp up n s = (sent, s') \<and>
    map (custom_jpeg_parse sp new_jpeg_packet) sent = map (\<lambda>p. (True, p, [])) (packets_for s fs) \<and>
    map jpeg_data (packets_for s fs) = fs \<and> \<not> running s' \<and>
    current_sequence_number s' = current_sequence_number s + of_nat (length fs)"
proof -
  have "map jpeg_data (packets_for s fs) = fs" for s fs
    by (induction fs arbitrary: s) (simp_all add: jpeg_packet_for_wf)
  moreover have "map (custom_jpeg_parse sp new_jpeg_packet)
      (map (\<lambda>p. snd (custom_jpeg_generate sp p)) (packets_for s fs)) =
    map (\<lambda>p. (True, p, [])) (packets_for s fs)" for s fs
    by (induction fs arbitrary: s) (simp_all add: spirit_octets.sent_packet_parses [OF assms(1)])
  ultimately show ?thesis
    using run_handlers_frames [OF assms(2-7), of sp] by simp
qed

theorem sender_sends_all_frames_witness:
  "\<exists>sent s'. run_handlers octet_spirit ascii_uint_parse 2 sample_sender = (sent, s') \<and>
     map (custom_jpeg_parse octet_spirit new_jpeg_packet) sent =
       [(True, jpeg_packet_for sample_sender [1, 2, 3, 4], [])] \<and>
     current_sequence_number s' = 0"
proof -
  have four: "length [1 :: u8, 2, 3, 4] = 4"
    by simp
  have src: "jpeg_source sample_sender = concat (map ascii.encode_frame [[1, 2, 3, 4]])"
    unfolding sample_sender_def new_jpeg_sender_def ascii.encode_frame_def list.map four by simp
  have num: "current_sequence_number sample_sender = - 1"
    by (simp add: sample_sender_def new_jpeg_sender_def)
  have "\<exists>sent s'. run_handlers octet_spirit ascii_uint_parse 2 sample_sender = (sent, s') \<and>
    map (custom_jpeg_parse octet_spirit new_jpeg_packet) sent =
      map (\<lambda>p. (True, p, [])) (packets_for sample_sender [[1, 2, 3, 4]]) \<and>
    current_sequence_number s' = current_sequence_number sample_sender + of_nat (length [[1 :: u8, 2, 3, 4]])"
    using sender_sends_all_frames [OF octet.spirit_octets_axioms ascii.decimal_lengths_axioms _ src,
        of 2]
    by (auto simp: sample_sender_def new_jpeg_sender_def)
  then show ?thesis by (simp add: num)
qed

text \<open>
  The parity packet on the wire. When the block is complete the sender emits one
  datagram, which the FEC parser accepts completely: it carries the sender's SSRC and FEC
  number, the block's base, one level whose protection length is the length of its payload,
  and a mask whose first \<open>k\<close> bits are set.
\<close>

theorem fec_datagram_roundtrip:
  assumes "spirit_octets sp" and "tx_fec_generator s = Some g" and "fec_refines k ms g"
    and "k \<le> 48" and "Suc (length ms) = k" and "12 \<le> length buffer"
    and "length (fec_parity (map fst (ms @ [(buffer, current_sequence_number s)]))) < 65536"
    and "\<not> channel_failure_distribution s"
  shows "\<exists>datagram s' p m. send_fec_packet sp s packet buffer draw = (Inr [datagram], s') \<and>
    custom_fec_parse sp (Suc (length datagram)) new_fec_packet datagram = Some (True, p, []) \<and>
    payload_type_field (fec_header p) = 100 \<and> ssrc (fec_header p) = tx_ssrc s \<and>
    sequence_number (fec_header p) = current_fec_sequence_number s \<and>
    sn_base_field (fec_header p) = fec_base (map snd (ms @ [(buffer, current_sequence_number s)])) \<and>
    (\<exists>payload. fec_levels p =
      [(\<lparr>protection_length_field = of_nat (length payload), mask_field = m\<rparr>, payload)]) \<and>
    (\<forall>u<64. bit m (63 - u) \<longleftrightarrow> u < k) \<and>
    current_fec_sequence_number s' = current_fec_sequence_number s + 1"
proof -
  let ?n = "current_sequence_number s"
  let ?block = "ms @ [(buffer, ?n)]"
  let ?F = "fec_packet_of k ?block"
  let ?hdr = "fec_rtp_header (current_fec_sequence_number s) (tx_ssrc s)
    (timestamp (jpeg_header packet))"
  let ?s = "s\<lparr>tx_fec_generator := Some (g\<lparr>current_fec_k := fec_k g, fec_seq_base := 0,
    fec_bit_string := []\<rparr>), current_fec_sequence_number := current_fec_sequence_number s + 1\<rparr>"
  have "generate_next_fec_packet sp g buffer ?n = (Inr (Some ?F),
      g\<lparr>current_fec_k := fec_k g, fec_seq_base := 0, fec_bit_string := []\<rparr>)"
    using spirit_octets.generate_due [OF assms(1,3,6), of ?n] assms(4,5) by simp
  then have send: "send_fec_packet sp s packet buffer draw =
      (Inr [snd (standard_rtp_header_generate sp ?hdr) @ ?F], ?s)"
    using assms(2,8) by (simp add: send_fec_packet_def Let_def)
  obtain out where out: "standard_rtp_header_generate sp ?hdr = (True, out)"
    using spirit_octets.generate_rtp_header [OF assms(1), of ?hdr]
    by (simp add: standard_rtp_header_def)
  have long: "14 \<le> length (fec_parity (map fst ?block))"
    using length_fec_parity [of buffer "map fst ?block"] assms(6) by simp
  then have payload: "length (drop (fec_front_length k) ?F) =
      length (fec_parity (map fst ?block)) - 12"
    using fec_packet_payload(1) [of ?block k] by simp
  let ?d = "out @ ?F"
  have "length (fec_parity (map fst ?block)) - 12 < 65536"
    using assms(7) by simp
  from spirit_octets.fec_datagram_parses [OF assms(1,4) long this out lessI] obtain p m where
    p: "custom_fec_parse sp (Suc (length ?d)) new_fec_packet ?d = Some (True, p, [])"
      "payload_type_field (fec_header p) = 100"
      "sequence_number (fec_header p) = current_fec_sequence_number s"
      "ssrc (fec_header p) = tx_ssrc s"
      "sn_base_field (fec_header p) = fec_base (map snd ?block)"
      "\<forall>u<64. bit m (63 - u) \<longleftrightarrow> u < k"
    and level: "fec_levels p = [(\<lparr>protection_length_field = of_nat (length (drop (fec_front_length k) ?F)),
        mask_field = m\<rparr>, drop (fec_front_length k) ?F)]"
    unfolding payload by blast
  have "send_fec_packet sp s packet buffer draw = (Inr [?d], ?s)"
    by (simp add: send out)
  then show ?thesis
    using p level by (intro exI [of _ ?d] exI [of _ ?s] exI [of _ p] exI [of _ m]) auto
qed

text \<open>A complete block of one packet.\<close>

theorem fec_datagram_roundtrip_witness:
  "\<exists>datagram s' p. send_fec_packet octet_spirit (new_jpeg_fec_sender 7 [] 5 9 1\<lparr>
       channel_failure_distribution := False\<rparr>) new_jpeg_packet (replicate 20 1) False =
     (Inr [datagram], s') \<and>
     custom_fec_parse octet_spirit (Suc (length datagram)) new_fec_packet datagram =
       Some (True, p, []) \<and> sn_base_field (fec_header p) = 5"
proof -
  let ?s = "new_jpeg_fec_sender 7 [] 5 9 1\<lparr>channel_failure_distribution := False\<rparr>"
  have "tx_fec_generator ?s = Some (new_fec_generator 1)" "current_sequence_number ?s = 5"
    by (simp_all add: new_jpeg_fec_sender_def new_jpeg_sender_def)
  then show ?thesis
    using fec_datagram_roundtrip [OF octet.spirit_octets_axioms, of ?s "new_fec_generator 1" 1 "[]"
        "replicate 20 1" new_jpeg_packet False] fec_refines_new [of 1]
    by (fastforce simp: length_fec_block fec_base_def)
qed

text \<open>
  With one to 48 media packets per parity packet the generator never makes the
  sender throw: the only exceptions of its handler, in every history, are the frame length
  that is no number and the frame that is shorter than announced.
\<close>

theorem fec_sender_exceptions:
  assumes "spirit_octets sp" and "0 < k" and "unat k \<le> 48"
    and "sender_reach sp up (new_jpeg_fec_sender own_ssrc source seq fec_seq k) sent exns y"
  shows "set exns \<subseteq> {length_error, truncated_error}"
  using spirit_octets.reach_fec_ok [OF assms(1,4), of "unat k"] assms(2,3) fec_refines_new [of k]
  by (auto simp: sender_fec_ok_def new_jpeg_fec_sender_def)

theorem fec_sender_exceptions_witness:
  "set ([] :: exn list) \<subseteq> {length_error, truncated_error}"
  by (rule fec_sender_exceptions [OF octet.spirit_octets_axioms, of 2 ascii_uint_parse 7 "[]" 0 0 "[]" "[]"
      "new_sender_sys (new_jpeg_fec_sender 7 [] 0 0 2)"])
    (auto intro!: sender_reach.created simp: new_jpeg_fec_sender_def new_jpeg_sender_def)

text \<open>
  C38 (liveness): with more than 48 media packets per parity packet the sender hangs. The
  handler that should emit the parity packet throws \<open>out_of_range\<close> with the flag still set and
  no timer wait left; from then on, whatever calls, tasks and events follow, nothing is sent
  and the flag stays set, so the destructor, which waits for it, does not return.
\<close>

theorem fec_sender_hangs:
  assumes "spirit_octets sp" and "tx_fec_generator (the_sender y) = Some g"
    and "48 < unat (fec_k g)" and "unat (current_fec_k g) \<le> 1"
    and "running (the_sender y)" and "timer_chains y = 1" and "completed_waits y = [False]"
    and "read_frame up (jpeg_source (the_sender y)) = Frame f rest"
  shows "\<exists>y'. sender_step sp up (Run_handler draws) y = Some (Inl Out_of_range, y') \<and>
    (\<forall>events. fst (sender_run sp up events y') = [] \<and>
       running (the_sender (snd (sender_run sp up events y'))))"
proof -
  let ?s = "the_sender y" and ?p = "jpeg_packet_for (the_sender y) f"
  let ?b = "snd (custom_jpeg_generate sp ?p)"
  have b: "\<not> length ?b < 12"
    using spirit_octets.length_sent_packet [OF assms(1), of ?s f] by simp
  have "\<not> 1 < current_fec_k g"
    using assms(4) by (simp add: word_less_nat_alt)
  moreover have "fst (fec_emit sp h) = Inl Out_of_range" if "fec_k h = fec_k g" for h
    using spirit_octets.fec_emit_error [OF assms(1), of h] that assms(3) by simp
  ultimately obtain g' where g': "generate_next_fec_packet sp g ?b (current_sequence_number ?s) =
      (Inl Out_of_range, g')"
    using b by (simp add: generate_next_fec_packet_def Let_def split_def)
  let ?s' = "?s\<lparr>jpeg_source := rest, tx_fec_generator := Some g'\<rparr>"
  let ?y' = "y\<lparr>completed_waits := [], the_sender := ?s'\<rparr>"
  have "send_next_packet_handler sp up draws False ?s = (Inl Out_of_range, ?s')"
    using assms(2,8) g'
    by (simp add: send_next_packet_handler_def send_fec_packet_def Let_def split_def)
  then have step: "sender_step sp up (Run_handler draws) y = Some (Inl Out_of_range, ?y')"
    using assms(7) by (simp add: sender_step_def Let_def)
  have "sender_stuck ?y'"
    using assms(5-7) by (simp add: sender_stuck_def timer_chains_def)
  then show ?thesis
    using step stuck_forever by (auto simp: sender_stuck_def)
qed

text \<open>A running sender of one frame and a block of fifty packets of which the last is due.\<close>

definition hanging_sys :: sender_sys where
  "hanging_sys =
     (new_sender_sys (new_jpeg_fec_sender 7 (ascii_digits 1 @ [1]) 0 0 50\<lparr>running := True,
        tx_fec_generator := Some (new_fec_generator 50\<lparr>current_fec_k := 1\<rparr>)\<rparr>))
       \<lparr>completed_waits := [False]\<rparr>"

theorem fec_sender_hangs_witness:
  "\<exists>y'. sender_step octet_spirit ascii_uint_parse (Run_handler (False, False)) hanging_sys =
       Some (Inl Out_of_range, y') \<and>
     running (the_sender (snd (sender_run octet_spirit ascii_uint_parse [Stop, Run_task] y')))"
proof -
  have one: "length [1 :: u8] = 1" by simp
  have "ascii_digits 1 @ [1] = ascii.encode_frame [1] @ []"
    unfolding ascii.encode_frame_def one by simp
  then have "read_frame ascii_uint_parse (ascii_digits 1 @ [1]) = Frame [1] []"
    using ascii.read_encoded_frame [of "[1]" "[]"] by simp
  then show ?thesis
    using fec_sender_hangs [OF octet.spirit_octets_axioms, of hanging_sys
        "new_fec_generator 50\<lparr>current_fec_k := 1\<rparr>" ascii_uint_parse "[1]" "[]" "(False, False)"]
    by (auto simp: hanging_sys_def new_sender_sys_def new_jpeg_fec_sender_def new_jpeg_sender_def
        new_fec_generator_def timer_chains_def simp del: sender_run.simps)
qed

end
