(* ===== verification/Rtsp_Headers.thy ===== *)
theory Rtsp_Headers
  imports Prelude
begin

section \<open>RTSP definitions and headers\<close>

text \<open>
  The message structures of \<open>rtsp_definitions.hpp\<close>, the header normalisation of
  \<open>rtsp_headers.cpp\<close>, the transport structures of \<open>rtsp_headers.hpp\<close>, and the choice of a
  transport on both sides: \<open>get_acceptable_transport\<close> of the server (\<open>rtsp_methods.cpp\<close>) and
  the reading of its answer by the client (\<open>rtsp_client.cpp\<close>). The text grammars are Boost.Spirit
  expressions; the functions they denote are parameters, collected in a record.
\<close>

subsection \<open>Messages\<close>

text \<open>
  The numbers of a message are \<open>uint_fast16_t\<close>, of which the standard promises sixteen bits; the
  model has these sixteen.
\<close>

type_synonym raw_headers = "(string \<times> string) list"
type_synonym normalized_headers = "string \<rightharpoonup> string"

record request =
  method_or_extension :: string
  uri :: string
  request_version_major :: u16
  request_version_minor :: u16
  request_headers :: raw_headers

record response =
  response_version_major :: u16
  response_version_minor :: u16
  status_code :: u16
  reason_phrase :: string
  response_headers :: raw_headers

type_synonym internal_request = "request \<times> normalized_headers"

text \<open>\<open>std::unordered_map::at\<close>.\<close>

definition map_at :: "(string \<rightharpoonup> 'a) \<Rightarrow> string \<Rightarrow> 'a result" where
  "map_at m k = (case m k of None \<Rightarrow> Inl Out_of_range | Some v \<Rightarrow> Inr v)"

lemma map_at_simps [simp]: "m k = Some v \<Longrightarrow> map_at m k = Inr v"
  by (simp add: map_at_def)

subsection \<open>\<open>normalize_headers\<close>\<close>

definition add_header ::
    "(string \<Rightarrow> string) \<Rightarrow> normalized_headers \<Rightarrow> string \<times> string \<Rightarrow> normalized_headers" where
  "add_header lower new_headers header =
     (let harmonized_key = lower (fst header)
      in case new_headers harmonized_key of
           None \<Rightarrow> new_headers(harmonized_key \<mapsto> snd header)
         | Some slot \<Rightarrow> new_headers(harmonized_key \<mapsto> slot @ '','' @ snd header))"

definition normalize_headers :: "(string \<Rightarrow> string) \<Rightarrow> raw_headers \<Rightarrow> normalized_headers" where
  "normalize_headers lower raw = foldl (add_header lower) Map.empty raw"

text \<open>The specification: the values of one name, in order, joined by commas.\<close>

fun comma_join :: "string list \<Rightarrow> string" where
  "comma_join [] = []"
| "comma_join [v] = v"
| "comma_join (v # vs) = v @ '','' @ comma_join vs"

definition values_of :: "(string \<Rightarrow> string) \<Rightarrow> raw_headers \<Rightarrow> string \<Rightarrow> string list" where
  "values_of lower raw k = map snd (filter (\<lambda>h. lower (fst h) = k) raw)"

lemma comma_join_snoc: "vs \<noteq> [] \<Longrightarrow> comma_join (vs @ [v]) = comma_join vs @ '','' @ v"
  by (induction vs rule: comma_join.induct) simp_all

lemma normalize_headers_snoc:
  "normalize_headers lower (raw @ [h]) = add_header lower (normalize_headers lower raw) h"
  by (simp add: normalize_headers_def)

lemma values_of_snoc:
  "values_of lower (raw @ [h]) k =
     values_of lower raw k @ (if lower (fst h) = k then [snd h] else [])"
  by (simp add: values_of_def)

lemma normalize_headers_values:
  "normalize_headers lower raw k =
     (if values_of lower raw k = [] then None else Some (comma_join (values_of lower raw k)))"
proof (induction raw rule: rev_induct)
  case Nil
  then show ?case by (simp add: normalize_headers_def values_of_def)
next
  case (snoc h raw)
  then show ?case
    by (auto simp: normalize_headers_snoc values_of_snoc add_header_def Let_def comma_join_snoc
        split: option.splits)
qed

subsection \<open>Transport specifications\<close>

datatype port_type = General | Server | Client

datatype port_numbers = Port_number u16 | Port_range u16 u16

text \<open>The variant \<open>parameter\<close>, whose index the code tests with \<open>which()\<close>.\<close>

datatype parameter =
    Ttl u16
  | Port port_type port_numbers
  | Ssrc u32
  | Mode string
  | Other string

record transport_spec =
  transport_protocol :: string
  transport_profile :: string
  lower_transport :: "string option"
  parameters :: "parameter list"

type_synonym transport = "transport_spec list"

record mkn_option_parameters =
  bernoulli_p :: rat
  mkn_fec_k :: u16
  mkn_fec_p :: u16

definition mkn_option_tag :: string where "mkn_option_tag = ''net.markusklemm.options''"
definition mkn_option_header :: string where "mkn_option_header = ''net.markusklemm.options''"

text \<open>The accesses \<open>boost::get<T>(v)\<close>, which throw \<open>bad_get\<close> on another alternative.\<close>

fun get_port :: "parameter \<Rightarrow> (port_type \<times> port_numbers) result" where
  "get_port (Port t n) = Inr (t, n)"
| "get_port _ = Inl Bad_get"

fun get_ssrc :: "parameter \<Rightarrow> u32 result" where
  "get_ssrc (Ssrc s) = Inr s"
| "get_ssrc _ = Inl Bad_get"

fun get_port_number :: "port_numbers \<Rightarrow> u16 result" where
  "get_port_number (Port_number n) = Inr n"
| "get_port_number _ = Inl Bad_get"

text \<open>The predicates of the searches.\<close>

definition is_unicast_rtp_udp :: "transport_spec \<Rightarrow> bool" where
  "is_unicast_rtp_udp value \<longleftrightarrow>
     transport_protocol value = ''RTP'' \<and> transport_profile value = ''AVP'' \<and>
     (case lower_transport value of None \<Rightarrow> ''UDP'' | Some l \<Rightarrow> l) = ''UDP'' \<and>
     parameters value \<noteq> [] \<and> hd (parameters value) = Other ''unicast''"

fun is_port_of :: "port_type list \<Rightarrow> parameter \<Rightarrow> bool" where
  "is_port_of ts (Port t n) = (t \<in> set ts)"
| "is_port_of ts _ = False"

fun is_nonzero_ssrc :: "parameter \<Rightarrow> bool" where
  "is_nonzero_ssrc (Ssrc s) = (s \<noteq> 0)"
| "is_nonzero_ssrc _ = False"

fun is_ssrc :: "parameter \<Rightarrow> bool" where
  "is_ssrc (Ssrc s) = True"
| "is_ssrc _ = False"

fun first_port_number :: "port_numbers \<Rightarrow> u16" where
  "first_port_number (Port_number n) = n"
| "first_port_number (Port_range a b) = a"

text \<open>
  \<open>get_acceptable_transport\<close>. The random port and SSRC are arguments. The server port two above
  the client port is computed in \<open>int\<close> and stored in sixteen bits.
\<close>

definition get_acceptable_transport ::
    "u16 \<Rightarrow> u32 \<Rightarrow> transport \<Rightarrow> transport_spec option result" where
  "get_acceptable_transport drawn_port drawn_ssrc requested =
     (case find is_unicast_rtp_udp requested of
        None \<Rightarrow> Inr None
      | Some spec \<Rightarrow>
          (let client_port =
                 (case find (is_port_of [Client]) (parameters spec) of
                    Some (Port _ n) \<Rightarrow> Port Client (Port_number (first_port_number n))
                  | _ \<Rightarrow> Port Client (Port_number drawn_port));
               ssrc =
                 (case find is_nonzero_ssrc (parameters spec) of
                    Some p \<Rightarrow> p
                  | None \<Rightarrow> Ssrc drawn_ssrc);
               chosen = [Other ''unicast'', client_port, ssrc]
           in rbind
                (case find (is_port_of [Server]) (parameters spec) of
                   Some p \<Rightarrow> Inr p
                 | None \<Rightarrow>
                     rbind (vec_at chosen 1) (\<lambda>p.
                     rbind (get_port p) (\<lambda>(_, n).
                     rbind (get_port_number n) (\<lambda>n.
                     Inr (Port Server (Port_number (n + 2)))))))
                (\<lambda>server_port.
                   Inr (Some \<lparr>transport_protocol = ''RTP'', transport_profile = ''AVP'',
                              lower_transport = Some ''UDP'',
                              parameters = chosen @ [server_port]\<rparr>))))"

text \<open>
  What the client reads from the transport header of a SETUP response, after parsing: the port to
  listen on and the SSRC.
\<close>

definition process_server_transport :: "transport \<Rightarrow> (u16 \<times> u32) result" where
  "process_server_transport specifications =
     (case find is_unicast_rtp_udp specifications of
        None \<Rightarrow> Inl (Runtime_error ''No RTP/AVP/UDP unicast transport option offered by server'')
      | Some spec \<Rightarrow>
          (case find (is_port_of [Client, General]) (parameters spec) of
             None \<Rightarrow> Inl (Runtime_error
               ''No client or general port parameter found in server transport specification'')
           | Some p \<Rightarrow>
               rbind (get_port p) (\<lambda>(_, n).
               case find is_ssrc (parameters spec) of
                 None \<Rightarrow> Inl (Runtime_error
                   ''No ssrc parameter found in server transport specification'')
               | Some s \<Rightarrow> rbind (get_ssrc s) (\<lambda>ssrc. Inr (first_port_number n, ssrc)))))"

subsection \<open>The shape of a chosen transport\<close>

lemma find_port_of: "find (is_port_of ts) ps = Some p \<Longrightarrow> \<exists>t n. p = Port t n \<and> t \<in> set ts"
  by (induction ps) (auto elim: is_port_of.elims split: if_splits)

lemma find_nonzero_ssrc: "find is_nonzero_ssrc ps = Some p \<Longrightarrow> \<exists>s. p = Ssrc s \<and> s \<noteq> 0"
  by (induction ps) (auto elim: is_nonzero_ssrc.elims split: if_splits)

lemma acceptable_transport_cases:
  obtains (none) "find is_unicast_rtp_udp requested = None"
      "get_acceptable_transport dp ds requested = Inr None"
    | (some) client_port ssrc server_numbers spec where
      "find is_unicast_rtp_udp requested = Some spec"
      "get_acceptable_transport dp ds requested = Inr (Some
         \<lparr>transport_protocol = ''RTP'', transport_profile = ''AVP'', lower_transport = Some ''UDP'',
          parameters = [Other ''unicast'', Port Client (Port_number client_port), Ssrc ssrc,
                        Port Server server_numbers]\<rparr>)"
      "find (is_port_of [Server]) (parameters spec) = None \<Longrightarrow>
         server_numbers = Port_number (client_port + 2)"
      "ssrc \<noteq> 0 \<or> ssrc = ds"
proof (cases "find is_unicast_rtp_udp requested")
  case None
  then show ?thesis using none by (simp add: get_acceptable_transport_def)
next
  case (Some spec)
  obtain cp where cp: "(case find (is_port_of [Client]) (parameters spec) of
      Some (Port _ n) \<Rightarrow> Port Client (Port_number (first_port_number n))
    | _ \<Rightarrow> Port Client (Port_number dp)) = Port Client (Port_number cp)"
  proof (cases "find (is_port_of [Client]) (parameters spec)")
    case None
    then show ?thesis using that by simp
  next
    case (Some p)
    then obtain t n where "p = Port t n" using find_port_of by blast
    then show ?thesis using Some that by simp
  qed
  obtain s where s: "(case find is_nonzero_ssrc (parameters spec) of
      Some p \<Rightarrow> p | None \<Rightarrow> Ssrc ds) = Ssrc s" "s \<noteq> 0 \<or> s = ds"
  proof (cases "find is_nonzero_ssrc (parameters spec)")
    case None
    then show ?thesis using that by simp
  next
    case (Some p)
    then obtain s where "p = Ssrc s" "s \<noteq> 0" using find_nonzero_ssrc by blast
    then show ?thesis using Some that by simp
  qed
  show ?thesis
  proof (cases "find (is_port_of [Server]) (parameters spec)")
    case None
    then show ?thesis
      using Some some [of spec cp s "Port_number (cp + 2)"] cp s
      by (simp add: get_acceptable_transport_def Let_def)
  next
    case (Some p)
    then obtain n where "p = Port Server n" using find_port_of by fastforce
    then show ?thesis
      using \<open>find is_unicast_rtp_udp requested = Some spec\<close> Some some [of spec cp s n] cp s
      by (simp add: get_acceptable_transport_def Let_def)
  qed
qed

subsection \<open>Properties\<close>

text \<open>
  Header normalisation. Under its lower-cased name a header has all values
  sent under that name in any spelling, joined by commas in the order they came, and a name
  that was not sent has none.
\<close>

theorem normalize_headers_correct:
  "normalize_headers lower raw k =
     (let vs = map snd (filter (\<lambda>h. lower (fst h) = k) raw)
      in if vs = [] then None else Some (comma_join vs))"
  using normalize_headers_values by (simp add: values_of_def Let_def)

text \<open>
  The transports both sides agree on. For every transport the server accepts,
  whatever was requested and drawn, its choice has exactly four parameters, and the client
  reads from it the very port the server sends to and the very SSRC the server uses; the
  server's own port is two above, modulo 65536, unless the client asked for one.
\<close>

theorem chosen_transport_agreement:
  assumes "get_acceptable_transport dp ds requested = Inr (Some chosen)"
  shows "\<exists>port ssrc server_numbers. parameters chosen =
      [Other ''unicast'', Port Client (Port_number port), Ssrc ssrc, Port Server server_numbers] \<and>
    process_server_transport [chosen] = Inr (port, ssrc) \<and>
    ((\<forall>spec\<in>set requested. \<forall>p\<in>set (parameters spec). \<not> is_port_of [Server] p) \<longrightarrow>
       server_numbers = Port_number (port + 2))"
proof (cases rule: acceptable_transport_cases [where dp = dp and ds = ds and requested = requested])
  case none
  then show ?thesis using assms by simp
next
  case (some port ssrc server_numbers spec)
  have "find (is_port_of [Server]) (parameters spec) = None"
    if "\<forall>spec\<in>set requested. \<forall>p\<in>set (parameters spec). \<not> is_port_of [Server] p"
    using that some(1) by (auto simp: find_None_iff find_Some_iff)
  then show ?thesis
    using assms some
    by (auto simp: process_server_transport_def is_unicast_rtp_udp_def)
qed

definition sample_requested_transport :: transport where
  "sample_requested_transport =
     [\<lparr>transport_protocol = ''RTP'', transport_profile = ''AVP'', lower_transport = None,
       parameters = [Other ''multicast'']\<rparr>,
      \<lparr>transport_protocol = ''RTP'', transport_profile = ''AVP'', lower_transport = None,
       parameters = [Other ''unicast'', Port Client (Port_range 65534 65535)]\<rparr>]"

theorem chosen_transport_agreement_witness:
  "\<exists>chosen. get_acceptable_transport 50000 77 sample_requested_transport = Inr (Some chosen) \<and>
     process_server_transport [chosen] = Inr (65534, 77) \<and>
     parameters chosen ! 3 = Port Server (Port_number 0)"
proof -
  let ?c = "\<lparr>transport_protocol = ''RTP'', transport_profile = ''AVP'', lower_transport = Some ''UDP'',
    parameters = [Other ''unicast'', Port Client (Port_number 65534), Ssrc 77,
                  Port Server (Port_number 0)]\<rparr>"
  have c: "get_acceptable_transport 50000 77 sample_requested_transport = Inr (Some ?c)"
    by (simp add: get_acceptable_transport_def sample_requested_transport_def
        is_unicast_rtp_udp_def Let_def)
  show ?thesis
    using chosen_transport_agreement [OF c] c by auto
qed

end
