(* ===== verification/Rtsp_Methods.thy ===== *)
theory Rtsp_Methods
  imports Rtsp_Headers Rtp_Sender
begin

section \<open>Sessions and method handlers\<close>

text \<open>
  The session object of \<open>rtsp_session.hpp\<close> and the method handlers of \<open>rtsp_methods.cpp\<close>. A
  handler gets the session and the request with its normalised headers; it returns the
  response, or the exception it throws, together with the session it leaves. A session
  owns the RTP sender that \<open>SETUP\<close> creates, which is the transition system of
  \<open>Rtp_Sender\<close>.
\<close>

subsection \<open>Sessions\<close>

datatype session_state = Init | Ready | Playing | Recording

text \<open>
  The constructor with a start state; its condition holds for every state, so it always throws.
\<close>

definition rtsp_session_with_state :: "session_state \<Rightarrow> session_state result" where
  "rtsp_session_with_state start_state =
     (if start_state \<noteq> Init \<or> start_state \<noteq> Ready
      then Inl (Runtime_error ''Invalid start state'') else Inr start_state)"

record rtp_object =
  rtp_destination_address :: string
  rtp_destination_port :: u16
  rtp_source_port :: u16
  rtp_sys :: sender_sys

record server_session =
  state_of :: session_state
  session_identifier :: string
  rtp_session :: "rtp_object option"
  last_seen_request_address :: string

definition new_server_session :: "string \<Rightarrow> server_session" where
  "new_server_session uuid =
     \<lparr>state_of = Init, session_identifier = uuid, rtp_session = None,
      last_seen_request_address = ''''\<rparr>"

subsection \<open>The environment\<close>

text \<open>
  What the handlers use of Boost: lower-casing, the grammars (each with the input it did not
  consume), the generator for the transport header, and the steps of \<open>get_jpeg_stream\<close>: the
  path in a URI, \<open>canonical\<close> relative to the root (\<open>None\<close> for a \<open>filesystem_error\<close>), and the
  octets behind a path.
\<close>

record rtsp_env =
  to_lower :: "string \<Rightarrow> string"
  parse_require :: "string \<Rightarrow> string list \<times> string"
  parse_mkn_options :: "string \<Rightarrow> mkn_option_parameters \<times> string"
  parse_transport :: "string \<Rightarrow> transport \<times> string"
  generate_transport :: "transport \<Rightarrow> string"
  uri_file_name :: "string \<Rightarrow> string option"
  canonical_path :: "string \<Rightarrow> string option"
  file_octets :: "string \<Rightarrow> octets"

text \<open>The outcomes that are not determined by the request.\<close>

record choices =
  drawn_uuid :: string
  drawn_client_port :: u16
  drawn_ssrc :: u32
  drawn_sequence_number :: u16
  drawn_fec_sequence_number :: u16
  socket_bound :: bool

definition get_jpeg_stream :: "rtsp_env \<Rightarrow> string \<Rightarrow> octets option" where
  "get_jpeg_stream env request_uri =
     (case uri_file_name env request_uri of
        None \<Rightarrow> None
      | Some file_name \<Rightarrow> map_option (file_octets env) (canonical_path env file_name))"

subsection \<open>The handlers\<close>

text \<open>\<open>common_response_sekeleton\<close>, spelled as in the code.\<close>

definition common_response_sekeleton ::
    "server_session \<Rightarrow> internal_request \<Rightarrow> response result" where
  "common_response_sekeleton session rq =
     rbind (map_at (snd rq) ''cseq'') (\<lambda>cseq.
       Inr \<lparr>response_version_major = 1, response_version_minor = 0, status_code = 200,
            reason_phrase = ''OK'',
            response_headers = [(''CSeq'', cseq), (''Session'', session_identifier session)]\<rparr>)"

text \<open>
  The first part of \<open>setup\<close>: the options the client requires. \<open>Inl\<close> is the early return
  with an error response, \<open>Inr\<close> the options.
\<close>

definition setup_options ::
    "rtsp_env \<Rightarrow> normalized_headers \<Rightarrow> response \<Rightarrow> response + mkn_option_parameters option" where
  "setup_options env headers response =
     (case headers ''require'' of
        None \<Rightarrow> Inr None
      | Some require \<Rightarrow>
          (let (option_tags, rest) = parse_require env require
           in if rest \<noteq> [] then
                Inl (response\<lparr>status_code := 400, reason_phrase :=
                  ''Bad Request: Could not read transport header after'' @ rest\<rparr>)
              else
              let unsupported = filter (\<lambda>tag. tag \<noteq> mkn_option_tag) option_tags
              in if unsupported \<noteq> [] then
                   Inl (response\<lparr>status_code := 551, reason_phrase := ''Option not supported'',
                     response_headers := response_headers response @
                       map (\<lambda>tag. (''Unsupported'', tag)) unsupported\<rparr>)
                 else case headers mkn_option_header of
                   None \<Rightarrow>
                     Inl (response\<lparr>status_code := 400,
                       reason_phrase := mkn_option_header @ '' header missing''\<rparr>)
                 | Some mkn \<Rightarrow>
                     let (opt, rest) = parse_mkn_options env mkn
                     in if rest \<noteq> [] then
                          Inl (response\<lparr>status_code := 400, reason_phrase :=
                            ''Bad Request: Could not read '' @ mkn_option_header @
                            '' header after '' @ rest\<rparr>)
                        else Inr (Some opt)))"

text \<open>
  The construction of the sender: binding its socket can throw, the options decide the
  constructor.
\<close>

definition make_rtp_session ::
    "choices \<Rightarrow> server_session \<Rightarrow> mkn_option_parameters option \<Rightarrow> u16 \<Rightarrow> u16 \<Rightarrow> u32 \<Rightarrow> octets \<Rightarrow>
       rtp_object result" where
  "make_rtp_session c session options client_port server_port own_ssrc source =
     (if \<not> socket_bound c then Inl System_error
      else
      let sender = (case options of
            Some opt \<Rightarrow> new_jpeg_fec_sender own_ssrc source (drawn_sequence_number c)
                          (drawn_fec_sequence_number c) (mkn_fec_k opt)
          | None \<Rightarrow> new_jpeg_sender own_ssrc source (drawn_sequence_number c)
                      (drawn_fec_sequence_number c))
      in Inr \<lparr>rtp_destination_address = last_seen_request_address session,
              rtp_destination_port = client_port, rtp_source_port = server_port,
              rtp_sys = new_sender_sys sender\<rparr>)"

text \<open>The transport header, if there is one, and the input its grammar did not consume.\<close>

definition requested_transport :: "rtsp_env \<Rightarrow> normalized_headers \<Rightarrow> transport \<times> string" where
  "requested_transport env headers =
     (case headers ''transport'' of Some t \<Rightarrow> parse_transport env t | None \<Rightarrow> ([], []))"

text \<open>
  The end of \<open>setup\<close> before the answer: the ports and the SSRC are read back from the chosen
  transport, each access with the exception it may throw.
\<close>

definition sender_for_transport ::
    "choices \<Rightarrow> server_session \<Rightarrow> mkn_option_parameters option \<Rightarrow> transport_spec \<Rightarrow> octets \<Rightarrow>
       rtp_object result" where
  "sender_for_transport c session options chosen_transport source =
     rbind (vec_at (parameters chosen_transport) 1) (\<lambda>p1. rbind (get_port p1) (\<lambda>(_, n1).
     rbind (get_port_number n1) (\<lambda>client_port.
     rbind (vec_at (parameters chosen_transport) 3) (\<lambda>p3. rbind (get_port p3) (\<lambda>(_, n3).
     rbind (get_port_number n3) (\<lambda>server_port.
     rbind (vec_at (parameters chosen_transport) 2) (\<lambda>p2. rbind (get_ssrc p2) (\<lambda>own_ssrc.
     make_rtp_session c session options client_port server_port own_ssrc source))))))))"

definition methods_setup ::
    "rtsp_env \<Rightarrow> choices \<Rightarrow> server_session \<Rightarrow> internal_request \<Rightarrow> response result \<times> server_session"
where
  "methods_setup env c session rq =
     (case common_response_sekeleton session rq of
        Inl e \<Rightarrow> (Inl e, session)
      | Inr response \<Rightarrow>
     case setup_options env (snd rq) response of
        Inl response \<Rightarrow> (Inr response, session)
      | Inr options \<Rightarrow>
     let (request_transport, rest) = requested_transport env (snd rq)
     in if rest \<noteq> [] then
          (Inr (response\<lparr>status_code := 400, reason_phrase :=
             ''Bad Request: Could not read transport header after'' @ rest\<rparr>), session)
        else
     case get_acceptable_transport (drawn_client_port c) (drawn_ssrc c) request_transport of
        Inl e \<Rightarrow> (Inl e, session)
      | Inr None \<Rightarrow>
          (Inr (response\<lparr>status_code := 461, reason_phrase :=
             ''Unsupported Transport: The Transport field did not contain a supported transport specification.''\<rparr>),
           session)
      | Inr (Some chosen_transport) \<Rightarrow>
     if state_of session \<noteq> Init then
       (Inr (response\<lparr>status_code := 455, reason_phrase := ''Method Not Valid In This State''\<rparr>),
        session)
     else
     case get_jpeg_stream env (uri (fst rq)) of
        None \<Rightarrow>
          (Inr (response\<lparr>status_code := 404,
             reason_phrase :=
               ''Ressource '' @ [CHR 0x22] @ uri (fst rq) @ [CHR 0x22] @ '' Not Found''\<rparr>), session)
      | Some source \<Rightarrow>
     case sender_for_transport c session options chosen_transport source of
        Inl e \<Rightarrow> (Inl e, session)
      | Inr rtp \<Rightarrow>
          (Inr (response\<lparr>response_headers := response_headers response @
             [(''Transport'', generate_transport env [chosen_transport])]\<rparr>),
           session\<lparr>rtp_session := Some rtp, state_of := Ready\<rparr>))"

definition teardown ::
    "server_session \<Rightarrow> internal_request \<Rightarrow> response result \<times> server_session" where
  "teardown session rq = (common_response_sekeleton session rq, session)"

definition on_rtp_session ::
    "(sender_sys \<Rightarrow> sender_sys) \<Rightarrow> server_session \<Rightarrow> server_session result" where
  "on_rtp_session f session =
     (case rtp_session session of
        None \<Rightarrow> Inl (Undefined_behaviour ''null rtp_session'')
      | Some rtp \<Rightarrow> Inr (session\<lparr>rtp_session := Some (rtp\<lparr>rtp_sys := f (rtp_sys rtp)\<rparr>)\<rparr>))"

definition play ::
    "server_session \<Rightarrow> internal_request \<Rightarrow> response result \<times> server_session" where
  "play session rq =
     (case common_response_sekeleton session rq of
        Inl e \<Rightarrow> (Inl e, session)
      | Inr response \<Rightarrow>
          if state_of session = Playing then (Inr response, session)
          else if state_of session \<noteq> Ready then
            (Inr (response\<lparr>status_code := 455,
               reason_phrase := ''Method Not Valid in This State''\<rparr>), session)
          else
            case on_rtp_session sender_start session of
              Inl e \<Rightarrow> (Inl e, session)
            | Inr session \<Rightarrow> (Inr response, session\<lparr>state_of := Playing\<rparr>))"

definition pause ::
    "server_session \<Rightarrow> internal_request \<Rightarrow> response result \<times> server_session" where
  "pause session rq =
     (case common_response_sekeleton session rq of
        Inl e \<Rightarrow> (Inl e, session)
      | Inr response \<Rightarrow>
          if state_of session \<noteq> Playing then
            (Inr (response\<lparr>status_code := 455,
               reason_phrase := ''Method Not Valid in This State''\<rparr>), session)
          else
            case on_rtp_session sender_stop session of
              Inl e \<Rightarrow> (Inl e, session)
            | Inr session \<Rightarrow> (Inr response, session\<lparr>state_of := Ready\<rparr>))"

subsection \<open>What the handlers do, by outcome\<close>

text \<open>A session owns a sender exactly in the states the code dereferences it.\<close>

definition wf_session :: "server_session \<Rightarrow> bool" where
  "wf_session s \<longleftrightarrow>
     (rtp_session s \<noteq> None \<longleftrightarrow> state_of s = Ready \<or> state_of s = Playing) \<and> state_of s \<noteq> Recording"

text \<open>A response of RTSP 1.0 that starts with the skeleton's two headers.\<close>

definition echoes :: "string \<Rightarrow> string \<Rightarrow> response \<Rightarrow> bool" where
  "echoes cseq identifier r \<longleftrightarrow>
     response_version_major r = 1 \<and> response_version_minor r = 0 \<and>
     (\<exists>more. response_headers r = (''CSeq'', cseq) # (''Session'', identifier) # more)"

definition setup_error_codes :: "u16 set" where
  "setup_error_codes = {400, 404, 455, 461, 551}"

abbreviation ok_response :: "string \<Rightarrow> server_session \<Rightarrow> response" where
  "ok_response cseq s \<equiv>
     \<lparr>response_version_major = 1, response_version_minor = 0, status_code = 200,
      reason_phrase = ''OK'',
      response_headers = [(''CSeq'', cseq), (''Session'', session_identifier s)]\<rparr>"

lemma skeleton_eq:
  "snd rq ''cseq'' = Some v \<Longrightarrow> common_response_sekeleton s rq = Inr (ok_response v s)"
  by (simp add: common_response_sekeleton_def)

text \<open>The transport that a SETUP is answered with.\<close>

abbreviation agreed_transport :: "u16 \<Rightarrow> u32 \<Rightarrow> port_numbers \<Rightarrow> transport_spec" where
  "agreed_transport cp own_ssrc server_numbers \<equiv>
     \<lparr>transport_protocol = ''RTP'', transport_profile = ''AVP'', lower_transport = Some ''UDP'',
      parameters = [Other ''unicast'', Port Client (Port_number cp), Ssrc own_ssrc,
                    Port Server server_numbers]\<rparr>"

lemma setup_options_error:
  assumes "setup_options env headers response = Inl r"
  shows "status_code r \<in> {400, 551} \<and>
    response_version_major r = response_version_major response \<and>
    response_version_minor r = response_version_minor response \<and>
    (\<exists>more. response_headers r = response_headers response @ more)"
  using assms
  by (auto simp: setup_options_def Let_def split: option.splits prod.splits if_splits)

lemma sender_for_transport_eval:
  assumes "parameters chosen =
    [Other u, Port Client (Port_number cp), Ssrc ss, Port Server sn]"
  shows "sender_for_transport c s options chosen source =
    rbind (get_port_number sn) (\<lambda>sp. make_rtp_session c s options cp sp ss source)"
  using assms by (simp add: sender_for_transport_def)

lemma sender_for_transport_error:
  assumes "parameters chosen =
      [Other u, Port Client (Port_number cp), Ssrc ss, Port Server sn]"
    and "sender_for_transport c s options chosen source = Inl e"
  shows "e = Bad_get \<or> e = System_error"
  using assms(2) unfolding sender_for_transport_eval [OF assms(1)]
  by (cases sn) (auto simp: make_rtp_session_def Let_def split: if_splits)

lemma methods_setup_cases:
  assumes cseq: "snd rq ''cseq'' = Some v" and run: "methods_setup env c s rq = (res, s')"
  obtains (refuses) r where "res = Inr r" "s' = s" "status_code r \<in> setup_error_codes"
      "echoes v (session_identifier s) r"
    | (throws) "res = Inl Bad_get \<or> res = Inl System_error" "s' = s"
    | (succeeds) requested options cp own_ssrc sp source rtp where
      "state_of s = Init" "requested_transport env (snd rq) = (requested, [])"
      "setup_options env (snd rq) (ok_response v s) = Inr options"
      "get_acceptable_transport (drawn_client_port c) (drawn_ssrc c) requested =
         Inr (Some (agreed_transport cp own_ssrc (Port_number sp)))"
      "get_jpeg_stream env (uri (fst rq)) = Some source"
      "make_rtp_session c s options cp sp own_ssrc source = Inr rtp"
      "res = Inr ((ok_response v s)\<lparr>response_headers := response_headers (ok_response v s) @
         [(''Transport'', generate_transport env [agreed_transport cp own_ssrc (Port_number sp)])]\<rparr>)"
      "s' = s\<lparr>rtp_session := Some rtp, state_of := Ready\<rparr>"
proof -
  note defs = methods_setup_def skeleton_eq [OF cseq] and codes = setup_error_codes_def echoes_def
  show ?thesis
  proof (cases "setup_options env (snd rq) (ok_response v s)")
    case (Inl r)
    then have "status_code r \<in> setup_error_codes" "echoes v (session_identifier s) r"
      using setup_options_error [OF Inl] by (auto simp: codes)
    then show ?thesis using Inl run refuses [of r] by (simp add: defs)
  next
    case (Inr options)
    obtain requested rest where t: "requested_transport env (snd rq) = (requested, rest)"
      by force
    show ?thesis
    proof (cases "rest \<noteq> [] \<or> find is_unicast_rtp_udp requested = None")
      case True
      then show ?thesis
        using run Inr t refuses
        by (auto simp: defs get_acceptable_transport_def codes split: if_splits)
    next
      case False
      then obtain cp own sn where chosen: "get_acceptable_transport (drawn_client_port c)
          (drawn_ssrc c) requested = Inr (Some (agreed_transport cp own sn))"
        by (cases rule: acceptable_transport_cases [where dp = "drawn_client_port c" and
              ds = "drawn_ssrc c" and requested = requested]) auto
      have rest: "rest = []" using False by simp
      show ?thesis
      proof (cases "state_of s = Init \<and> get_jpeg_stream env (uri (fst rq)) \<noteq> None")
        case False
        then show ?thesis
          using run Inr t rest chosen refuses
          by (auto simp: defs codes split: if_splits option.splits)
      next
        case True
        then obtain source where s: "state_of s = Init"
            "get_jpeg_stream env (uri (fst rq)) = Some source" by auto
        show ?thesis
        proof (cases "sender_for_transport c s options (agreed_transport cp own sn) source")
          case e: (Inl e)
          then have "e = Bad_get \<or> e = System_error"
            by (rule sender_for_transport_error [rotated]) simp
          then show ?thesis using e run Inr t rest chosen s throws by (auto simp: defs)
        next
          case ok: (Inr rtp)
          then obtain sp where sp: "sn = Port_number sp"
              "make_rtp_session c s options cp sp own source = Inr rtp"
            by (cases sn) (auto simp: sender_for_transport_eval)
          show ?thesis
            using run Inr t rest chosen s ok sp
              succeeds [of requested options cp own sp source rtp]
            by (auto simp: defs)
        qed
      qed
    qed
  qed
qed

lemma made_sender:
  assumes "make_rtp_session c s options cp sp own_ssrc source = Inr rtp"
  obtains s0 where "rtp_sys rtp = new_sender_sys s0" "\<not> running s0" "tx_ssrc s0 = own_ssrc"
      "jpeg_source s0 = source" "tx_fec_generator s0 =
         (case options of None \<Rightarrow> None | Some opt \<Rightarrow> Some (new_fec_generator (mkn_fec_k opt)))"
      "rtp_destination_address rtp = last_seen_request_address s"
      "rtp_destination_port rtp = cp" "rtp_source_port rtp = sp"
  using assms that
  by (cases options)
    (auto simp: make_rtp_session_def Let_def new_jpeg_sender_def new_jpeg_fec_sender_def
      split: if_splits)

text \<open>The other handlers, evaluated.\<close>

lemma teardown_eq:
  "snd rq ''cseq'' = Some v \<Longrightarrow>
   teardown s rq = (Inr \<lparr>response_version_major = 1, response_version_minor = 0, status_code = 200,
     reason_phrase = ''OK'',
     response_headers = [(''CSeq'', v), (''Session'', session_identifier s)]\<rparr>, s)"
  by (simp add: teardown_def skeleton_eq)

abbreviation invalid_response :: "string \<Rightarrow> server_session \<Rightarrow> response" where
  "invalid_response cseq s \<equiv>
     (ok_response cseq s)\<lparr>status_code := 455, reason_phrase := ''Method Not Valid in This State''\<rparr>"

lemma play_eq:
  assumes "snd rq ''cseq'' = Some v" and "wf_session s"
  shows "play s rq = (case rtp_session s of
      None \<Rightarrow> (Inr (invalid_response v s), s)
    | Some rtp \<Rightarrow>
        (Inr (ok_response v s),
         if state_of s = Playing then s
         else s\<lparr>rtp_session := Some (rtp\<lparr>rtp_sys := sender_start (rtp_sys rtp)\<rparr>),
                state_of := Playing\<rparr>))"
  using assms
  by (cases "state_of s"; cases "rtp_session s")
    (simp_all add: play_def skeleton_eq on_rtp_session_def wf_session_def)

lemma pause_eq:
  assumes "snd rq ''cseq'' = Some v" and "wf_session s"
  shows "pause s rq = (case rtp_session s of
      Some rtp \<Rightarrow>
        if state_of s = Playing then
          (Inr (ok_response v s),
           s\<lparr>rtp_session := Some (rtp\<lparr>rtp_sys := sender_stop (rtp_sys rtp)\<rparr>), state_of := Ready\<rparr>)
        else (Inr (invalid_response v s), s)
    | None \<Rightarrow> (Inr (invalid_response v s), s))"
  using assms
  by (cases "state_of s"; cases "rtp_session s")
    (simp_all add: pause_def skeleton_eq on_rtp_session_def wf_session_def)

subsection \<open>The contract of a method handler\<close>

text \<open>
  What the server relies on when it calls a handler from its table of methods. A session is in
  order when it is well formed and its sender is in a state that the life cycle of a sender
  reaches.
\<close>

definition session_ok :: "spirit \<Rightarrow> uint_parser \<Rightarrow> server_session \<Rightarrow> bool" where
  "session_ok sp up s \<longleftrightarrow> wf_session s \<and>
     (\<forall>rtp. rtp_session s = Some rtp \<longrightarrow>
        (\<exists>s0 sent exns. sender_reach sp up s0 sent exns (rtp_sys rtp)))"

definition sessions_ok :: "spirit \<Rightarrow> uint_parser \<Rightarrow> (string \<rightharpoonup> server_session) \<Rightarrow> bool" where
  "sessions_ok sp up m \<longleftrightarrow>
     (\<forall>k s. m k = Some s \<longrightarrow> session_identifier s = k \<and> session_ok sp up s)"

definition method_codes :: "u16 set" where
  "method_codes = insert 200 setup_error_codes"

locale rtsp_method =
  fixes run :: "server_session \<Rightarrow> internal_request \<Rightarrow> response result \<times> server_session"
  assumes answers: "snd rq ''cseq'' = Some v \<Longrightarrow> wf_session s \<Longrightarrow> run s rq = (Inr r, s') \<Longrightarrow>
      echoes v (session_identifier s) r \<and> status_code r \<in> method_codes \<and>
      (status_code r = 200 \<or> s' = s)"
    and throws: "snd rq ''cseq'' = Some v \<Longrightarrow> wf_session s \<Longrightarrow> run s rq = (Inl e, s') \<Longrightarrow>
      (e = Bad_get \<or> e = System_error) \<and> s' = s"
    and keeps_session: "snd rq ''cseq'' = Some v \<Longrightarrow> session_ok sp up s \<Longrightarrow> run s rq = (res, s') \<Longrightarrow>
      session_ok sp up s' \<and> session_identifier s' = session_identifier s"
begin

lemma keeps_sessions:
  assumes "sessions_ok sp up m" and "session_ok sp up s" and "session_identifier s = k"
    and "snd rq ''cseq'' = Some v" and "run s rq = (res, s')"
  shows "sessions_ok sp up (m(k \<mapsto> s'))"
  using assms keeps_session [of rq v sp up s res s'] by (auto simp: sessions_ok_def)

end

lemma session_okD: "session_ok sp up s \<Longrightarrow> wf_session s"
  by (simp add: session_ok_def)

text \<open>Calling \<open>start\<close> and \<open>stop\<close> are steps of the sender's life cycle.\<close>

lemma sender_reach_start_stop:
  assumes "sender_reach sp up s0 sent exns y"
  shows "sender_reach sp up s0 sent exns (sender_start y)"
    and "sender_reach sp up s0 sent exns (sender_stop y)"
  using sender_reach.step [OF assms, of Start] sender_reach.step [OF assms, of Stop]
  by (simp_all add: sender_step_def)

lemma method_codes_simps [simp]:
  "200 \<in> method_codes" "455 \<in> method_codes" "k \<in> setup_error_codes \<Longrightarrow> k \<in> method_codes"
  by (simp_all add: method_codes_def setup_error_codes_def)

interpretation methods_setup: rtsp_method "methods_setup env c" for env c
proof
  fix rq :: internal_request and v s r s' e res sp up
  assume cseq: "snd rq ''cseq'' = Some v"
  show "echoes v (session_identifier s) r \<and> status_code r \<in> method_codes \<and>
      (status_code r = 200 \<or> s' = s)"
    if "methods_setup env c s rq = (Inr r, s')"
    using cseq that by (cases rule: methods_setup_cases) (auto simp: echoes_def)
  show "(e = Bad_get \<or> e = System_error) \<and> s' = s" if "methods_setup env c s rq = (Inl e, s')"
    using cseq that by (cases rule: methods_setup_cases) auto
  show "session_ok sp up s' \<and> session_identifier s' = session_identifier s"
    if ok: "session_ok sp up s" and run: "methods_setup env c s rq = (res, s')"
    using cseq run
  proof (cases rule: methods_setup_cases)
    case (succeeds requested options cp own_ssrc server_port source rtp)
    from succeeds(6) obtain s0 where "rtp_sys rtp = new_sender_sys s0" "\<not> running s0"
      by (rule made_sender)
    then show ?thesis
      using succeeds sender_reach.created [of s0 sp up]
      by (auto simp: session_ok_def wf_session_def)
  qed (use ok in auto)
qed

interpretation teardown: rtsp_method teardown
  by unfold_locales (auto simp: teardown_eq echoes_def method_codes_def)

interpretation play: rtsp_method play
proof
  fix rq :: internal_request and v s r s' e res sp up
  assume cseq: "snd rq ''cseq'' = Some v"
  show "echoes v (session_identifier s) r \<and> status_code r \<in> method_codes \<and>
      (status_code r = 200 \<or> s' = s)"
    if "wf_session s" "play s rq = (Inr r, s')"
    using play_eq [OF cseq that(1)] that(2) by (auto simp: echoes_def split: option.splits if_splits)
  show "(e = Bad_get \<or> e = System_error) \<and> s' = s" if "wf_session s" "play s rq = (Inl e, s')"
    using play_eq [OF cseq that(1)] that(2) by (simp split: option.splits if_splits)
  show "session_ok sp up s' \<and> session_identifier s' = session_identifier s"
    if ok: "session_ok sp up s" and run: "play s rq = (res, s')"
    using play_eq [OF cseq session_okD [OF ok]] run ok
    by (auto simp: session_ok_def wf_session_def dest: sender_reach_start_stop
        split: option.splits if_splits)
qed

interpretation pause: rtsp_method pause
proof
  fix rq :: internal_request and v s r s' e res sp up
  assume cseq: "snd rq ''cseq'' = Some v"
  show "echoes v (session_identifier s) r \<and> status_code r \<in> method_codes \<and>
      (status_code r = 200 \<or> s' = s)"
    if "wf_session s" "pause s rq = (Inr r, s')"
    using pause_eq [OF cseq that(1)] that(2) by (auto simp: echoes_def split: option.splits if_splits)
  show "(e = Bad_get \<or> e = System_error) \<and> s' = s" if "wf_session s" "pause s rq = (Inl e, s')"
    using pause_eq [OF cseq that(1)] that(2) by (simp split: option.splits if_splits)
  show "session_ok sp up s' \<and> session_identifier s' = session_identifier s"
    if ok: "session_ok sp up s" and run: "pause s rq = (res, s')"
    using pause_eq [OF cseq session_okD [OF ok]] run ok
    by (auto simp: session_ok_def wf_session_def dest: sender_reach_start_stop
        split: option.splits if_splits)
qed

subsection \<open>A sender that nothing starts again\<close>

definition sender_idle :: "sender_sys \<Rightarrow> bool" where
  "sender_idle y \<longleftrightarrow> \<not> running (the_sender y) \<and> timer_chains y = 0"

lemma idle_step:
  assumes "sender_idle y" and "sender_step sp up e y = Some (res, y')" and "e \<noteq> Start"
  shows "res = Inr [] \<and> sender_idle y'"
  using assms
  by (cases e) (auto simp: sender_idle_def sender_step_def sender_stop_def
      timer_chains_def arm_timer_def cancel_waits_def Let_def
      split: list.splits strand_task.splits if_splits)

lemma idle_until_start:
  "sender_idle y \<Longrightarrow> Start \<notin> set es \<Longrightarrow>
   fst (sender_run sp up es y) = [] \<and> sender_idle (snd (sender_run sp up es y))"
proof (induction es arbitrary: y)
  case (Cons e es)
  show ?case
  proof (cases "sender_step sp up e y")
    case None
    then show ?thesis using Cons by simp
  next
    case (Some p)
    obtain res y' where p: "p = (res, y')" by force
    then show ?thesis
      using Some idle_step [OF Cons.prems(1), of sp up e res y'] Cons.IH [of y'] Cons.prems(2)
      by (auto simp: split_def Let_def)
  qed
qed simp

subsection \<open>Properties\<close>

text \<open>
  A successful SETUP. The only way to the answer 200 is from the initial
  state to the ready state; the answer has exactly the headers for the sequence number, the
  session and the transport, and the sender the session then owns is the one the answer
  announces: it sends to the address of the requester, from the announced server port, to the
  very port and with the very SSRC that the client reads out of the transport, takes its frames
  from the stream behind the URI and emits parity packets exactly as the options ask for.
\<close>

theorem setup_success_wires_the_stream:
  assumes "methods_setup env c s rq = (Inr r, s')" and "status_code r = 200"
  shows "\<exists>cseq chosen options source rtp s0.
    snd rq ''cseq'' = Some cseq \<and> state_of s = Init \<and> state_of s' = Ready \<and>
    response_headers r = [(''CSeq'', cseq), (''Session'', session_identifier s),
      (''Transport'', generate_transport env [chosen])] \<and>
    rtp_session s' = Some rtp \<and> rtp_sys rtp = new_sender_sys s0 \<and>
    process_server_transport [chosen] = Inr (rtp_destination_port rtp, tx_ssrc s0) \<and>
    Port Server (Port_number (rtp_source_port rtp)) \<in> set (parameters chosen) \<and>
    rtp_destination_address rtp = last_seen_request_address s \<and>
    get_jpeg_stream env (uri (fst rq)) = Some source \<and> jpeg_source s0 = source \<and>
    setup_options env (snd rq) (ok_response cseq s) = Inr options \<and>
    tx_fec_generator s0 = map_option (\<lambda>opt. new_fec_generator (mkn_fec_k opt)) options"
proof -
  obtain v where v: "snd rq ''cseq'' = Some v"
  proof (cases "snd rq ''cseq''")
    case None
    then show ?thesis
      using assms(1) by (simp add: methods_setup_def common_response_sekeleton_def map_at_def)
  qed
  from v assms(1) show ?thesis
  proof (cases rule: methods_setup_cases)
    case (refuses r)
    then show ?thesis using assms(2) by (auto simp: setup_error_codes_def)
  next
    case throws
    then show ?thesis by auto
  next
    case (succeeds requested options cp own_ssrc server_port source rtp)
    from succeeds(6) obtain s0 where s0: "rtp_sys rtp = new_sender_sys s0" "tx_ssrc s0 = own_ssrc"
      "jpeg_source s0 = source"
      "tx_fec_generator s0 = map_option (\<lambda>opt. new_fec_generator (mkn_fec_k opt)) options"
      "rtp_destination_address rtp = last_seen_request_address s"
      "rtp_destination_port rtp = cp" "rtp_source_port rtp = server_port"
      by (rule made_sender) (auto simp: map_option_case)
    show ?thesis
      by (rule exI [of _ v], rule exI [of _ "agreed_transport cp own_ssrc (Port_number server_port)"],
          rule exI [of _ options], rule exI [of _ source], rule exI [of _ rtp], rule exI [of _ s0])
        (use v succeeds s0 in
          \<open>simp add: process_server_transport_def is_unicast_rtp_udp_def\<close>)
  qed
qed

text \<open>An environment with a fixed file and a grammar that always reads the same transport.\<close>

definition sample_env :: rtsp_env where
  "sample_env =
     \<lparr>to_lower = (\<lambda>s. if s = ''CSeq'' then ''cseq'' else if s = ''Transport'' then ''transport''
        else if s = ''Session'' then ''session'' else s),
      parse_require = (\<lambda>s. ([s], [])),
      parse_mkn_options = (\<lambda>_. (\<lparr>bernoulli_p = 1/2, mkn_fec_k = 3, mkn_fec_p = 1\<rparr>, [])),
      parse_transport = (\<lambda>_. (sample_requested_transport, [])),
      generate_transport = (\<lambda>_. ''RTP/AVP''), uri_file_name = Some,
      canonical_path = Some, file_octets = (\<lambda>_. ascii_digits 1 @ [9])\<rparr>"

definition sample_choices :: choices where
  "sample_choices =
     \<lparr>drawn_uuid = ''u1'', drawn_client_port = 50000, drawn_ssrc = 77, drawn_sequence_number = 65535,
      drawn_fec_sequence_number = 3, socket_bound = True\<rparr>"

definition sample_setup :: internal_request where
  "sample_setup =
     (\<lparr>method_or_extension = ''SETUP'', uri = ''m'', request_version_major = 1,
       request_version_minor = 0, request_headers = []\<rparr>,
      [''cseq'' \<mapsto> ''1'', ''transport'' \<mapsto> ''t'', ''require'' \<mapsto> mkn_option_tag,
       mkn_option_header \<mapsto> ''o''])"

lemmas sample_defs = sample_env_def sample_choices_def sample_setup_def sample_requested_transport_def

lemma sample_setup_run:
  "\<exists>r s'. methods_setup sample_env sample_choices (new_server_session ''u1'') sample_setup =
     (Inr r, s') \<and> status_code r = 200"
  by (simp add: methods_setup_def sample_defs common_response_sekeleton_def map_at_def
      new_server_session_def setup_options_def Let_def mkn_option_tag_def mkn_option_header_def
      requested_transport_def get_acceptable_transport_def is_unicast_rtp_udp_def
      get_jpeg_stream_def sender_for_transport_def make_rtp_session_def)

theorem setup_success_wires_the_stream_witness:
  "\<exists>r s' rtp s0. methods_setup sample_env sample_choices (new_server_session ''u1'') sample_setup =
     (Inr r, s') \<and> rtp_session s' = Some rtp \<and> rtp_sys rtp = new_sender_sys s0 \<and>
     jpeg_source s0 = ascii_digits 1 @ [9]"
proof -
  obtain r s' where run: "methods_setup sample_env sample_choices (new_server_session ''u1'')
      sample_setup = (Inr r, s')" "status_code r = 200"
    using sample_setup_run by blast
  have "get_jpeg_stream sample_env (uri (fst sample_setup)) = Some (ascii_digits 1 @ [9])"
    by (simp add: get_jpeg_stream_def sample_defs)
  then show ?thesis
    using setup_success_wires_the_stream [OF run] run by auto
qed

text \<open>
  C35 (liveness): PAUSE and PLAY can silence a session. When a PLAY is handled after a PAUSE
  whose cancelled wait has not completed yet, both are answered 200 and the session is
  playing; but \<open>start\<close> finds the flag still set and arms nothing, and the cancelled handler then
  clears it. From there nothing is sent, whatever tasks and events follow, although the
  source has frames left, and further PLAY requests are answered 200 and change nothing.
\<close>

theorem pause_play_race:
  assumes "snd rq1 ''cseq'' = Some v1" and "snd rq2 ''cseq'' = Some v2"
    and "wf_session s" and "state_of s = Playing" and "rtp_session s = Some rtp"
    and "running (the_sender (rtp_sys rtp))" and "strand_tasks (rtp_sys rtp) = []"
    and "timer_waits (rtp_sys rtp) = 1" and "completed_waits (rtp_sys rtp) = []"
  shows "\<exists>r1 s1 r2 s2 rtp2 y.
    pause s rq1 = (Inr r1, s1) \<and> status_code r1 = 200 \<and>
    play s1 rq2 = (Inr r2, s2) \<and> status_code r2 = 200 \<and>
    state_of s2 = Playing \<and> rtp_session s2 = Some rtp2 \<and>
    sender_run sp up [Run_task, Run_handler draws] (rtp_sys rtp2) = ([], y) \<and>
    jpeg_source (the_sender y) = jpeg_source (the_sender (rtp_sys rtp)) \<and>
    (\<forall>events. Start \<notin> set events \<longrightarrow> fst (sender_run sp up events y) = []) \<and>
    (let silenced = s2\<lparr>rtp_session := Some (rtp2\<lparr>rtp_sys := y\<rparr>)\<rparr>
     in play silenced rq2 = (Inr r2, silenced))"
proof -
  let ?y1 = "sender_stop (rtp_sys rtp)"
  let ?s1 = "s\<lparr>rtp_session := Some (rtp\<lparr>rtp_sys := ?y1\<rparr>), state_of := Ready\<rparr>"
  let ?s2 = "?s1\<lparr>state_of := Playing\<rparr>"
  let ?y = "(rtp_sys rtp)\<lparr>the_sender := (the_sender (rtp_sys rtp))\<lparr>running := False\<rparr>,
    timer_waits := 0\<rparr>"
  have "pause s rq1 = (Inr (ok_response v1 s), ?s1)"
    using assms by (simp add: pause_eq)
  moreover have "wf_session ?s1" by (simp add: wf_session_def)
  then have "play ?s1 rq2 = (Inr (ok_response v2 s), ?s2)"
    using assms by (simp add: play_eq sender_start_def sender_stop_def)
  moreover have "sender_run sp up [Run_task, Run_handler draws] ?y1 = ([], ?y)"
    using assms(6-9)
    by (simp add: sender_stop_def sender_step_def cancel_waits_def send_next_packet_handler_def
        Let_def)
  moreover have "sender_idle ?y"
    using assms(7-9) by (simp add: sender_idle_def timer_chains_def)
  moreover have "play (?s2\<lparr>rtp_session := Some (rtp\<lparr>rtp_sys := ?y\<rparr>)\<rparr>) rq2 =
      (Inr (ok_response v2 s), ?s2\<lparr>rtp_session := Some (rtp\<lparr>rtp_sys := ?y\<rparr>)\<rparr>)"
    using assms(2) by (simp add: play_eq wf_session_def)
  ultimately show ?thesis
    using idle_until_start [of ?y _ sp up]
    by (intro exI [of _ "ok_response v1 s"] exI [of _ ?s1] exI [of _ "ok_response v2 s"]
        exI [of _ ?s2] exI [of _ "rtp\<lparr>rtp_sys := ?y1\<rparr>"] exI [of _ ?y])
      (simp add: Let_def)
qed

definition playing_session :: server_session where
  "playing_session = (new_server_session ''u1'')\<lparr>state_of := Playing, rtp_session := Some
     \<lparr>rtp_destination_address = ''10.0.0.1'', rtp_destination_port = 50000, rtp_source_port = 50002,
      rtp_sys = (new_sender_sys (sample_sender\<lparr>running := True\<rparr>))\<lparr>timer_waits := 1\<rparr>\<rparr>\<rparr>"

theorem pause_play_race_witness:
  "\<exists>s1 s2 r1 r2. pause playing_session sample_setup = (Inr r1, s1) \<and>
     play s1 sample_setup = (Inr r2, s2) \<and> state_of s2 = Playing"
proof -
  have "snd sample_setup ''cseq'' = Some ''1''"
    by (simp add: sample_setup_def mkn_option_header_def)
  then show ?thesis
    using pause_play_race [of sample_setup "''1''" sample_setup "''1''" playing_session
        "the (rtp_session playing_session)" octet_spirit ascii_uint_parse "(False, False)"]
    by (auto simp del: sender_run.simps simp: playing_session_def new_server_session_def wf_session_def new_sender_sys_def)
qed

end
