(* ===== verification/Rtsp_Server.thy ===== *)
theory Rtsp_Server
  imports Rtsp_Methods
begin

section \<open>The server state\<close>

text \<open>
  \<open>rtsp_server_state\<close> of \<open>rtsp_server_internals.cpp\<close>: the sessions by identifier, the
  identifiers by host, the dispatch of a request and the timeout of a host. All operations run
  under the mutex of the sessions and are functions on the state. The specification is the
  state table of RFC 2326 for the methods the server offers.
\<close>

subsection \<open>State and dispatch\<close>

text \<open>The multimap from hosts to session identifiers is a list in the order of insertion.\<close>

record server_state =
  sessions :: "string \<rightharpoonup> server_session"
  sessions_by_host :: "(string \<times> string) list"

definition new_server_state :: server_state where
  "new_server_state = \<lparr>sessions = Map.empty, sessions_by_host = []\<rparr>"

definition server_options :: "internal_request \<Rightarrow> response result" where
  "server_options rq =
     rbind (map_at (snd rq) ''cseq'') (\<lambda>cseq.
       Inr \<lparr>response_version_major = 1, response_version_minor = 0, status_code = 200,
            reason_phrase = ''OK'',
            response_headers = [(''CSeq'', cseq), (''Public'', ''SETUP, TEARDOWN, PLAY, PAUSE'')]\<rparr>)"

text \<open>The table of methods.\<close>

definition server_methods ::
    "rtsp_env \<Rightarrow> choices \<Rightarrow>
       (string \<rightharpoonup> (server_session \<Rightarrow> internal_request \<Rightarrow> response result \<times> server_session))" where
  "server_methods env c =
     [''OPTIONS'' \<mapsto> (\<lambda>session rq. (server_options rq, session)),
      ''SETUP'' \<mapsto> methods_setup env c,
      ''TEARDOWN'' \<mapsto> teardown,
      ''PLAY'' \<mapsto> play,
      ''PAUSE'' \<mapsto> pause]"

definition delete_session :: "string \<Rightarrow> server_state \<Rightarrow> server_state" where
  "delete_session identifier st = st\<lparr>sessions := (sessions st)(identifier := None)\<rparr>"

text \<open>Calling a handler on a session in the map, which it updates in place.\<close>

definition call_method ::
    "rtsp_env \<Rightarrow> choices \<Rightarrow> string \<Rightarrow> string \<Rightarrow> server_session \<Rightarrow> internal_request \<Rightarrow> server_state \<Rightarrow>
       response result \<times> server_state" where
  "call_method env c m identifier session rq st =
     (case map_at (server_methods env c) m of
        Inl e \<Rightarrow> (Inl e, st\<lparr>sessions := (sessions st)(identifier \<mapsto> session)\<rparr>)
      | Inr run \<Rightarrow>
          (let (res, session) = run session rq
           in (res, st\<lparr>sessions := (sessions st)(identifier \<mapsto> session)\<rparr>)))"

text \<open>SETUP outside a session. \<open>emplace\<close> keeps a session that is already there.\<close>

definition setup_new_session ::
    "rtsp_env \<Rightarrow> choices \<Rightarrow> internal_request \<Rightarrow> string \<Rightarrow> server_state \<Rightarrow>
       response result \<times> server_state" where
  "setup_new_session env c rq requester st =
     (let new_session = new_server_session (drawn_uuid c);
          identifier = session_identifier new_session;
          inserted_session = (case sessions st identifier of
            None \<Rightarrow> new_session | Some s \<Rightarrow> s)\<lparr>last_seen_request_address := requester\<rparr>
      in call_method env c (method_or_extension (fst rq)) identifier inserted_session rq
           (st\<lparr>sessions_by_host :=
              sessions_by_host st @ [(requester, session_identifier inserted_session)]\<rparr>))"

definition refusal :: "u16 \<Rightarrow> string \<Rightarrow> raw_headers \<Rightarrow> response" where
  "refusal code reason headers =
     \<lparr>response_version_major = 1, response_version_minor = 0, status_code = code,
      reason_phrase = reason, response_headers = headers\<rparr>"

definition not_implemented :: "string \<Rightarrow> string" where
  "not_implemented m = [CHR 0x22] @ m @ [CHR 0x22] @ '' not implemented''"

definition handle_incoming_request ::
    "rtsp_env \<Rightarrow> choices \<Rightarrow> server_state \<Rightarrow> request \<Rightarrow> string \<Rightarrow> response result \<times> server_state" where
  "handle_incoming_request env c st rq requester =
     (let headers = normalize_headers (to_lower env) (request_headers rq);
          m = method_or_extension rq
      in if headers ''cseq'' = None \<or> headers ''cseq'' = Some [] then
           (Inr (refusal 400 ''Bad Request: CSeq missing'' []), st)
         else
         let cseq = the (headers ''cseq'')
         in if m = ''OPTIONS'' then (server_options (rq, headers), st)
         else if m = ''DESCRIBE'' then (Inr (refusal 501 (not_implemented m) [(''CSeq'', cseq)]), st)
         else if m = ''SETUP'' \<and> headers ''session'' \<noteq> None then
           (Inr (refusal 459 ''Aggregate Operation Not Allowed'' [(''CSeq'', cseq)]), st)
         else if m = ''SETUP'' then setup_new_session env c (rq, headers) requester st
         else case headers ''session'' of
           None \<Rightarrow> (Inr (refusal 400 ''Session header not found'' [(''CSeq'', cseq)]), st)
         | Some identifier \<Rightarrow>
             if server_methods env c m \<noteq> None then
               (case sessions st identifier of
                  None \<Rightarrow> (Inr (refusal 454 ''Session not found'' [(''CSeq'', cseq)]), st)
                | Some session \<Rightarrow>
                    (case call_method env c m identifier
                        (session\<lparr>last_seen_request_address := requester\<rparr>) (rq, headers) st of
                       (Inl e, st) \<Rightarrow> (Inl e, st)
                     | (Inr response, st) \<Rightarrow>
                         (Inr response, if m = ''TEARDOWN'' then delete_session identifier st else st)))
             else (Inr (refusal 501 (not_implemented m) [(''CSeq'', cseq)]), st))"

subsection \<open>The timeout of a host\<close>

function handle_timeout_of_host :: "string \<Rightarrow> server_state \<Rightarrow> server_state" where
  "handle_timeout_of_host host st =
     (case find (\<lambda>e. fst e = host) (sessions_by_host st) of
        None \<Rightarrow> st
      | Some e \<Rightarrow>
          handle_timeout_of_host host
            ((if sessions st (snd e) \<noteq> None then delete_session (snd e) st else st)
               \<lparr>sessions_by_host := remove1 e (sessions_by_host st)\<rparr>))"
  by pat_completeness auto
termination
proof (relation "measure (\<lambda>(host, st). length (sessions_by_host st))")
  fix host e and st :: server_state
  assume "find (\<lambda>e. fst e = host) (sessions_by_host st) = Some e"
  then have "e \<in> set (sessions_by_host st)" by (auto simp: find_Some_iff)
  then show "((host, (if sessions st (snd e) \<noteq> None then delete_session (snd e) st else st)
      \<lparr>sessions_by_host := remove1 e (sessions_by_host st)\<rparr>), host, st)
    \<in> measure (\<lambda>(host, st). length (sessions_by_host st))"
    by (auto simp: length_remove1 dest: length_pos_if_in_set)
qed simp

declare handle_timeout_of_host.simps [simp del]

text \<open>The specification: all sessions that were set up from the host go, and the entries.\<close>

definition timed_out :: "string \<Rightarrow> server_state \<Rightarrow> server_state" where
  "timed_out host st =
     \<lparr>sessions = (\<lambda>k. if (host, k) \<in> set (sessions_by_host st) then None else sessions st k),
      sessions_by_host = filter (\<lambda>e. fst e \<noteq> host) (sessions_by_host st)\<rparr>"

lemma filter_remove1_neg: "\<not> P x \<Longrightarrow> filter P (remove1 x xs) = filter P xs"
  by (induction xs) auto

lemma handle_timeout_of_host_spec: "handle_timeout_of_host host st = timed_out host st"
proof (induction host st rule: handle_timeout_of_host.induct)
  case (1 host st)
  show ?case
  proof (cases "find (\<lambda>e. fst e = host) (sessions_by_host st)")
    case None
    then have "\<forall>e\<in>set (sessions_by_host st). fst e \<noteq> host" by (auto simp: find_None_iff)
    moreover from this have "\<forall>k. (host, k) \<notin> set (sessions_by_host st)" by force
    ultimately show ?thesis
      using None by (simp add: handle_timeout_of_host.simps [of host st] timed_out_def)
  next
    case (Some e)
    let ?st = "(if sessions st (snd e) \<noteq> None then delete_session (snd e) st else st)
      \<lparr>sessions_by_host := remove1 e (sessions_by_host st)\<rparr>"
    have e: "e \<in> set (sessions_by_host st)" "e = (host, snd e)"
      using Some by (auto simp: find_Some_iff intro: prod_eqI)
    have keep: "(host, k) \<in> set (remove1 e xs) \<or> k = snd e \<longleftrightarrow> (host, k) \<in> set xs \<or> k = snd e"
      for k xs
      using e(2) by (metis in_set_remove1 notin_set_remove1 snd_conv)
    have "sessions ?st k = (if k = snd e then None else sessions st k)" for k
      by (simp add: delete_session_def)
    moreover have "filter (\<lambda>x. fst x \<noteq> host) (remove1 e (sessions_by_host st)) =
        filter (\<lambda>x. fst x \<noteq> host) (sessions_by_host st)"
      using e(2) by (intro filter_remove1_neg) (metis fst_conv)
    ultimately have "timed_out host ?st = timed_out host st"
      using e keep by (auto simp: timed_out_def fun_eq_iff delete_session_def)
    then show ?thesis
      using Some 1 by (simp add: handle_timeout_of_host.simps [of host st])
  qed
qed

subsection \<open>What a request does, by case\<close>

abbreviation request_fields :: "rtsp_env \<Rightarrow> request \<Rightarrow> normalized_headers" where
  "request_fields env rq \<equiv> normalize_headers (to_lower env) (request_headers rq)"

text \<open>A response of RTSP 1.0 that starts with the sequence number of the request.\<close>

definition carries_cseq :: "string \<Rightarrow> response \<Rightarrow> bool" where
  "carries_cseq v r \<longleftrightarrow> response_version_major r = 1 \<and> response_version_minor r = 0 \<and>
     (\<exists>more. response_headers r = (''CSeq'', v) # more)"

lemma carries_cseq_simps [simp]:
  "carries_cseq v (refusal code reason ((''CSeq'', v) # hs))"
  "echoes v k r \<Longrightarrow> carries_cseq v r"
  by (auto simp: carries_cseq_def refusal_def echoes_def)

lemma refusal_code [simp]: "status_code (refusal code reason headers) = code"
  by (simp add: refusal_def)

definition session_methods :: "string set" where
  "session_methods = {''TEARDOWN'', ''PLAY'', ''PAUSE''}"

text \<open>Every method in the table fulfils the contract, OPTIONS apart, which has no session.\<close>

lemma registered_method:
  assumes "server_methods env c m = Some run" and "m \<noteq> ''OPTIONS''"
  shows "rtsp_method run"
  using assms methods_setup.rtsp_method_axioms teardown.rtsp_method_axioms
    play.rtsp_method_axioms pause.rtsp_method_axioms
  by (auto simp: server_methods_def split: if_splits)

lemma server_methods_simps [simp]:
  "server_methods env c ''SETUP'' = Some (methods_setup env c)"
  "server_methods env c ''TEARDOWN'' = Some teardown"
  "server_methods env c ''PLAY'' = Some play"
  "server_methods env c ''PAUSE'' = Some pause"
  by (simp_all add: server_methods_def)

lemma session_method_registered:
  "m \<in> session_methods \<Longrightarrow> server_methods env c m \<noteq> None \<and> m \<noteq> ''OPTIONS'' \<and> m \<noteq> ''SETUP''"
  by (auto simp: session_methods_def)

lemma server_methods_dom:
  "server_methods env c m = None \<longleftrightarrow> m \<notin> {''OPTIONS'', ''SETUP''} \<union> session_methods"
  by (auto simp: server_methods_def session_methods_def)

lemma server_options_eq [simp]:
  "h ''cseq'' = Some v \<Longrightarrow> server_options (rq, h) =
     Inr (refusal 200 ''OK'' [(''CSeq'', v), (''Public'', ''SETUP, TEARDOWN, PLAY, PAUSE'')])"
  by (simp add: server_options_def refusal_def)

lemma handle_request_cases:
  assumes "handle_incoming_request env c st rq requester = (res, st')"
  obtains (no_cseq) "request_fields env rq ''cseq'' = None \<or> request_fields env rq ''cseq'' = Some []"
      "res = Inr (refusal 400 ''Bad Request: CSeq missing'' [])" "st' = st"
    | (stateless) v r where "request_fields env rq ''cseq'' = Some v" "v \<noteq> []"
      "method_or_extension rq \<in> session_methods \<Longrightarrow>
         \<forall>k. request_fields env rq ''session'' = Some k \<longrightarrow> sessions st k = None \<and> status_code r = 454"
      "method_or_extension rq \<noteq> ''SETUP'' \<or> request_fields env rq ''session'' \<noteq> None"
      "res = Inr r" "status_code r \<in> {200, 400, 454, 459, 501}" "carries_cseq v r" "st' = st"
    | (new_session) v where "request_fields env rq ''cseq'' = Some v" "v \<noteq> []"
      "method_or_extension rq = ''SETUP''" "request_fields env rq ''session'' = None"
      "setup_new_session env c (rq, request_fields env rq) requester st = (res, st')"
    | (in_session) v k s res' s' where "request_fields env rq ''cseq'' = Some v" "v \<noteq> []"
      "method_or_extension rq \<in> session_methods"
      "request_fields env rq ''session'' = Some k" "sessions st k = Some s"
      "the (server_methods env c (method_or_extension rq))
         (s\<lparr>last_seen_request_address := requester\<rparr>) (rq, request_fields env rq) = (res', s')"
      "res = res'" "st' = (if isl res' \<or> method_or_extension rq \<noteq> ''TEARDOWN''
         then st\<lparr>sessions := (sessions st)(k \<mapsto> s')\<rparr>
         else delete_session k st)"
proof -
  let ?h = "request_fields env rq" and ?m = "method_or_extension rq"
  show ?thesis
  proof (cases "?h ''cseq'' = None \<or> ?h ''cseq'' = Some []")
    case True
    then show ?thesis using assms no_cseq by (simp add: handle_incoming_request_def Let_def)
  next
    case False
    then obtain v where v: "?h ''cseq'' = Some v" "v \<noteq> []" by auto
    show ?thesis
    proof (cases "?m = ''SETUP'' \<and> ?h ''session'' = None")
      case True
      then show ?thesis
        using assms v new_session [OF v] by (simp add: handle_incoming_request_def Let_def)
    next
      case no_setup: False
      show ?thesis
      proof (cases "?m \<in> session_methods \<and> (\<exists>k. ?h ''session'' = Some k \<and> sessions st k \<noteq> None)")
        case True
        then obtain k s where k: "?h ''session'' = Some k" "sessions st k = Some s" by auto
        from True obtain run where run: "server_methods env c ?m = Some run"
          using session_method_registered by blast
        obtain res' s' where r: "run (s\<lparr>last_seen_request_address := requester\<rparr>) (rq, ?h) = (res', s')"
          by force
        have "?m \<noteq> ''OPTIONS''" "?m \<noteq> ''DESCRIBE''" "?m \<noteq> ''SETUP''"
          using True by (auto simp: session_methods_def)
        then have "(res, st') = (res', if isl res' \<or> ?m \<noteq> ''TEARDOWN''
            then st\<lparr>sessions := (sessions st)(k \<mapsto> s')\<rparr> else delete_session k st)"
          using assms v k run r
          by (cases res')
            (auto simp: handle_incoming_request_def Let_def call_method_def map_at_def
              delete_session_def)
        then show ?thesis using in_session [OF v _ k, of res' s'] True run r by simp
      next
        case False
        then have "\<exists>r. res = Inr r \<and> status_code r \<in> {200, 400, 454, 459, 501} \<and> carries_cseq v r \<and>
          st' = st \<and> (?m \<in> session_methods \<longrightarrow>
            (\<forall>k. ?h ''session'' = Some k \<longrightarrow> sessions st k = None \<and> status_code r = 454))"
          using assms v no_setup
          by (auto simp: handle_incoming_request_def Let_def server_methods_dom
              session_methods_def split: option.splits if_splits)
        then show ?thesis using stateless [OF v] no_setup by blast
      qed
    qed
  qed
qed

subsection \<open>Histories and the invariant\<close>

text \<open>
  The steps of a server: a request is handled, a host times out, or the sender of a session makes
  one of its own steps (the calls of \<open>start\<close> and \<open>stop\<close> are part of the handlers).
\<close>

definition update_sender :: "string \<Rightarrow> server_session \<Rightarrow> rtp_object \<Rightarrow> sender_sys \<Rightarrow>
    server_state \<Rightarrow> server_state" where
  "update_sender k s rtp y st =
     st\<lparr>sessions := (sessions st)(k \<mapsto> s\<lparr>rtp_session := Some (rtp\<lparr>rtp_sys := y\<rparr>)\<rparr>)\<rparr>"

inductive server_reach :: "rtsp_env \<Rightarrow> spirit \<Rightarrow> uint_parser \<Rightarrow> server_state \<Rightarrow> bool"
  for env sp up where
  start: "server_reach env sp up new_server_state"
| request: "server_reach env sp up st \<Longrightarrow>
    handle_incoming_request env c st rq requester = (res, st') \<Longrightarrow> server_reach env sp up st'"
| timeout: "server_reach env sp up st \<Longrightarrow> server_reach env sp up (handle_timeout_of_host host st)"
| sender: "server_reach env sp up st \<Longrightarrow> sessions st k = Some s \<Longrightarrow> rtp_session s = Some rtp \<Longrightarrow>
    event \<notin> {Start, Stop} \<Longrightarrow> sender_step sp up event (rtp_sys rtp) = Some (out, y) \<Longrightarrow>
    server_reach env sp up (update_sender k s rtp y st)"

definition server_inv :: "spirit \<Rightarrow> uint_parser \<Rightarrow> server_state \<Rightarrow> bool" where
  "server_inv sp up st \<longleftrightarrow> sessions_ok sp up (sessions st) \<and>
     (\<forall>k. sessions st k \<noteq> None \<longrightarrow> (\<exists>host. (host, k) \<in> set (sessions_by_host st)))"

lemma server_invD:
  assumes "server_inv sp up st" and "sessions st k = Some s"
  shows "session_identifier s = k" and "session_ok sp up s"
    and "\<exists>host. (host, k) \<in> set (sessions_by_host st)"
  using assms by (auto simp: server_inv_def sessions_ok_def)

lemma session_ok_last_seen [simp]:
  "session_ok sp up (s\<lparr>last_seen_request_address := a\<rparr>) = session_ok sp up s"
  by (simp add: session_ok_def wf_session_def)

lemma new_server_session_ok [simp]:
  "session_ok sp up (new_server_session k)" "session_identifier (new_server_session k) = k"
  "state_of (new_server_session k) = Init"
  by (simp_all add: session_ok_def wf_session_def new_server_session_def)

text \<open>The session a SETUP works on.\<close>

definition session_for_setup :: "choices \<Rightarrow> string \<Rightarrow> server_state \<Rightarrow> server_session" where
  "session_for_setup c requester st =
     (case sessions st (drawn_uuid c) of None \<Rightarrow> new_server_session (drawn_uuid c) | Some s \<Rightarrow> s)
       \<lparr>last_seen_request_address := requester\<rparr>"

lemma session_for_setup_ok:
  assumes "server_inv sp up st"
  shows "session_ok sp up (session_for_setup c requester st)"
    and "session_identifier (session_for_setup c requester st) = drawn_uuid c"
  using server_invD [OF assms]
  by (auto simp: session_for_setup_def split: option.splits)

lemma setup_new_session_eq:
  assumes "server_inv sp up st" and "method_or_extension (fst rq) = ''SETUP''"
    and "methods_setup env c (session_for_setup c requester st) rq = (res, s')"
  shows "setup_new_session env c rq requester st =
    (res, \<lparr>sessions = (sessions st)(drawn_uuid c \<mapsto> s'),
           sessions_by_host = sessions_by_host st @ [(requester, drawn_uuid c)]\<rparr>)"
  using assms session_for_setup_ok(2) [OF assms(1), of c requester]
  by (simp add: setup_new_session_def call_method_def map_at_def session_for_setup_def Let_def)

lemma request_keeps_inv [preserved]:
  assumes inv: "server_inv sp up st"
    and run: "handle_incoming_request env c st rq requester = (res, st')"
  shows "server_inv sp up st'"
  using run
proof (cases rule: handle_request_cases)
  case (new_session v)
  let ?s = "session_for_setup c requester st" and ?rq = "(rq, request_fields env rq)"
  obtain res' s' where m: "methods_setup env c ?s ?rq = (res', s')" by force
  have "sessions_ok sp up ((sessions st)(drawn_uuid c \<mapsto> s'))"
    using inv session_for_setup_ok [OF inv] new_session(1)
    by (intro methods_setup.keeps_sessions [OF _ _ _ _ m]) (auto simp: server_inv_def)
  moreover have "setup_new_session env c ?rq requester st = (res',
      \<lparr>sessions = (sessions st)(drawn_uuid c \<mapsto> s'),
       sessions_by_host = sessions_by_host st @ [(requester, drawn_uuid c)]\<rparr>)"
    using setup_new_session_eq [OF inv _ m] new_session(3) by simp
  ultimately show ?thesis
    using new_session(5) inv by (auto simp: server_inv_def)
next
  case (in_session v k s res' s')
  then obtain handler where h: "server_methods env c (method_or_extension rq) = Some handler"
      "rtsp_method handler"
    using session_method_registered registered_method by blast
  have "sessions_ok sp up ((sessions st)(k \<mapsto> s'))"
    using in_session inv h server_invD [OF inv in_session(5)]
    by (intro rtsp_method.keeps_sessions [of handler _ _ _ "s\<lparr>last_seen_request_address := requester\<rparr>"])
      (auto simp: server_inv_def)
  then show ?thesis
    using in_session inv by (auto simp: server_inv_def delete_session_def sessions_ok_def)
qed (use inv in auto)

lemma timeout_keeps_inv [preserved]:
  "server_inv sp up st \<Longrightarrow> server_inv sp up (handle_timeout_of_host host st)"
  by (auto simp: handle_timeout_of_host_spec timed_out_def server_inv_def sessions_ok_def
      split: if_splits)

lemma sender_keeps_inv [preserved]:
  assumes inv: "server_inv sp up st" and s: "sessions st k = Some s" "rtp_session s = Some rtp"
    and step: "sender_step sp up event (rtp_sys rtp) = Some (out, y)"
  shows "server_inv sp up (update_sender k s rtp y st)"
proof -
  note ok = server_invD [OF inv s(1)]
  then obtain s0 sent exns where "sender_reach sp up s0 sent exns (rtp_sys rtp)"
    using s(2) by (auto simp: session_ok_def)
  then have "\<exists>sent exns. sender_reach sp up s0 sent exns y"
    using step by (cases out) (blast intro: sender_reach.step sender_reach.throw)+
  then have "session_ok sp up (s\<lparr>rtp_session := Some (rtp\<lparr>rtp_sys := y\<rparr>)\<rparr>)"
    using ok s(2) by (auto simp: session_ok_def wf_session_def)
  then show ?thesis
    using inv ok by (auto simp: server_inv_def sessions_ok_def update_sender_def)
qed

lemma start_inv [preserved]: "server_inv sp up new_server_state"
  by (simp add: new_server_state_def server_inv_def sessions_ok_def)

lemma server_reach_inv: "server_reach env sp up st \<Longrightarrow> server_inv sp up st"
  by (induction rule: server_reach.induct) (blast intro: preserved)+

subsection \<open>The specification: the state table of RFC 2326\<close>

text \<open>
  For the methods of an existing session, the status code and the next state (\<open>None\<close>: the session
  ends). The abstract server is the map from identifiers to states.
\<close>

fun session_table :: "session_state \<Rightarrow> string \<Rightarrow> u16 \<times> session_state option" where
  "session_table x m =
     (if m = ''TEARDOWN'' then (200, None)
      else if m = ''PLAY'' \<and> x \<in> {Ready, Playing} then (200, Some Playing)
      else if m = ''PAUSE'' \<and> x = Playing then (200, Some Ready)
      else (455, Some x))"

definition abs_sessions :: "server_state \<Rightarrow> (string \<rightharpoonup> session_state)" where
  "abs_sessions st = (\<lambda>k. map_option state_of (sessions st k))"

lemma abs_sessions_simps [simp]:
  "abs_sessions (st\<lparr>sessions := (sessions st)(k \<mapsto> s)\<rparr>) = (abs_sessions st)(k \<mapsto> state_of s)"
  "abs_sessions (delete_session k st) = (abs_sessions st)(k := None)"
  "abs_sessions \<lparr>sessions = (sessions st)(k \<mapsto> s), sessions_by_host = h\<rparr> =
     (abs_sessions st)(k \<mapsto> state_of s)"
  by (auto simp: abs_sessions_def delete_session_def fun_eq_iff)

text \<open>The handlers of a session implement the table.\<close>

lemma handler_table:
  assumes "snd rq ''cseq'' = Some v" and "wf_session s" and "m \<in> session_methods"
    and "the (server_methods env c m) s rq = (res, s')"
  shows "\<exists>r. res = Inr r \<and> echoes v (session_identifier s) r \<and>
    status_code r = fst (session_table (state_of s) m) \<and>
    (m \<noteq> ''TEARDOWN'' \<longrightarrow> snd (session_table (state_of s) m) = Some (state_of s'))"
proof -
  from assms(3) consider "m = ''TEARDOWN''" | "m = ''PLAY''" | "m = ''PAUSE''"
    by (auto simp: session_methods_def)
  then show ?thesis
  proof cases
    case 1
    then show ?thesis using assms by (auto simp: teardown_eq echoes_def)
  next
    case 2
    then show ?thesis
      using assms play_eq [OF assms(1,2)]
      by (auto simp: echoes_def wf_session_def split: option.splits if_splits)
  next
    case 3
    then show ?thesis
      using assms pause_eq [OF assms(1,2)]
      by (auto simp: echoes_def wf_session_def split: option.splits if_splits)
  qed
qed

subsection \<open>Properties\<close>

text \<open>
  C23 (invariant): the sessions of a server. In every history of requests, timeouts and steps of
  the senders, a session is filed under its own identifier, is never in the recording state,
  owns a sender exactly when it is ready or playing, so that PLAY and PAUSE never dereference
  a null pointer, can be removed by the timeout of some host, and its sender has at most
  one chain of timer waits.
\<close>

theorem server_invariant:
  assumes "server_reach env sp up st" and "sessions st k = Some s"
  shows "session_identifier s = k \<and> state_of s \<noteq> Recording \<and>
    (rtp_session s \<noteq> None \<longleftrightarrow> state_of s = Ready \<or> state_of s = Playing) \<and>
    (\<exists>host. sessions (handle_timeout_of_host host st) k = None) \<and>
    (\<forall>rtp. rtp_session s = Some rtp \<longrightarrow>
       timer_chains (rtp_sys rtp) \<le> (if running (the_sender (rtp_sys rtp)) then 1 else 0))"
proof -
  note inv = server_invD [OF server_reach_inv [OF assms(1)] assms(2)]
  have "\<exists>host. sessions (handle_timeout_of_host host st) k = None"
    using inv(3) by (auto simp: handle_timeout_of_host_spec timed_out_def)
  moreover have "\<forall>rtp. rtp_session s = Some rtp \<longrightarrow>
      timer_chains (rtp_sys rtp) \<le> (if running (the_sender (rtp_sys rtp)) then 1 else 0)"
    using inv(2) sender_reach_inv by (fastforce simp: session_ok_def sender_inv_def)
  ultimately show ?thesis
    using inv(1,2) by (auto simp: session_ok_def wf_session_def)
qed

definition sample_request :: "string \<Rightarrow> raw_headers \<Rightarrow> request" where
  "sample_request m hs =
     \<lparr>method_or_extension = m, uri = ''m'', request_version_major = 1, request_version_minor = 0,
      request_headers = (''CSeq'', ''1'') # hs\<rparr>"

lemma sample_to_lower [simp]:
  "to_lower sample_env ''CSeq'' = ''cseq''" "to_lower sample_env ''Transport'' = ''transport''"
  "to_lower sample_env ''Session'' = ''session''"
  by (simp_all add: sample_env_def)

lemmas server_eval = handle_incoming_request_def normalize_headers_def add_header_def
  setup_new_session_def call_method_def map_at_def Let_def new_server_state_def
  methods_setup_def common_response_sekeleton_def new_server_session_def setup_options_def
  requested_transport_def get_acceptable_transport_def is_unicast_rtp_udp_def
  get_jpeg_stream_def sender_for_transport_def make_rtp_session_def
  sample_env_def sample_choices_def sample_requested_transport_def sample_request_def

lemma sample_setup_handled:
  "\<exists>r st s rtp. handle_incoming_request sample_env sample_choices new_server_state
       (sample_request ''SETUP'' [(''Transport'', ''t'')]) ''10.0.0.1'' = (Inr r, st) \<and>
     status_code r = 200 \<and> sessions st ''u1'' = Some s \<and> state_of s = Ready \<and>
     session_identifier s = ''u1'' \<and> rtp_session s = Some rtp"
  by (simp add: server_eval)

lemma sample_server:
  obtains st s where "server_reach sample_env sp up st" "sessions st ''u1'' = Some s"
    "state_of s = Ready"
proof -
  obtain r st s where *: "handle_incoming_request sample_env sample_choices new_server_state
       (sample_request ''SETUP'' [(''Transport'', ''t'')]) ''10.0.0.1'' = (Inr r, st)"
      "sessions st ''u1'' = Some s" "state_of s = Ready"
    using sample_setup_handled by blast
  show ?thesis
    using that [OF server_reach.request [OF server_reach.start *(1)] *(2,3)] .
qed

theorem server_invariant_witness:
  "\<exists>st s. server_reach sample_env octet_spirit ascii_uint_parse st \<and>
     sessions st ''u1'' = Some s \<and> rtp_session s \<noteq> None"
proof -
  obtain st s where "server_reach sample_env octet_spirit ascii_uint_parse st"
      "sessions st ''u1'' = Some s" "state_of s = Ready"
    by (rule sample_server)
  then show ?thesis using server_invariant by blast
qed





text \<open>
  A SETUP outside a session always creates one. Whatever comes of it, a refusal
  with any status code or an exception that leaves the client without an answer, the new
  identifier is in the map afterwards: ready after the answer 200 and initial otherwise, and
  filed under the address of the requester. The other sessions keep their states.
\<close>

theorem setup_always_adds_a_session:
  assumes "server_reach env sp up st"
    and "handle_incoming_request env c st rq requester = (res, st')"
    and "request_fields env rq ''cseq'' = Some v" and "v \<noteq> []"
    and "method_or_extension rq = ''SETUP''" and "request_fields env rq ''session'' = None"
    and "sessions st (drawn_uuid c) = None"
  shows "abs_sessions st' = (abs_sessions st)(drawn_uuid c \<mapsto>
      (case res of Inr r \<Rightarrow> if status_code r = 200 then Ready else Init | Inl e \<Rightarrow> Init)) \<and>
    sessions_by_host st' = sessions_by_host st @ [(requester, drawn_uuid c)]"
  using assms(2)
proof (cases rule: handle_request_cases)
  case (new_session w)
  note inv = server_reach_inv [OF assms(1)]
  let ?s = "session_for_setup c requester st" and ?rq = "(rq, request_fields env rq)"
  obtain res' s' where m: "methods_setup env c ?s ?rq = (res', s')" by force
  have st': "res = res'" "st' = \<lparr>sessions = (sessions st)(drawn_uuid c \<mapsto> s'),
       sessions_by_host = sessions_by_host st @ [(requester, drawn_uuid c)]\<rparr>"
    using setup_new_session_eq [OF inv _ m] new_session by simp_all
  have init: "state_of ?s = Init" using assms(7) by (simp add: session_for_setup_def)
  have cseq: "snd ?rq ''cseq'' = Some w" using new_session(1) by simp
  from cseq m have "state_of s' =
      (case res' of Inr r \<Rightarrow> if status_code r = 200 then Ready else Init | Inl e \<Rightarrow> Init)"
    by (cases rule: methods_setup_cases) (use init in \<open>auto simp: setup_error_codes_def\<close>)
  then show ?thesis using st' by simp
qed (use assms(3-6) in \<open>auto simp: session_methods_def\<close>)

text \<open>A SETUP that is refused since it names no transport.\<close>

theorem setup_always_adds_a_session_witness:
  "\<exists>r st'. handle_incoming_request sample_env sample_choices new_server_state
      (sample_request ''SETUP'' []) ''10.0.0.1'' = (Inr r, st') \<and> status_code r = 461 \<and>
     abs_sessions st' ''u1'' = Some Init"
proof -
  have "\<exists>r st'. handle_incoming_request sample_env sample_choices new_server_state
      (sample_request ''SETUP'' []) ''10.0.0.1'' = (Inr r, st') \<and> status_code r = 461"
    by (simp add: server_eval)
  then obtain r st' where run: "handle_incoming_request sample_env sample_choices new_server_state
      (sample_request ''SETUP'' []) ''10.0.0.1'' = (Inr r, st')" "status_code r = 461" by blast
  have "request_fields sample_env (sample_request ''SETUP'' []) = [''cseq'' \<mapsto> ''1'']"
    by (simp add: sample_request_def normalize_headers_def add_header_def sample_env_def)
  then show ?thesis
    using setup_always_adds_a_session [OF server_reach.start run(1), of "''1''"] run
    by (auto simp: sample_request_def sample_choices_def new_server_state_def)
qed

text \<open>
  The timeout of a host. The loop over the multimap ends and is the same as
  one pass: it removes exactly the sessions that were set up from the host, also those whose
  last request came from elsewhere, skips the entries whose session is already gone, and
  leaves every other session and every other host's entries, in their order.
\<close>

theorem host_timeout_correct:
  "handle_timeout_of_host host st =
     \<lparr>sessions = sessions st |` (- {k. (host, k) \<in> set (sessions_by_host st)}),
      sessions_by_host = filter (\<lambda>e. fst e \<noteq> host) (sessions_by_host st)\<rparr>"
  unfolding handle_timeout_of_host_spec
  by (auto simp: timed_out_def restrict_map_def fun_eq_iff)

text \<open>
  Removing a session whose sender runs needs another thread. The destructor of
  the sender calls \<open>stop\<close> and waits for the flag; no closure on the strand and no expiry of the
  timer clears the flag, only a timer handler does, which the waiting thread cannot run (and
  neither can threads that wait for the mutex of the sessions, which TEARDOWN holds). With one
  free thread the cancelled handler clears it.
\<close>

theorem teardown_waits_for_a_handler:
  assumes "running (the_sender y)"
  shows "(\<forall>events. (\<forall>draws. Run_handler draws \<notin> set events) \<longrightarrow>
      running (the_sender (snd (sender_run sp up events (sender_stop y))))) \<and>
    (strand_tasks y = [] \<and> timer_waits y = 1 \<and> completed_waits y = [] \<longrightarrow>
      \<not> running (the_sender (snd (sender_run sp up [Run_task, Run_handler draws] (sender_stop y)))))"
proof -
  have step: "running (the_sender y')"
    if "running (the_sender z)" "\<forall>draws. event \<noteq> Run_handler draws"
      "sender_step sp up event z = Some (out, y')" for z y' event out
    using that
    by (cases event) (auto simp: sender_step_def sender_start_def sender_stop_def
        split: if_splits list.splits strand_task.splits)
  have "running (the_sender (snd (sender_run sp up events z)))"
    if "running (the_sender z)" "\<forall>draws. Run_handler draws \<notin> set events" for events z
    using that
  proof (induction events arbitrary: z)
    case (Cons e es)
    then show ?case
      using step [of z e] by (fastforce simp: split_def Let_def split: option.splits)
  qed simp
  moreover have "running (the_sender (sender_stop y))"
    using assms by (simp add: sender_stop_def)
  ultimately show ?thesis
    using assms by (simp add: sender_stop_def sender_step_def cancel_waits_def Let_def
        send_next_packet_handler_def)
qed

theorem teardown_waits_for_a_handler_witness:
  "running (the_sender (snd (sender_run octet_spirit ascii_uint_parse [Run_task, Expire]
     (sender_stop ((new_sender_sys (sample_sender\<lparr>running := True\<rparr>))\<lparr>timer_waits := 1\<rparr>)))))"
  using teardown_waits_for_a_handler
    [of "(new_sender_sys (sample_sender\<lparr>running := True\<rparr>))\<lparr>timer_waits := 1\<rparr>"
        octet_spirit ascii_uint_parse]
  by (auto simp: new_sender_sys_def simp del: sender_run.simps)

end
