(* ===== verification/Rtsp_Message.thy ===== *)
theory Rtsp_Message
  imports Rtsp_Headers
begin

section \<open>RTSP messages on the wire\<close>

text \<open>
  The generators \<open>generate_response\<close> and \<open>generate_request\<close> of \<open>rtsp_message.hpp\<close>, and the framing
  that both sides rely on: a message is read up to and including the first blank line. The
  parsers are Boost.Spirit grammars and parameters of the components that read; the decimal
  generator for the numbers is a parameter as well.
\<close>

subsection \<open>The generators\<close>

definition crlf :: string where
  "crlf = [CHR 0x0D, CHR 0x0A]"

definition header_generator :: "string \<times> string \<Rightarrow> string" where
  "header_generator header = fst header @ '':'' @ '' '' @ snd header"

definition generate_headers :: "raw_headers \<Rightarrow> string" where
  "generate_headers headers = concat (map (\<lambda>h. header_generator h @ crlf) headers)"

definition generate_response :: "(u16 \<Rightarrow> string) \<Rightarrow> response \<Rightarrow> string" where
  "generate_response dec r =
     ''RTSP/'' @ dec (response_version_major r) @ ''.'' @ dec (response_version_minor r) @ '' '' @
     dec (status_code r) @ '' '' @ reason_phrase r @ crlf @
     generate_headers (response_headers r) @ crlf"

definition generate_request :: "(u16 \<Rightarrow> string) \<Rightarrow> request \<Rightarrow> string" where
  "generate_request dec r =
     method_or_extension r @ '' '' @ uri r @ '' '' @ ''RTSP/'' @
     dec (request_version_major r) @ ''.'' @ dec (request_version_minor r) @ crlf @
     generate_headers (request_headers r) @ crlf"

subsection \<open>Framing\<close>

text \<open>
  \<open>boost::asio::async_read_until\<close> with the delimiter CR LF CR LF: the input up to and including
  the first delimiter, and what follows it.
\<close>

fun read_until_blank_line :: "string \<Rightarrow> (string \<times> string) option" where
  "read_until_blank_line (a # b # c # d # rest) =
     (if [a, b, c, d] = crlf @ crlf then Some ([a, b, c, d], rest)
      else map_option (\<lambda>(msg, rest). (a # msg, rest)) (read_until_blank_line (b # c # d # rest)))"
| "read_until_blank_line _ = None"

text \<open>Text without carriage returns.\<close>

definition one_line :: "string \<Rightarrow> bool" where
  "one_line s \<longleftrightarrow> CHR 0x0D \<notin> set s"

text \<open>The blank line is not found before the end of a sequence of non-empty lines.\<close>

lemma one_line_simps [simp]:
  "one_line []" "one_line (x # s) \<longleftrightarrow> x \<noteq> CHR 0x0D \<and> one_line s"
  "one_line (s @ t) \<longleftrightarrow> one_line s \<and> one_line t"
  by (auto simp: one_line_def)

lemma read_skip: "x \<noteq> CHR 0x0D \<Longrightarrow>
    read_until_blank_line (x # s) = map_option (\<lambda>(msg, rest). (x # msg, rest)) (read_until_blank_line s)"
  by (cases "x # s" rule: read_until_blank_line.cases) (auto simp: crlf_def)

lemma read_line: "one_line l \<Longrightarrow>
    read_until_blank_line (l @ s) = map_option (\<lambda>(msg, rest). (l @ msg, rest)) (read_until_blank_line s)"
  by (induction l) (auto simp: read_skip option.map_comp comp_def split_def option.map_ident)

lemma read_end: "read_until_blank_line (crlf @ crlf @ rest) = Some (crlf @ crlf, rest)"
  by (simp add: crlf_def)

lemma read_crlf: "x \<noteq> CHR 0x0D \<Longrightarrow>
    read_until_blank_line (crlf @ x # s) =
      map_option (\<lambda>(msg, rest). (crlf @ msg, rest)) (read_until_blank_line (x # s))"
  by (cases "x # s" rule: read_until_blank_line.cases)
    (auto simp: crlf_def read_skip option.map_comp comp_def split_def)

lemma read_header_lines:
  assumes "\<forall>h\<in>set hs. one_line (fst h) \<and> one_line (snd h)"
  shows "read_until_blank_line (crlf @ generate_headers hs @ crlf @ rest) =
    Some (crlf @ generate_headers hs @ crlf, rest)"
  using assms
proof (induction hs)
  case Nil
  then show ?case using read_end by (simp add: generate_headers_def)
next
  case (Cons h hs)
  obtain line where line_def: "line = header_generator h" by simp
  have line: "one_line line" using Cons.prems by (simp add: line_def header_generator_def)
  obtain x xs where x: "line = x # xs"
    by (cases line) (auto simp: line_def header_generator_def)
  then have "x \<noteq> CHR 0x0D" using line by simp
  let ?tail = "crlf @ generate_headers hs @ crlf"
  have "read_until_blank_line (crlf @ line @ ?tail @ rest) =
      map_option (\<lambda>(msg, rest). (crlf @ msg, rest)) (read_until_blank_line (line @ ?tail @ rest))"
    using read_crlf [OF \<open>x \<noteq> CHR 0x0D\<close>] x by simp
  also have "read_until_blank_line (line @ ?tail @ rest) = Some (line @ ?tail, rest)"
    using read_line [OF line, of "?tail @ rest"] Cons.IH Cons.prems by simp
  finally show ?case by (simp add: generate_headers_def line_def)
qed

lemma read_message:
  assumes "one_line l" and "\<forall>h\<in>set hs. one_line (fst h) \<and> one_line (snd h)"
  shows "read_until_blank_line (l @ crlf @ generate_headers hs @ crlf @ rest) =
    Some (l @ crlf @ generate_headers hs @ crlf, rest)"
  using read_line [OF assms(1), of "crlf @ generate_headers hs @ crlf @ rest"]
    read_header_lines [OF assms(2), of rest] by simp

subsection \<open>Properties\<close>

text \<open>
  The framing of messages. When no part of it contains a carriage return, a
  generated response, and likewise a generated request, is exactly what a read up to the blank
  line returns, whatever follows it on the connection: two messages never merge and none is
  split.
\<close>

theorem message_framing:
  assumes "\<forall>n. one_line (dec n)"
    and "one_line (reason_phrase r)" and "\<forall>h\<in>set (response_headers r). one_line (fst h) \<and> one_line (snd h)"
    and "one_line (method_or_extension q)" and "one_line (uri q)"
    and "\<forall>h\<in>set (request_headers q). one_line (fst h) \<and> one_line (snd h)"
  shows "read_until_blank_line (generate_response dec r @ rest) =
      Some (generate_response dec r, rest) \<and>
    read_until_blank_line (generate_request dec q @ rest) = Some (generate_request dec q, rest)"
  using assms
    read_message [of "''RTSP/'' @ dec (response_version_major r) @ ''.'' @
      dec (response_version_minor r) @ '' '' @ dec (status_code r) @ '' '' @ reason_phrase r"
      "response_headers r" rest]
    read_message [of "method_or_extension q @ '' '' @ uri q @ '' '' @ ''RTSP/'' @
      dec (request_version_major q) @ ''.'' @ dec (request_version_minor q)"
      "request_headers q" rest]
  by (simp add: generate_response_def generate_request_def)

text \<open>Decimal digits, as the generator prints them.\<close>

fun decimal_digits :: "nat \<Rightarrow> string" where
  "decimal_digits n =
     (if n < 10 then [char_of (48 + n)] else decimal_digits (n div 10) @ [char_of (48 + n mod 10)])"

declare decimal_digits.simps [simp del]

definition decimal :: "'a::len word \<Rightarrow> string" where
  "decimal n = decimal_digits (unat n)"

lemma digit_not_cr: "(n::nat) < 10 \<Longrightarrow> (char_of (48 + n) :: char) \<noteq> CHR 0x0D"
proof
  assume n: "n < 10" and c: "(char_of (48 + n) :: char) = CHR 0x0D"
  have "of_char (char_of (48 + n) :: char) = (48 + n) mod 256"
    by (simp only: of_char_of)
  then show False using n unfolding c by simp
qed

lemma one_line_decimal_digits: "one_line (decimal_digits n)"
proof (induction n rule: decimal_digits.induct)
  case (1 n)
  then show ?case
    using digit_not_cr [of n] digit_not_cr [of "n mod 10"]
    by (cases "n < 10") (auto simp: decimal_digits.simps [of n])
qed

lemma one_line_decimal [simp]: "one_line (decimal n)"
  by (simp add: decimal_def one_line_decimal_digits)

theorem message_framing_witness:
  "\<exists>q. read_until_blank_line
     (generate_response decimal \<lparr>response_version_major = 1, response_version_minor = 0,
        status_code = 200, reason_phrase = ''OK'', response_headers = [(''CSeq'', ''0'')]\<rparr> @ ''x'') =
     Some (q, ''x'')"
  using message_framing [of decimal "\<lparr>response_version_major = 1, response_version_minor = 0,
        status_code = 200, reason_phrase = ''OK'', response_headers = [(''CSeq'', ''0'')]\<rparr>"
      "\<lparr>method_or_extension = [], uri = [], request_version_major = 1, request_version_minor = 0,
        request_headers = []\<rparr>" "''x''"]
  by simp

end
