(* ===== verification/Rtsp_Connection.thy ===== *)
theory Rtsp_Connection
  imports Rtsp_Server Rtsp_Message
begin

section \<open>Connections to the server\<close>

text \<open>
  The handlers of \<open>rtsp_server.cpp\<close>: a TCP connection with its response buffer and its idle
  timer, and the handler of a UDP datagram. Reading and writing sockets is Boost.Asio; a
  handler gets the error and the number of bytes as arguments and returns what it asks the
  socket to send and whether it reads again. Times are seconds on the steady clock.
\<close>

subsection \<open>A TCP connection\<close>

text \<open>
  The parser of requests is a parameter: the request, if the input is one, and the input left in
  the stream buffer. The decimal generator is a parameter of the message generator.
\<close>

record wire =
  parse_request :: "string \<Rightarrow> request option \<times> string"
  decimal_gen :: "u16 \<Rightarrow> string"

datatype asio_error = Eof | Connection_reset | Other_error string

record tcp_connection =
  in_streambuf :: string
  last_response_string :: string
  last_request_time_point :: int
  timer_expiry :: int
  reading :: bool
  socket_open :: bool
  remote_address :: string

definition timeout_period :: int where "timeout_period = 240"

definition tcp_start :: "int \<Rightarrow> tcp_connection \<Rightarrow> tcp_connection" where
  "tcp_start now conn =
     conn\<lparr>last_request_time_point := now, reading := True, timer_expiry := now + timeout_period\<rparr>"

text \<open>
  \<open>header_read\<close>. The flag \<open>reading\<close> is false when the handler runs, and is set again where the
  handler starts the next read. The result is the text given to \<open>async_send\<close>, if any. Asking a
  closed socket for its remote endpoint throws.
\<close>

definition header_read ::
    "rtsp_env \<Rightarrow> wire \<Rightarrow> choices \<Rightarrow> asio_error option \<Rightarrow> int \<Rightarrow> tcp_connection \<Rightarrow> server_state \<Rightarrow>
       string option result \<times> tcp_connection \<times> server_state" where
  "header_read env w c error now conn st =
     (let conn = conn\<lparr>reading := False\<rparr>
      in case error of
           Some Eof \<Rightarrow> (Inr None, conn, st)
         | Some Connection_reset \<Rightarrow> (Inr None, conn, st)
         | Some (Other_error msg) \<Rightarrow> (Inl (Runtime_error msg), conn, st)
         | None \<Rightarrow>
             (let (parsed, rest) = parse_request w (in_streambuf conn);
                  conn = conn\<lparr>last_request_time_point := now, in_streambuf := rest\<rparr>;
                  (res, st) = (case parsed of
                      None \<Rightarrow> (Inr (refusal 400 ''Bad Request'' []), st)
                    | Some rq \<Rightarrow>
                        if socket_open conn
                        then handle_incoming_request env c st rq (remote_address conn)
                        else (Inl System_error, st))
              in case res of
                   Inl e \<Rightarrow> (Inl e, conn, st)
                 | Inr response \<Rightarrow>
                     let sent = last_response_string conn @ generate_response (decimal_gen w) response
                     in (Inr (Some sent), conn\<lparr>last_response_string := sent, reading := True\<rparr>, st)))"

definition response_sent ::
    "string option \<Rightarrow> nat \<Rightarrow> tcp_connection \<Rightarrow> unit result \<times> tcp_connection" where
  "response_sent error bytes_transferred conn =
     (case error of
        Some msg \<Rightarrow> (Inl (Runtime_error msg), conn)
      | None \<Rightarrow>
          if bytes_transferred \<noteq> length (last_response_string conn)
          then (Inl (Runtime_error ''TCP bytes sent not equal''), conn)
          else (Inr (), conn\<lparr>last_response_string := []\<rparr>))"

text \<open>\<open>timeout_check\<close>; the result says whether the timer is armed again.\<close>

definition timeout_check ::
    "string option \<Rightarrow> int \<Rightarrow> tcp_connection \<Rightarrow> server_state \<Rightarrow>
       bool result \<times> tcp_connection \<times> server_state" where
  "timeout_check error now conn st =
     (case error of
        Some msg \<Rightarrow> (Inl (Runtime_error msg), conn, st)
      | None \<Rightarrow>
          if now - last_request_time_point conn > timeout_period
          then (Inr False, conn\<lparr>socket_open := False\<rparr>,
                handle_timeout_of_host (remote_address conn) st)
          else (Inr True, conn\<lparr>timer_expiry := timer_expiry conn + timeout_period\<rparr>, st))"

subsection \<open>A UDP datagram\<close>

definition handle_new_incoming_message ::
    "rtsp_env \<Rightarrow> wire \<Rightarrow> choices \<Rightarrow> string \<Rightarrow> string \<Rightarrow> server_state \<Rightarrow>
       string result \<times> server_state" where
  "handle_new_incoming_message env w c message received_from st =
     (let (parsed, rest) = parse_request w message;
          (res, st) = (case parsed of
              None \<Rightarrow> (Inr (refusal 400
                (''Bad Request, could not parse after '' @ [CHR 0x22] @ rest @ [CHR 0x22]) []), st)
            | Some rq \<Rightarrow> handle_incoming_request env c st rq received_from)
      in (rbind res (\<lambda>r. Inr (generate_response (decimal_gen w) r)), st))"

text \<open>The completion handler of the send.\<close>

definition udp_sent :: "string option \<Rightarrow> nat \<Rightarrow> string \<Rightarrow> unit result" where
  "udp_sent error bytes_transferred message =
     (case error of
        Some msg \<Rightarrow> Inl (Runtime_error msg)
      | None \<Rightarrow>
          if bytes_transferred \<noteq> length message then Inl (Runtime_error (''Send udp: '' @ decimal_digits bytes_transferred @
            '' message: '' @ decimal_digits (length message)))
          else Inr ())"

subsection \<open>A dialog in turns\<close>

text \<open>
  The client sends a request only after it has got the last answer: each step is a read, a
  complete send and its completion. \<open>None\<close> when a handler throws.
\<close>

fun tcp_dialog ::
    "rtsp_env \<Rightarrow> wire \<Rightarrow> (string \<times> choices \<times> int) list \<Rightarrow> tcp_connection \<Rightarrow> server_state \<Rightarrow>
       (string list \<times> tcp_connection \<times> server_state) option" where
  "tcp_dialog env w [] conn st = Some ([], conn, st)"
| "tcp_dialog env w ((input, c, now) # steps) conn st =
     (case header_read env w c None now (conn\<lparr>in_streambuf := in_streambuf conn @ input\<rparr>) st of
        (Inr (Some sent), conn, st) \<Rightarrow>
          (case response_sent None (length sent) conn of
             (Inl e, conn) \<Rightarrow> None
           | (Inr _, conn) \<Rightarrow>
               map_option (\<lambda>(answers, conn, st). (sent # answers, conn, st))
                 (tcp_dialog env w steps conn st))
      | _ \<Rightarrow> None)"

text \<open>The same requests handed to the server state directly.\<close>

fun serve_all ::
    "rtsp_env \<Rightarrow> (request \<times> choices) list \<Rightarrow> string \<Rightarrow> server_state \<Rightarrow>
       (response list \<times> server_state) option" where
  "serve_all env [] requester st = Some ([], st)"
| "serve_all env ((rq, c) # steps) requester st =
     (case handle_incoming_request env c st rq requester of
        (Inl e, st) \<Rightarrow> None
      | (Inr r, st) \<Rightarrow>
          map_option (\<lambda>(rs, st). (r # rs, st)) (serve_all env steps requester st))"

lemma header_read_answer:
  assumes "parse_request w (in_streambuf conn) = (Some rq, rest)"
    and "handle_incoming_request env c st rq (remote_address conn) = (res, st')"
    and "socket_open conn"
  shows "header_read env w c None now conn st =
    (let conn = conn\<lparr>reading := False, last_request_time_point := now, in_streambuf := rest\<rparr>
     in case res of
          Inl e \<Rightarrow> (Inl e, conn, st')
        | Inr r \<Rightarrow>
            let sent = last_response_string conn @ generate_response (decimal_gen w) r
            in (Inr (Some sent), conn\<lparr>last_response_string := sent, reading := True\<rparr>, st'))"
  using assms by (auto simp: header_read_def Let_def split: sum.splits)

subsection \<open>The idle timer\<close>

text \<open>
  The histories of an open connection, as far as its timer goes: it is started, reads (in the
  order of the clock), and checks, each at or after the expiry of the timer, that do not
  close it.
\<close>

inductive tcp_timeline :: "rtsp_env \<Rightarrow> wire \<Rightarrow> tcp_connection \<Rightarrow> bool" for env w where
  started: "tcp_timeline env w (tcp_start now conn)"
| read: "tcp_timeline env w conn \<Longrightarrow> last_request_time_point conn \<le> now \<Longrightarrow>
    header_read env w c error now (conn\<lparr>in_streambuf := input\<rparr>) st = (res, conn', st') \<Longrightarrow>
    tcp_timeline env w conn'"
| sent: "tcp_timeline env w conn \<Longrightarrow> response_sent failure n conn = (done, conn') \<Longrightarrow>
    tcp_timeline env w conn'"
| checked: "tcp_timeline env w conn \<Longrightarrow> timer_expiry conn \<le> now \<Longrightarrow>
    timeout_check None now conn st = (Inr True, conn', st') \<Longrightarrow> tcp_timeline env w conn'"

lemma header_read_timer:
  "header_read env w c error now conn st = (res, conn', st') \<Longrightarrow>
   timer_expiry conn' = timer_expiry conn \<and>
   last_request_time_point conn' \<in> {last_request_time_point conn, now}"
  by (auto simp: header_read_def Let_def split: option.splits asio_error.splits prod.splits sum.splits)

lemma response_sent_timer:
  "response_sent failure n conn = (done, conn') \<Longrightarrow>
   timer_expiry conn' = timer_expiry conn \<and>
   last_request_time_point conn' = last_request_time_point conn"
  by (auto simp: response_sent_def split: option.splits if_splits)

lemma timeline_expiry:
  "tcp_timeline env w conn \<Longrightarrow> timer_expiry conn \<le> last_request_time_point conn + 480"
proof (induction rule: tcp_timeline.induct)
  case (started now conn)
  then show ?case by (simp add: tcp_start_def timeout_period_def)
next
  case (read conn now c error input st res conn' st')
  then show ?case using header_read_timer [OF read.hyps(3)] by auto
next
  case (sent conn failure n res conn')
  then show ?case using response_sent_timer [OF sent.hyps(2)] by simp
next
  case (checked conn now st conn' st')
  then show ?case
    by (auto simp: timeout_check_def timeout_period_def split: if_splits)
qed

subsection \<open>Properties\<close>

text \<open>
  C26 (equivalence): a TCP dialog in turns. When each input parses as one request and the answer
  has been sent before the next request arrives, the connection sends exactly the generated
  responses of the server state to these requests, one per send, and ends with empty buffers,
  reading.
\<close>

theorem tcp_dialog_serves:
  assumes "\<forall>(input, c, now)\<in>set steps. parse_request w input = (Some (request_in input), [])"
    and "in_streambuf conn = []" and "last_response_string conn = []" and "reading conn"
    and "serve_all env (map (\<lambda>(input, c, now). (request_in input, c)) steps) (remote_address conn) st =
      Some (rs, st')"
    and "socket_open conn"
  shows "\<exists>conn'. tcp_dialog env w steps conn st =
      Some (map (generate_response (decimal_gen w)) rs, conn', st') \<and>
    in_streambuf conn' = [] \<and> last_response_string conn' = [] \<and> reading conn'"
  using assms
proof (induction steps arbitrary: conn st rs)
  case (Cons step steps)
  obtain input c now where step: "step = (input, c, now)" by (cases step) auto
  obtain r st1 rs1 where one: "handle_incoming_request env c st (request_in input) (remote_address conn) =
      (Inr r, st1)" and rs: "rs = r # rs1"
    and rest: "serve_all env (map (\<lambda>(input, c, now). (request_in input, c)) steps)
      (remote_address conn) st1 = Some (rs1, st')"
    using Cons.prems(5) step by (auto split: prod.splits sum.splits)
  let ?conn = "conn\<lparr>last_request_time_point := now, in_streambuf := [], reading := True\<rparr>"
  have parse: "parse_request w (in_streambuf conn @ input) = (Some (request_in input), [])"
    using Cons.prems(1,2) step by auto
  have "tcp_dialog env w (step # steps) conn st =
      map_option (\<lambda>(answers, conn, st). (generate_response (decimal_gen w) r # answers, conn, st))
        (tcp_dialog env w steps (?conn\<lparr>last_response_string := []\<rparr>) st1)"
    using parse one Cons.prems(3,6) step
    by (simp add: header_read_answer [of w _ "request_in input" "[]" env c st "Inr r" st1]
        response_sent_def Let_def)
  moreover have "\<exists>conn'. tcp_dialog env w steps (?conn\<lparr>last_response_string := []\<rparr>) st1 =
      Some (map (generate_response (decimal_gen w)) rs1, conn', st') \<and>
      in_streambuf conn' = [] \<and> last_response_string conn' = [] \<and> reading conn'"
    by (rule Cons.IH) (use Cons.prems(1,6) rest in auto)
  ultimately show ?case using rs by auto
qed simp

text \<open>A parser of one known request.\<close>

definition sample_wire :: "string \<Rightarrow> request \<Rightarrow> wire" where
  "sample_wire text rq =
     \<lparr>parse_request = (\<lambda>s. if s = text then (Some rq, []) else (None, s)), decimal_gen = decimal\<rparr>"

definition sample_connection :: tcp_connection where
  "sample_connection =
     \<lparr>in_streambuf = [], last_response_string = [], last_request_time_point = 0, timer_expiry = 240,
      reading = True, socket_open = True, remote_address = ''10.0.0.1''\<rparr>"

theorem tcp_dialog_serves_witness:
  "\<exists>answer conn'. tcp_dialog sample_env (sample_wire ''q'' (sample_request ''OPTIONS'' []))
     [(''q'', sample_choices, 5), (''q'', sample_choices, 6)] sample_connection new_server_state =
       Some ([answer, answer], conn', new_server_state)"
proof -
  let ?r = "refusal 200 ''OK'' [(''CSeq'', ''1''), (''Public'', ''SETUP, TEARDOWN, PLAY, PAUSE'')]"
  have one: "handle_incoming_request sample_env sample_choices new_server_state
      (sample_request ''OPTIONS'' []) a = (Inr ?r, new_server_state)" for a
    by (simp add: server_eval server_options_def refusal_def)
  show ?thesis
    using tcp_dialog_serves [of "[(''q'', sample_choices, 5), (''q'', sample_choices, 6)]"
        "sample_wire ''q'' (sample_request ''OPTIONS'' [])" "\<lambda>_. sample_request ''OPTIONS'' []"
        sample_connection sample_env new_server_state "[?r, ?r]" new_server_state]
    by (auto simp: sample_wire_def sample_connection_def one simp del: tcp_dialog.simps)
qed

text \<open>
  A request that arrives early gets duplicated answers. When a second request is
  read before the send of the first answer has completed, the second send repeats the first
  answer; and the completion of the first send throws and keeps the buffer, since it compares
  its size with the buffer that has grown meanwhile.
\<close>

theorem pipelined_responses_duplicated:
  assumes "parse_request w (in_streambuf conn) = (Some rq1, rest1)"
    and "parse_request w (rest1 @ input) = (Some rq2, rest2)"
    and "last_response_string conn = []"
    and "handle_incoming_request env c1 st rq1 (remote_address conn) = (Inr r1, st1)"
    and "handle_incoming_request env c2 st1 rq2 (remote_address conn) = (Inr r2, st2)"
    and "socket_open conn"
  shows "\<exists>conn1 conn2.
    (let g1 = generate_response (decimal_gen w) r1; g2 = generate_response (decimal_gen w) r2
     in header_read env w c1 None now1 conn st = (Inr (Some g1), conn1, st1) \<and>
        header_read env w c2 None now2 (conn1\<lparr>in_streambuf := in_streambuf conn1 @ input\<rparr>) st1 =
          (Inr (Some (g1 @ g2)), conn2, st2) \<and>
        response_sent None (length g1) conn2 =
          (Inl (Runtime_error ''TCP bytes sent not equal''), conn2) \<and>
        response_sent None (length (g1 @ g2)) conn2 = (Inr (), conn2\<lparr>last_response_string := []\<rparr>))"
proof -
  let ?g1 = "generate_response (decimal_gen w) r1" and ?g2 = "generate_response (decimal_gen w) r2"
  let ?conn1 = "conn\<lparr>last_request_time_point := now1, in_streambuf := rest1,
    last_response_string := ?g1, reading := True\<rparr>"
  let ?conn2 = "?conn1\<lparr>last_request_time_point := now2, in_streambuf := rest2,
    last_response_string := ?g1 @ ?g2\<rparr>"
  have "header_read env w c1 None now1 conn st = (Inr (Some ?g1), ?conn1, st1)"
    using assms(3) by (simp add: header_read_answer [OF assms(1,4,6)] Let_def)
  moreover have "header_read env w c2 None now2 (?conn1\<lparr>in_streambuf := rest1 @ input\<rparr>) st1 =
      (Inr (Some (?g1 @ ?g2)), ?conn2, st2)"
    using assms(2,5,6) by (simp add: header_read_answer [of w _ rq2 rest2 env c2 st1 "Inr r2" st2] Let_def)
  moreover have "?g2 \<noteq> []" by (simp add: generate_response_def)
  ultimately show ?thesis
    by (intro exI [of _ ?conn1] exI [of _ ?conn2]) (simp add: response_sent_def Let_def)
qed

theorem pipelined_responses_duplicated_witness:
  "\<exists>a b conn1 conn2 st2. header_read sample_env
       \<lparr>parse_request = (\<lambda>s. (Some (sample_request ''OPTIONS'' []), tl s)), decimal_gen = decimal\<rparr>
       sample_choices None 2 conn1 new_server_state = (Inr (Some (a @ b)), conn2, st2) \<and>
     fst (response_sent None (length a) conn2) = Inl (Runtime_error ''TCP bytes sent not equal'')"
proof -
  let ?w = "\<lparr>parse_request = (\<lambda>s. (Some (sample_request ''OPTIONS'' []), tl s)), decimal_gen = decimal\<rparr>"
  let ?r = "refusal 200 ''OK'' [(''CSeq'', ''1''), (''Public'', ''SETUP, TEARDOWN, PLAY, PAUSE'')]"
  have one: "handle_incoming_request sample_env sample_choices new_server_state
      (sample_request ''OPTIONS'' []) a = (Inr ?r, new_server_state)" for a
    by (simp add: server_eval server_options_def refusal_def)
  show ?thesis
    using pipelined_responses_duplicated [of ?w sample_connection "sample_request ''OPTIONS'' []" "[]"
        "[]" "sample_request ''OPTIONS'' []" "[]" sample_env sample_choices new_server_state ?r
        new_server_state sample_choices ?r new_server_state 1 2] one
    by (fastforce simp: sample_connection_def Let_def)
qed

text \<open>
  Idle connections. In every history the timer expires at most 480 seconds after the
  last request. A check never closes a connection within 240 seconds of the last request, and
  changes no session then; after 240 seconds it closes the connection and removes every
  session of the remote host. So a connection that falls silent is closed by a check at most
  480 seconds later, plus the delay of the timer, and never before 240.
\<close>

theorem idle_connections_are_closed:
  assumes "tcp_timeline env w conn"
  shows "timer_expiry conn \<le> last_request_time_point conn + 480 \<and>
    (case timeout_check None now conn st of (res, conn', st') \<Rightarrow>
       if now \<le> last_request_time_point conn + 240 then
         res = Inr True \<and> st' = st \<and> socket_open conn' = socket_open conn \<and>
         timer_expiry conn' = timer_expiry conn + 240
       else res = Inr False \<and> \<not> socket_open conn' \<and>
         (\<forall>k. (remote_address conn, k) \<in> set (sessions_by_host st) \<longrightarrow> sessions st' k = None))"
  using timeline_expiry [OF assms]
  by (simp add: timeout_check_def timeout_period_def handle_timeout_of_host_spec timed_out_def)

theorem idle_connections_are_closed_witness:
  "\<not> socket_open (fst (snd (timeout_check None 250 (tcp_start 0 sample_connection) new_server_state)))"
  using idle_connections_are_closed [OF tcp_timeline.started, of 0 sample_connection 250 new_server_state]
  by (simp add: split_def tcp_start_def)

text \<open>
  A SETUP for a range of server ports silences the connection. When the first usable
  transport asks for a range as its server port, the handler throws \<open>bad_get\<close> after the session
  has been created; the connection sends no answer and does not start another read, and the
  session stays in the map in its initial state.
\<close>

theorem server_port_range_silences_connection:
  assumes "server_reach env sp up st"
    and "parse_request w (in_streambuf conn) = (Some rq, rest)"
    and "method_or_extension rq = ''SETUP''" and "request_fields env rq ''cseq'' = Some v" and "v \<noteq> []"
    and "request_fields env rq ''session'' = None" and "request_fields env rq ''require'' = None"
    and "sessions st (drawn_uuid c) = None"
    and "requested_transport env (request_fields env rq) = (requested, [])"
    and "find is_unicast_rtp_udp requested = Some spec"
    and "find (is_port_of [Server]) (parameters spec) = Some (Port Server (Port_range a b))"
    and "get_jpeg_stream env (uri rq) = Some source" and "socket_open conn"
  shows "\<exists>conn' st'. header_read env w c None now conn st = (Inl Bad_get, conn', st') \<and>
    \<not> reading conn' \<and> last_response_string conn' = last_response_string conn \<and>
    abs_sessions st' (drawn_uuid c) = Some Init"
proof -
  note inv = server_reach_inv [OF assms(1)]
  let ?s = "session_for_setup c (remote_address conn) st" and ?rq = "(rq, request_fields env rq)"
  obtain cp ss where chosen: "get_acceptable_transport (drawn_client_port c) (drawn_ssrc c) requested =
      Inr (Some (agreed_transport cp ss (Port_range a b)))"
  proof (cases rule: acceptable_transport_cases
      [where dp = "drawn_client_port c" and ds = "drawn_ssrc c" and requested = requested])
    case (some cp ss server_numbers spec')
    then have "server_numbers = Port_range a b"
      using assms(10,11) by (auto simp: get_acceptable_transport_def Let_def)
    then show ?thesis using some that by simp
  qed (use assms(10) in simp)
  have "methods_setup env c ?s ?rq = (Inl Bad_get, ?s)"
    using assms(4,7,8,9,12) chosen
    by (simp add: methods_setup_def skeleton_eq setup_options_def session_for_setup_def
        sender_for_transport_def)
  then have "setup_new_session env c ?rq (remote_address conn) st = (Inl Bad_get,
      \<lparr>sessions = (sessions st)(drawn_uuid c \<mapsto> ?s),
       sessions_by_host = sessions_by_host st @ [(remote_address conn, drawn_uuid c)]\<rparr>)"
    using setup_new_session_eq [OF inv] assms(3) by simp
  then have "handle_incoming_request env c st rq (remote_address conn) = (Inl Bad_get,
      \<lparr>sessions = (sessions st)(drawn_uuid c \<mapsto> ?s),
       sessions_by_host = sessions_by_host st @ [(remote_address conn, drawn_uuid c)]\<rparr>)"
    using assms(3-6) by (simp add: handle_incoming_request_def Let_def)
  from header_read_answer [OF assms(2) this assms(13)] assms(8) show ?thesis
    by (simp add: Let_def session_for_setup_def)
qed

text \<open>The transport \<open>RTP/AVP;unicast;server_port=6000-6001\<close>.\<close>

definition range_env :: rtsp_env where
  "range_env = sample_env\<lparr>parse_transport := (\<lambda>_.
     ([\<lparr>transport_protocol = ''RTP'', transport_profile = ''AVP'', lower_transport = None,
        parameters = [Other ''unicast'', Port Server (Port_range 6000 6001)]\<rparr>], []))\<rparr>"

theorem server_port_range_silences_connection_witness:
  "\<exists>conn' st'. header_read range_env
       (sample_wire [] (sample_request ''SETUP'' [(''Transport'', ''t'')])) sample_choices None 3
       sample_connection new_server_state = (Inl Bad_get, conn', st') \<and> \<not> reading conn'"
proof -
  let ?rq = "sample_request ''SETUP'' [(''Transport'', ''t'')]"
  have h: "request_fields range_env ?rq = [''cseq'' \<mapsto> ''1'', ''transport'' \<mapsto> ''t'']"
    by (simp add: sample_request_def normalize_headers_def add_header_def range_env_def sample_env_def)
  show ?thesis
    using server_port_range_silences_connection [OF server_reach.start, where env = range_env and
        w = "sample_wire [] ?rq" and conn = sample_connection and rq = ?rq and v = "''1''" and
        rest = "[]" and c = sample_choices and now = 3 and a = 6000 and b = 6001 and
        source = "ascii_digits 1 @ [9]" and requested = "fst (parse_transport range_env [])" and
        spec = "hd (fst (parse_transport range_env []))"]
    unfolding h
    by (auto simp: sample_wire_def sample_connection_def sample_request_def new_server_state_def
        requested_transport_def range_env_def sample_env_def is_unicast_rtp_udp_def
        get_jpeg_stream_def)
qed

end
