(* ===== verification/Rtsp_Client.thy ===== *)
theory Rtsp_Client
  imports Rtsp_Methods Rtsp_Message Rtp_Receiver
begin

section \<open>The client\<close>

text \<open>
  \<open>rtsp_client\<close> of \<open>rtsp_client.cpp\<close>. Everything but the constructor runs on one strand, so the
  client is a state and its closures and handlers are functions on it: the public calls, the
  steps of opening the socket, the reading of responses, and the handlers the requests leave
  in the table of outstanding requests. An exception ends the handler that throws it; the
  event loop catches it and goes on.
\<close>

subsection \<open>State\<close>

text \<open>
  What the client uses of Boost: the parsers of a URL, a response (whether it is valid, and the
  message as far as it was filled in), a sequence number and a transport header, the
  generators of the two headers of SETUP, and lower-casing.
\<close>

record client_env =
  client_lower :: "string \<Rightarrow> string"
  parse_url :: "string \<Rightarrow> (string \<times> string \<times> u16 option \<times> string) option"
  parse_response :: "string \<Rightarrow> bool \<times> response"
  parse_cseq :: "string \<Rightarrow> u32 option"
  parse_server_transport :: "string \<Rightarrow> transport option"
  generate_transport_header :: "transport \<Rightarrow> string option"
  generate_mkn_options :: "mkn_option_parameters \<Rightarrow> string option"
  request_dec :: "u16 \<Rightarrow> string"

record client_settings =
  settings_host :: string
  settings_remainder :: string
  settings_port :: u16
  original_url :: string

text \<open>The closures the client stores for a response, and the calls that lead to them.\<close>

datatype client_call = Setup u16 | Play | Pause | Teardown | Option_call | Describe

text \<open>
  \<open>next_cseq\<close> is \<open>uint_fast32_t\<close>, of which the standard promises thirty-two bits, and is the key of a
  map over \<open>uint32_t\<close>. The closures waiting for the resolver and for the connection are kept in order.
\<close>

record rtsp_client =
  settings :: client_settings
  client_state :: session_state
  client_identifier :: string
  next_cseq :: u32
  outstanding_requests :: "u32 \<rightharpoonup> client_call"
  client_streambuf :: string
  mkn_option :: "mkn_option_parameters option"
  rtp_statistics_handler :: bool
  rtp_receiver :: "(u16 \<times> jpeg_receiver) option"
  is_open :: bool
  resolving :: "client_call list"
  connecting :: "client_call list"
  client_reading :: bool

definition process_url :: "client_env \<Rightarrow> string \<Rightarrow> client_settings result" where
  "process_url env url =
     (case parse_url env url of
        None \<Rightarrow> Inl (Runtime_error (''Could not read URL '' @ [CHR 0x22] @ url @ [CHR 0x22]))
      | Some (scheme, host, port, remainder) \<Rightarrow>
          if scheme \<noteq> ''rtsp:'' then Inl (Runtime_error ''Only rtsp supported'')
          else Inr \<lparr>settings_host = host, settings_remainder = remainder,
                    settings_port = (case port of None \<Rightarrow> 554 | Some p \<Rightarrow> p), original_url = url\<rparr>)"

definition new_rtsp_client :: "client_env \<Rightarrow> string \<Rightarrow> rtsp_client result" where
  "new_rtsp_client env url =
     rbind (process_url env url) (\<lambda>settings.
       Inr \<lparr>settings = settings, client_state = Init, client_identifier = [], next_cseq = 0,
            outstanding_requests = Map.empty, client_streambuf = [], mkn_option = None,
            rtp_statistics_handler = False, rtp_receiver = None, is_open = False,
            resolving = [], connecting = [], client_reading = False\<rparr>)"

definition set_mkn_options :: "bool \<Rightarrow> rat \<Rightarrow> u16 \<Rightarrow> u16 \<Rightarrow> rtsp_client \<Rightarrow> rtsp_client" where
  "set_mkn_options general_switch p k q cl =
     (if \<not> general_switch then cl\<lparr>mkn_option := None\<rparr>
      else cl\<lparr>mkn_option := Some \<lparr>bernoulli_p = p, mkn_fec_k = k, mkn_fec_p = q\<rparr>\<rparr>)"

definition set_rtp_statistics_handler :: "rtsp_client \<Rightarrow> rtsp_client" where
  "set_rtp_statistics_handler cl =
     cl\<lparr>rtp_statistics_handler := True,
        rtp_receiver := map_option (\<lambda>(port, r). (port, set_statistics_handler r)) (rtp_receiver cl)\<rparr>"

subsection \<open>Requests\<close>

definition send_request ::
    "client_env \<Rightarrow> request \<Rightarrow> client_call \<Rightarrow> rtsp_client \<Rightarrow> string \<times> rtsp_client" where
  "send_request env rq response_handler cl =
     (let cseq = next_cseq cl;
          rq = rq\<lparr>request_headers := (''CSeq'', decimal cseq) # request_headers rq\<rparr>
      in (generate_request (request_dec env) rq,
          cl\<lparr>next_cseq := cseq + 1,
             outstanding_requests := (outstanding_requests cl)(cseq \<mapsto> response_handler)\<rparr>))"

definition request_sent :: "string option \<Rightarrow> nat \<Rightarrow> string \<Rightarrow> unit result" where
  "request_sent error bytes_transferred request_string_buffer =
     (case error of
        Some msg \<Rightarrow> Inl (Runtime_error (''Could not send request '' @ msg))
      | None \<Rightarrow>
          if bytes_transferred \<noteq> length request_string_buffer
          then Inl (Runtime_error ''Could not send whole request'') else Inr ())"

definition plain_request :: "string \<Rightarrow> rtsp_client \<Rightarrow> raw_headers \<Rightarrow> request" where
  "plain_request m cl headers =
     \<lparr>method_or_extension = m, uri = original_url (settings cl), request_version_major = 1,
      request_version_minor = 0, request_headers = headers\<rparr>"

definition my_transport :: "u16 \<Rightarrow> transport" where
  "my_transport chosen_rtp_port_by_me =
     [\<lparr>transport_protocol = ''RTP'', transport_profile = ''AVP'', lower_transport = Some ''UDP'',
       parameters = [Other ''unicast'', Port Client (Port_number chosen_rtp_port_by_me)]\<rparr>]"

definition setup_request :: "client_env \<Rightarrow> u16 \<Rightarrow> rtsp_client \<Rightarrow> request result" where
  "setup_request env chosen_port cl =
     (case generate_transport_header env (my_transport chosen_port) of
        None \<Rightarrow> Inl (Logic_error ''Could not generate rtsp transport string'')
      | Some transport_string \<Rightarrow>
          (case mkn_option cl of
             None \<Rightarrow> Inr (plain_request ''SETUP'' cl [(''Transport'', transport_string)])
           | Some opt \<Rightarrow>
               (case generate_mkn_options env opt of
                  None \<Rightarrow> Inl (Logic_error ''Could not generate rtsp mln option string'')
                | Some mkn_option_string \<Rightarrow>
                    Inr (plain_request ''SETUP'' cl
                      [(''Transport'', transport_string), (''Require'', mkn_option_tag),
                       (mkn_option_header, mkn_option_string)]))))"

text \<open>The closures \<open>send_setup_request\<close>, \<open>send_request\<close> and so on of the public calls.\<close>

definition call_request :: "client_env \<Rightarrow> client_call \<Rightarrow> rtsp_client \<Rightarrow> request result" where
  "call_request env call cl =
     (let in_session = [(''session'', client_identifier cl)]
      in case call of
           Setup chosen_port \<Rightarrow> setup_request env chosen_port cl
         | Play \<Rightarrow> Inr (plain_request ''PLAY'' cl in_session)
         | Pause \<Rightarrow> Inr (plain_request ''PAUSE'' cl in_session)
         | Teardown \<Rightarrow> Inr (plain_request ''TEARDOWN'' cl in_session)
         | Option_call \<Rightarrow> Inr (plain_request ''OPTIONS'' cl [])
         | Describe \<Rightarrow> Inr (plain_request ''DESCRIBE'' cl []))"

definition send_call :: "client_env \<Rightarrow> client_call \<Rightarrow> rtsp_client \<Rightarrow> string result \<times> rtsp_client" where
  "send_call env call cl =
     (case call_request env call cl of
        Inl e \<Rightarrow> (Inl e, cl)
      | Inr rq \<Rightarrow> (let (sent, cl) = send_request env rq call cl in (Inr sent, cl)))"

definition call_guard :: "client_call \<Rightarrow> rtsp_client \<Rightarrow> unit result" where
  "call_guard call cl =
     (case call of
        Setup _ \<Rightarrow>
          if client_state cl \<noteq> Init then
            Inl (Runtime_error ''This rtsp client does not like to change transport while playing, which is also optional by rfc'')
          else Inr ()
      | Play \<Rightarrow>
          if client_state cl \<noteq> Ready \<and> client_state cl \<noteq> Playing then
            Inl (Runtime_error ''Can request play, not in rtsp ready or playing state'')
          else Inr ()
      | Pause \<Rightarrow>
          if client_state cl \<noteq> Playing then
            Inl (Runtime_error ''Can request pause, not in rtsp playing state'')
          else Inr ()
      | _ \<Rightarrow> Inr ())"

text \<open>A public call: the text sent, if the socket is open already.\<close>

definition client_request ::
    "client_env \<Rightarrow> client_call \<Rightarrow> rtsp_client \<Rightarrow> string option result \<times> rtsp_client" where
  "client_request env call cl =
     (case call_guard call cl of
        Inl e \<Rightarrow> (Inl e, cl)
      | Inr _ \<Rightarrow>
          if \<not> is_open cl then (Inr None, cl\<lparr>resolving := resolving cl @ [call]\<rparr>)
          else (let (res, cl) = send_call env call cl in (rbind res (\<lambda>sent. Inr (Some sent)), cl)))"

subsection \<open>Opening the socket\<close>

text \<open>
  The handler of the resolver; connecting opens the socket at once. It gets the error or the
  number of entries found.
\<close>

definition resolved :: "string + nat \<Rightarrow> rtsp_client \<Rightarrow> unit result \<times> rtsp_client" where
  "resolved outcome cl =
     (case resolving cl of
        [] \<Rightarrow> (Inr (), cl)
      | call # calls \<Rightarrow>
          (let cl = cl\<lparr>resolving := calls\<rparr>
           in case outcome of
                Inl msg \<Rightarrow> (Inl (Runtime_error msg), cl)
              | Inr n \<Rightarrow>
                  if n = 0 then
                    (Inl (Runtime_error (''Could not resolve host: '' @ original_url (settings cl))), cl)
                  else (Inr (), cl\<lparr>is_open := True, connecting := connecting cl @ [call]\<rparr>)))"

definition connected ::
    "client_env \<Rightarrow> string option \<Rightarrow> rtsp_client \<Rightarrow> string option result \<times> rtsp_client" where
  "connected env error cl =
     (case connecting cl of
        [] \<Rightarrow> (Inr None, cl)
      | call # calls \<Rightarrow>
          (let cl = cl\<lparr>connecting := calls\<rparr>
           in case error of
                Some msg \<Rightarrow> (Inl (Runtime_error (''Could not connect: '' @ msg)), cl)
              | None \<Rightarrow>
                  (let (res, cl) = send_call env call (cl\<lparr>client_reading := True\<rparr>)
                   in (rbind res (\<lambda>sent. Inr (Some sent)), cl))))"

subsection \<open>Responses\<close>

definition process_server_transport_header :: "client_env \<Rightarrow> string \<Rightarrow> (u16 \<times> u32) result" where
  "process_server_transport_header env transport_header =
     (case parse_server_transport env transport_header of
        None \<Rightarrow> Inl (Runtime_error
          (''Could not parse transport from server: '' @ [CHR 0x22] @ transport_header @ [CHR 0x22]))
      | Some transport_from_server \<Rightarrow> process_server_transport transport_from_server)"

text \<open>The handler of a SETUP response; \<open>bound\<close> is whether the receiver can bind its socket.\<close>

definition setup_response ::
    "client_env \<Rightarrow> bool \<Rightarrow> response \<Rightarrow> rtsp_client \<Rightarrow> unit result \<times> rtsp_client" where
  "setup_response env bound r cl =
     (if status_code r < 200 \<or> 300 \<le> status_code r then
        (Inl (Runtime_error (''Got non ok status code: '' @ decimal (status_code r))), cl)
      else
        let headers = normalize_headers (client_lower env) (response_headers r)
        in case (headers ''session'', headers ''transport'') of
             (Some identifier, Some transport_header) \<Rightarrow>
               (let cl = cl\<lparr>client_identifier := identifier\<rparr>
                in case process_server_transport_header env transport_header of
                     Inl e \<Rightarrow> (Inl e, cl)
                   | Inr (port, own_ssrc) \<Rightarrow>
                       if \<not> bound then (Inl System_error, cl)
                       else
                         let receiver = new_jpeg_receiver own_ssrc;
                             receiver = (if rtp_statistics_handler cl
                               then set_statistics_handler receiver else receiver)
                         in (Inr (), cl\<lparr>rtp_receiver := Some (port, receiver), client_state := Ready\<rparr>))
           | _ \<Rightarrow> (Inl (Runtime_error ''Missing session or transport header in setup response''), cl))"

definition response_handler ::
    "client_env \<Rightarrow> bool \<Rightarrow> client_call \<Rightarrow> response \<Rightarrow> rtsp_client \<Rightarrow> unit result \<times> rtsp_client" where
  "response_handler env bound call r cl =
     (case call of
        Setup _ \<Rightarrow> setup_response env bound r cl
      | Play \<Rightarrow> (Inr (), cl\<lparr>client_state := Playing\<rparr>)
      | Pause \<Rightarrow> (Inr (), cl\<lparr>client_state := Ready\<rparr>)
      | Teardown \<Rightarrow> (Inr (), cl\<lparr>client_state := Init\<rparr>)
      | Option_call \<Rightarrow> (Inr (), cl)
      | Describe \<Rightarrow> (Inr (), cl))"

text \<open>
  The end of \<open>header_read\<close>: the handler of a final response is called and removed, and the next
  read is started. The \<open>try\<close> catches \<open>out_of_range\<close> only.
\<close>

definition dispatch_response ::
    "client_env \<Rightarrow> bool \<Rightarrow> u32 \<Rightarrow> response \<Rightarrow> rtsp_client \<Rightarrow> unit result \<times> rtsp_client" where
  "dispatch_response env bound cseq r cl =
     (if status_code r < 200 then (Inr (), cl\<lparr>client_reading := True\<rparr>)
      else case outstanding_requests cl cseq of
        None \<Rightarrow> (Inr (), cl\<lparr>client_reading := True\<rparr>)
      | Some call \<Rightarrow>
          (case response_handler env bound call r cl of
             (Inl e, cl) \<Rightarrow>
               if e = Out_of_range then (Inr (), cl\<lparr>client_reading := True\<rparr>) else (Inl e, cl)
           | (Inr _, cl) \<Rightarrow>
               (Inr (), cl\<lparr>outstanding_requests := (outstanding_requests cl)(cseq := None),
                          client_reading := True\<rparr>)))"

text \<open>
  \<open>header_read\<close>. An invalid response and an unreadable sequence number are only logged; the
  sequence number is then zero. The access to the header is outside of the \<open>try\<close>.
\<close>

definition client_header_read ::
    "client_env \<Rightarrow> bool \<Rightarrow> string option \<Rightarrow> nat \<Rightarrow> rtsp_client \<Rightarrow> unit result \<times> rtsp_client" where
  "client_header_read env bound error bytes_transferred cl =
     (let cl = cl\<lparr>client_reading := False\<rparr>
      in case error of
           Some msg \<Rightarrow> (Inl (Runtime_error msg), cl)
         | None \<Rightarrow>
             (let parser_buffer = take bytes_transferred (client_streambuf cl);
                  cl = cl\<lparr>client_streambuf := drop bytes_transferred (client_streambuf cl)\<rparr>;
                  (valid, r) = parse_response env parser_buffer;
                  headers = normalize_headers (client_lower env) (response_headers r)
              in case map_at headers ''cseq'' of
                   Inl e \<Rightarrow> (Inl e, cl)
                 | Inr cseq_header \<Rightarrow>
                     dispatch_response env bound
                       (case parse_cseq env cseq_header of None \<Rightarrow> 0 | Some n \<Rightarrow> n) r cl))"

subsection \<open>Histories\<close>

datatype client_event =
    Call client_call
  | Set_options bool rat u16 u16
  | Set_statistics
  | Resolved "string + nat"
  | Connected "string option"
  | Data string
  | Read bool "string option" nat

text \<open>One step, if it can happen: the text sent, if any, or the exception, and the new state.\<close>

definition client_step ::
    "client_env \<Rightarrow> client_event \<Rightarrow> rtsp_client \<Rightarrow> (string option result \<times> rtsp_client) option" where
  "client_step env event cl =
     (case event of
        Call call \<Rightarrow> Some (client_request env call cl)
      | Set_options general_switch p k q \<Rightarrow> Some (Inr None, set_mkn_options general_switch p k q cl)
      | Set_statistics \<Rightarrow> Some (Inr None, set_rtp_statistics_handler cl)
      | Resolved outcome \<Rightarrow>
          if resolving cl = [] then None
          else (let (res, cl) = resolved outcome cl in Some (rbind res (\<lambda>_. Inr None), cl))
      | Connected error \<Rightarrow>
          if connecting cl = [] then None else Some (connected env error cl)
      | Data bytes \<Rightarrow> Some (Inr None, cl\<lparr>client_streambuf := client_streambuf cl @ bytes\<rparr>)
      | Read bound error n \<Rightarrow>
          if \<not> client_reading cl then None
          else (let (res, cl) = client_header_read env bound error n cl
                in Some (rbind res (\<lambda>_. Inr None), cl)))"

text \<open>The histories of a client, with the number of requests it has sent.\<close>

inductive client_reach :: "client_env \<Rightarrow> nat \<Rightarrow> rtsp_client \<Rightarrow> bool" for env where
  created: "new_rtsp_client env url = Inr cl \<Longrightarrow> client_reach env 0 cl"
| step: "client_reach env n cl \<Longrightarrow> client_step env event cl = Some (res, cl') \<Longrightarrow>
    client_reach env (if \<exists>text. res = Inr (Some text) then Suc n else n) cl'"

subsection \<open>The invariant of the client\<close>

text \<open>Calls that are only made by a client that has a receiver.\<close>

definition needs_receiver :: "client_call \<Rightarrow> bool" where
  "needs_receiver call \<longleftrightarrow> call = Play \<or> call = Pause"

definition calls_under_way :: "rtsp_client \<Rightarrow> client_call set" where
  "calls_under_way cl = ran (outstanding_requests cl) \<union> set (resolving cl) \<union> set (connecting cl)"

definition receiver_inv :: "rtsp_client \<Rightarrow> bool" where
  "receiver_inv cl \<longleftrightarrow> client_state cl \<noteq> Recording \<and>
     (rtp_receiver cl = None \<longrightarrow>
        client_state cl = Init \<and> (\<forall>call\<in>calls_under_way cl. \<not> needs_receiver call))"

definition cseq_inv :: "nat \<Rightarrow> rtsp_client \<Rightarrow> bool" where
  "cseq_inv n cl \<longleftrightarrow> next_cseq cl = of_nat n \<and>
     (\<forall>k. outstanding_requests cl k \<noteq> None \<longrightarrow> unat k < n)"

text \<open>What sending a call changes.\<close>

lemma send_call_cases:
  assumes "send_call env call cl = (res, cl')"
  obtains (fails) e where "res = Inl e" "cl' = cl"
    | (sends) rq where "res = Inr (generate_request (request_dec env) rq)"
      "hd (request_headers rq) = (''CSeq'', decimal (next_cseq cl))"
      "cl' = cl\<lparr>next_cseq := next_cseq cl + 1,
        outstanding_requests := (outstanding_requests cl)(next_cseq cl \<mapsto> call)\<rparr>"
proof (cases "call_request env call cl")
  case (Inl e)
  then show ?thesis using assms fails [of e] by (simp add: send_call_def)
next
  case (Inr rq)
  then show ?thesis
    using assms sends [of "rq\<lparr>request_headers :=
      (''CSeq'', decimal (next_cseq cl)) # request_headers rq\<rparr>"]
    by (simp add: send_call_def send_request_def Let_def)
qed

lemma of_nat_cseq: "unat (of_nat n :: u32) < Suc n"
  by (simp add: unsigned_of_nat le_imp_less_Suc take_bit_nat_less_eq_self)

lemma send_call_cseq_inv:
  assumes "send_call env call cl = (res, cl')" and "cseq_inv n cl"
  shows "cseq_inv (if isl res then n else Suc n) cl'"
  using assms
  by (cases rule: send_call_cases) (auto simp: cseq_inv_def of_nat_cseq less_SucI)

lemma send_call_receiver_inv:
  assumes "send_call env call cl = (res, cl')" and "receiver_inv cl"
    and "needs_receiver call \<longrightarrow> rtp_receiver cl \<noteq> None"
  shows "receiver_inv cl'"
  using assms
  by (cases rule: send_call_cases)
    (auto simp: receiver_inv_def calls_under_way_def ran_def split: if_splits)

lemma guard_receiver:
  "call_guard call cl = Inr u \<Longrightarrow> receiver_inv cl \<Longrightarrow> needs_receiver call \<Longrightarrow> rtp_receiver cl \<noteq> None"
  by (auto simp: call_guard_def needs_receiver_def receiver_inv_def split: if_splits)

lemma setup_response_cases:
  assumes "setup_response env bound r cl = (res, cl')"
  obtains (fails) e i where "res = Inl e" "cl' = cl\<lparr>client_identifier := i\<rparr>"
    | (succeeds) i port receiver where "res = Inr ()" "200 \<le> status_code r" "status_code r < 300"
      "cl' = cl\<lparr>client_identifier := i, rtp_receiver := Some (port, receiver), client_state := Ready\<rparr>"
proof (cases "status_code r < 200 \<or> 300 \<le> status_code r")
  case True
  then show ?thesis using assms fails [of _ "client_identifier cl"] by (auto simp: setup_response_def)
next
  case False
  then show ?thesis
    using assms fails fails [of _ "client_identifier cl"] succeeds
    by (auto simp: setup_response_def Let_def split: option.splits sum.splits prod.splits if_splits)
qed

lemma response_handler_cases:
  assumes "response_handler env bound call r cl = (res, cl')"
  obtains (fails) e i where "res = Inl e" "cl' = cl\<lparr>client_identifier := i\<rparr>"
    | (sets_up) i port receiver where "res = Inr ()"
      "cl' = cl\<lparr>client_identifier := i, rtp_receiver := Some (port, receiver), client_state := Ready\<rparr>"
    | (moves) x where "res = Inr ()" "cl' = cl\<lparr>client_state := x\<rparr>" "x \<noteq> Recording \<or> x = client_state cl"
      "x \<noteq> Init \<Longrightarrow> needs_receiver call \<or> x = client_state cl"
proof (cases call)
  case (Setup port)
  then have "setup_response env bound r cl = (res, cl')"
    using assms by (simp add: response_handler_def)
  then show ?thesis
    by (cases rule: setup_response_cases) (use fails sets_up in blast)+
next
  case Play
  then show ?thesis using assms moves [of Playing] by (simp add: response_handler_def needs_receiver_def)
next
  case Pause
  then show ?thesis using assms moves [of Ready] by (simp add: response_handler_def needs_receiver_def)
next
  case Teardown
  then show ?thesis using assms moves [of Init] by (simp add: response_handler_def needs_receiver_def)
next
  case Option_call
  then show ?thesis using assms moves [of "client_state cl"] by (simp add: response_handler_def needs_receiver_def)
next
  case Describe
  then show ?thesis using assms moves [of "client_state cl"] by (simp add: response_handler_def needs_receiver_def)
qed

lemma response_handler_frame:
  assumes "response_handler env bound call r cl = (res, cl')"
  shows "next_cseq cl' = next_cseq cl \<and> outstanding_requests cl' = outstanding_requests cl \<and>
    resolving cl' = resolving cl \<and> connecting cl' = connecting cl \<and>
    client_reading cl' = client_reading cl \<and> is_open cl' = is_open cl"
  using assms by (cases rule: response_handler_cases) auto

lemma response_handler_receiver_inv:
  assumes "response_handler env bound call r cl = (res, cl')" and "receiver_inv cl"
    and "needs_receiver call \<longrightarrow> rtp_receiver cl \<noteq> None"
  shows "receiver_inv cl'"
  using assms
  by (cases rule: response_handler_cases)
    (auto simp: receiver_inv_def calls_under_way_def)

lemma client_header_read_cases:
  assumes "client_header_read env bound error n cl = (res, cl')"
  obtains (unanswered) b rd where "cl' = cl\<lparr>client_reading := rd, client_streambuf := b\<rparr>"
    | (refused) b k call r e cl1 where "outstanding_requests cl k = Some call"
      "response_handler env bound call r (cl\<lparr>client_reading := False, client_streambuf := b\<rparr>) =
         (Inl e, cl1)"
      "cl' = cl1\<lparr>client_reading := e = Out_of_range\<rparr>"
    | (answered) b k call r u cl1 where "outstanding_requests cl k = Some call"
      "response_handler env bound call r (cl\<lparr>client_reading := False, client_streambuf := b\<rparr>) =
         (Inr u, cl1)"
      "cl' = cl1\<lparr>outstanding_requests := (outstanding_requests cl1)(k := None), client_reading := True\<rparr>"
proof (cases error)
  case (Some msg)
  then show ?thesis
    using assms unanswered [of "client_streambuf cl" False] by (auto simp: client_header_read_def)
next
  case None
  let ?b = "drop n (client_streambuf cl)"
  let ?cl = "cl\<lparr>client_reading := False, client_streambuf := ?b\<rparr>"
  obtain valid r where r: "parse_response env (take n (client_streambuf cl)) = (valid, r)" by force
  let ?h = "normalize_headers (client_lower env) (response_headers r)"
  show ?thesis
  proof (cases "?h ''cseq''")
    case None
    then show ?thesis
      using assms \<open>error = None\<close> r unanswered [of ?b False]
      by (auto simp: client_header_read_def Let_def map_at_def)
  next
    case (Some val)
    obtain k where "k = (case parse_cseq env val of None \<Rightarrow> 0 | Some n \<Rightarrow> n)" by simp
    then have d: "dispatch_response env bound k r ?cl = (res, cl')"
      using assms \<open>error = None\<close> r Some
      by (simp add: client_header_read_def Let_def map_at_def)
    show ?thesis
    proof (cases "status_code r < 200 \<or> outstanding_requests cl k = None")
      case True
      then have "cl' = ?cl\<lparr>client_reading := True\<rparr>"
        using d by (cases "status_code r < 200") (simp_all add: dispatch_response_def)
      then show ?thesis using unanswered [of ?b True] by simp
    next
      case False
      then obtain call where call: "outstanding_requests cl k = Some call" by auto
      obtain res1 cl1 where h: "response_handler env bound call r ?cl = (res1, cl1)" by force
      have frame: "client_reading cl1 = False" using response_handler_frame [OF h] by simp
      show ?thesis
      proof (cases res1)
        case (Inl e)
        then have "cl' = cl1\<lparr>client_reading := e = Out_of_range\<rparr>"
          using d h frame call False by (auto simp: dispatch_response_def split: if_splits)
        then show ?thesis using h call Inl refused [of k call r ?b e cl1] by simp
      next
        case (Inr u)
        then have "cl' = cl1\<lparr>outstanding_requests := (outstanding_requests cl1)(k := None),
            client_reading := True\<rparr>"
          using d h call False by (simp add: dispatch_response_def)
        then show ?thesis using h call Inr answered [of k call r ?b u cl1] by simp
      qed
    qed
  qed
qed

text \<open>Every step preserves the invariants.\<close>

lemma receiver_inv_simps [simp]:
  "receiver_inv (cl\<lparr>client_reading := rd\<rparr>) = receiver_inv cl"
  "receiver_inv (cl\<lparr>client_streambuf := b\<rparr>) = receiver_inv cl"
  "receiver_inv (cl\<lparr>mkn_option := m\<rparr>) = receiver_inv cl"
  by (simp_all add: receiver_inv_def calls_under_way_def)

lemma cseq_inv_simps [simp]:
  "cseq_inv n (cl\<lparr>client_reading := rd\<rparr>) = cseq_inv n cl"
  "cseq_inv n (cl\<lparr>client_streambuf := b\<rparr>) = cseq_inv n cl"
  "cseq_inv n (cl\<lparr>mkn_option := m\<rparr>) = cseq_inv n cl"
  "cseq_inv n (cl\<lparr>resolving := cs\<rparr>) = cseq_inv n cl"
  "cseq_inv n (cl\<lparr>is_open := op\<rparr>) = cseq_inv n cl"
  "cseq_inv n (cl\<lparr>connecting := cs\<rparr>) = cseq_inv n cl"
  by (simp_all add: cseq_inv_def)

lemma client_header_read_inv [preserved]:
  assumes "client_header_read env bound error n cl = (res, cl')"
  shows "cseq_inv m cl \<Longrightarrow> cseq_inv m cl'" and "receiver_inv cl \<Longrightarrow> receiver_inv cl'"
proof -
  from assms show "cseq_inv m cl'" if "cseq_inv m cl"
  proof (cases rule: client_header_read_cases)
    case (refused b k call r e cl1)
    then show ?thesis using that response_handler_frame [OF refused(2)] by (simp add: cseq_inv_def)
  next
    case (answered b k call r u cl1)
    then show ?thesis using that response_handler_frame [OF answered(2)] by (simp add: cseq_inv_def)
  qed (use that in simp)
  from assms show "receiver_inv cl'" if inv: "receiver_inv cl"
  proof (cases rule: client_header_read_cases)
    case (refused b k call r e cl1)
    then have "needs_receiver call \<longrightarrow> rtp_receiver cl \<noteq> None"
      using inv by (auto simp: receiver_inv_def calls_under_way_def ran_def)
    then show ?thesis using response_handler_receiver_inv [OF refused(2)] refused(3) inv by simp
  next
    case (answered b k call r u cl1)
    then have "needs_receiver call \<longrightarrow> rtp_receiver cl \<noteq> None"
      using inv by (auto simp: receiver_inv_def calls_under_way_def ran_def)
    then have "receiver_inv cl1" using response_handler_receiver_inv [OF answered(2)] inv by simp
    then show ?thesis
      using answered(3) by (auto simp: receiver_inv_def calls_under_way_def ran_def split: if_splits)
  qed (use inv in simp)
qed

lemma client_request_inv [preserved]:
  assumes "client_request env call cl = (res, cl')"
  shows "cseq_inv n cl \<Longrightarrow> cseq_inv (if \<exists>text. res = Inr (Some text) then Suc n else n) cl'"
    and "receiver_inv cl \<Longrightarrow> receiver_inv cl'"
proof -
  obtain res1 cl1 where send: "send_call env call cl = (res1, cl1)" by force
  show "cseq_inv (if \<exists>text. res = Inr (Some text) then Suc n else n) cl'" if "cseq_inv n cl"
    using assms send send_call_cseq_inv [OF send that] that
    by (cases res1) (auto simp: client_request_def Let_def split: sum.splits if_splits)
  show "receiver_inv cl'" if inv: "receiver_inv cl"
  proof (cases "call_guard call cl")
    case (Inl e)
    then show ?thesis using assms inv by (simp add: client_request_def)
  next
    case (Inr u)
    then have "needs_receiver call \<longrightarrow> rtp_receiver cl \<noteq> None"
      using guard_receiver inv by blast
    then show ?thesis
      using assms send send_call_receiver_inv [OF send inv] inv Inr
      by (auto simp: client_request_def Let_def receiver_inv_def calls_under_way_def
          split: if_splits)
  qed
qed

lemma connected_inv [preserved]:
  assumes "connected env error cl = (res, cl')"
  shows "cseq_inv n cl \<Longrightarrow> cseq_inv (if \<exists>text. res = Inr (Some text) then Suc n else n) cl'"
    and "receiver_inv cl \<Longrightarrow> receiver_inv cl'"
proof -
  show "cseq_inv (if \<exists>text. res = Inr (Some text) then Suc n else n) cl'" if inv: "cseq_inv n cl"
  proof (cases "connecting cl = [] \<or> error \<noteq> None")
    case True
    then show ?thesis using assms inv by (auto simp: connected_def Let_def split: list.splits)
  next
    case False
    then obtain call calls where c: "connecting cl = call # calls" by (cases "connecting cl") auto
    let ?cl = "cl\<lparr>connecting := calls, client_reading := True\<rparr>"
    obtain res1 cl1 where send: "send_call env call ?cl = (res1, cl1)" by force
    show ?thesis
      using assms c False send send_call_cseq_inv [OF send, of n] inv
      by (cases res1) (auto simp: connected_def Let_def)
  qed
  show "receiver_inv cl'" if inv: "receiver_inv cl"
  proof (cases "connecting cl")
    case Nil
    then show ?thesis using assms inv by (simp add: connected_def)
  next
    case (Cons call calls)
    let ?cl = "cl\<lparr>connecting := calls, client_reading := True\<rparr>"
    obtain res1 cl1 where send: "send_call env call ?cl = (res1, cl1)" by force
    have inv': "receiver_inv (cl\<lparr>connecting := calls\<rparr>)"
      "needs_receiver call \<longrightarrow> rtp_receiver cl \<noteq> None"
      using inv Cons by (auto simp: receiver_inv_def calls_under_way_def)
    then have "receiver_inv cl1" using send_call_receiver_inv [OF send] by simp
    then show ?thesis
      using assms Cons send inv' by (auto simp: connected_def Let_def split: option.splits)
  qed
qed

lemma resolved_inv [preserved]:
  assumes "resolved outcome cl = (res, cl')"
  shows "cseq_inv n cl \<Longrightarrow> cseq_inv n cl'" and "receiver_inv cl \<Longrightarrow> receiver_inv cl'"
  using assms
  by (auto simp: resolved_def Let_def receiver_inv_def calls_under_way_def
      split: list.splits sum.splits if_splits)

lemma options_inv [preserved]:
  "cseq_inv n cl \<Longrightarrow> cseq_inv n (set_mkn_options general_switch p k q cl)"
  "receiver_inv cl \<Longrightarrow> receiver_inv (set_mkn_options general_switch p k q cl)"
  "cseq_inv n cl \<Longrightarrow> cseq_inv n (set_rtp_statistics_handler cl)"
  "receiver_inv cl \<Longrightarrow> receiver_inv (set_rtp_statistics_handler cl)"
  by (auto simp: set_mkn_options_def set_rtp_statistics_handler_def cseq_inv_def receiver_inv_def
      calls_under_way_def)

lemma created_inv [preserved]:
  "new_rtsp_client env url = Inr cl \<Longrightarrow> cseq_inv 0 cl"
  "new_rtsp_client env url = Inr cl \<Longrightarrow> receiver_inv cl"
  by (auto simp: new_rtsp_client_def rbind_eq_Inr cseq_inv_def receiver_inv_def calls_under_way_def)

lemmas client_step_facts = client_request_inv connected_inv resolved_inv client_header_read_inv
  options_inv

lemma client_step_inv:
  assumes "client_step env event cl = Some (res, cl')"
  shows "cseq_inv n cl \<Longrightarrow> cseq_inv (if \<exists>text. res = Inr (Some text) then Suc n else n) cl'"
    and "receiver_inv cl \<Longrightarrow> receiver_inv cl'"
proof -
  show "cseq_inv (if \<exists>text. res = Inr (Some text) then Suc n else n) cl'" if inv: "cseq_inv n cl"
    using assms inv
    by (cases event)
      (auto simp: client_step_def Let_def rbind_eq_Inr dest: client_step_facts split: if_splits prod.splits)
  show "receiver_inv cl'" if inv: "receiver_inv cl"
    using assms inv
    by (cases event)
      (auto simp: client_step_def Let_def dest: client_step_facts split: if_splits prod.splits)
qed

lemma client_reach_inv: "client_reach env n cl \<Longrightarrow> cseq_inv n cl \<and> receiver_inv cl"
proof (induction rule: client_reach.induct)
  case (created url cl)
  then show ?case by (blast intro: created_inv)
next
  case (step n cl event res cl')
  then show ?case using client_step_inv [OF step.hyps(2)] by blast
qed

subsection \<open>A client that reads no more\<close>

fun client_run :: "client_env \<Rightarrow> client_event list \<Rightarrow> rtsp_client \<Rightarrow> rtsp_client" where
  "client_run env [] cl = cl"
| "client_run env (e # es) cl =
     (case client_step env e cl of None \<Rightarrow> client_run env es cl | Some (_, cl) \<Rightarrow> client_run env es cl)"

definition deaf :: "rtsp_client \<Rightarrow> bool" where
  "deaf cl \<longleftrightarrow> \<not> client_reading cl \<and> is_open cl \<and> resolving cl = [] \<and> connecting cl = []"

lemma send_call_frame:
  "send_call env call cl = (res, cl') \<Longrightarrow>
   client_reading cl' = client_reading cl \<and> is_open cl' = is_open cl \<and> resolving cl' = resolving cl \<and>
   connecting cl' = connecting cl \<and> client_state cl' = client_state cl"
  by (erule send_call_cases) auto

lemma client_request_frame:
  assumes "client_request env call cl = (res, cl')" and "is_open cl"
  shows "client_reading cl' = client_reading cl \<and> is_open cl' \<and> resolving cl' = resolving cl \<and>
   connecting cl' = connecting cl \<and> client_state cl' = client_state cl"
proof (cases "send_call env call cl")
  case (Pair res1 cl1)
  then show ?thesis
    using assms send_call_frame [OF Pair]
    by (auto simp: client_request_def Let_def split: sum.splits)
qed

lemma deaf_step:
  assumes "deaf cl" and "client_step env e cl = Some (res, cl')"
  shows "deaf cl' \<and> client_state cl' = client_state cl"
proof (cases e)
  case (Call call)
  then show ?thesis
    using assms client_request_frame [of env call cl res cl']
    by (simp add: client_step_def deaf_def)
qed (use assms in \<open>auto simp: client_step_def deaf_def set_mkn_options_def
  set_rtp_statistics_handler_def split: if_splits\<close>)

lemma deaf_run:
  "deaf cl \<Longrightarrow> deaf (client_run env es cl) \<and> client_state (client_run env es cl) = client_state cl"
proof (induction es arbitrary: cl)
  case (Cons e es)
  then show ?case
    using deaf_step [OF Cons.prems, of env e] by (cases "client_step env e cl") force+
qed simp

subsection \<open>Properties\<close>

text \<open>
  A client for the witnesses: every response is the given one, every sequence number is zero,
  and the socket is open after one call has been resolved and connected.
\<close>

definition sample_client_env :: "response \<Rightarrow> client_env" where
  "sample_client_env r =
     \<lparr>client_lower = (\<lambda>s. if s = ''CSeq'' then ''cseq'' else s),
      parse_url = (\<lambda>_. Some (''rtsp:'', ''h'', None, ''m'')), parse_response = (\<lambda>_. (True, r)),
      parse_cseq = (\<lambda>_. Some 0), parse_server_transport = (\<lambda>_. Some []),
      generate_transport_header = (\<lambda>_. Some ''t''), generate_mkn_options = (\<lambda>_. Some ''o''),
      request_dec = decimal\<rparr>"

definition sample_client :: "client_call \<Rightarrow> rtsp_client" where
  "sample_client call =
     \<lparr>settings = \<lparr>settings_host = ''h'', settings_remainder = ''m'', settings_port = 554,
        original_url = ''rtsp://h/m''\<rparr>, client_state = Init, client_identifier = [], next_cseq = 1,
      outstanding_requests = [0 \<mapsto> call], client_streambuf = ''x'', mkn_option = None,
      rtp_statistics_handler = False, rtp_receiver = None, is_open = True, resolving = [],
      connecting = [], client_reading = True\<rparr>"

text \<open>The server has no such resource.\<close>

definition refused_setup :: response where
  "refused_setup = \<lparr>response_version_major = 1, response_version_minor = 0, status_code = 404,
      reason_phrase = ''no'', response_headers = [(''CSeq'', ''0'')]\<rparr>"

lemma sample_client_reach: "client_reach (sample_client_env r) 1 (sample_client Option_call)"
proof -
  let ?env = "sample_client_env r"
  let ?c0 = "(sample_client Option_call)\<lparr>next_cseq := 0, outstanding_requests := Map.empty,
    client_streambuf := [], is_open := False, client_reading := False\<rparr>"
  let ?c1 = "?c0\<lparr>resolving := [Option_call]\<rparr>"
  let ?c2 = "?c0\<lparr>is_open := True, connecting := [Option_call]\<rparr>"
  let ?c3 = "(sample_client Option_call)\<lparr>client_streambuf := []\<rparr>"
  have 0: "client_reach ?env 0 ?c0"
    by (rule client_reach.created [of ?env "''rtsp://h/m''"])
      (simp add: new_rtsp_client_def process_url_def sample_client_env_def sample_client_def)
  have "client_step ?env (Call Option_call) ?c0 = Some (Inr None, ?c1)"
    by (simp add: client_step_def client_request_def call_guard_def sample_client_def)
  from client_reach.step [OF 0 this] have 1: "client_reach ?env 0 ?c1" by simp
  have "client_step ?env (Resolved (Inr 1)) ?c1 = Some (Inr None, ?c2)"
    by (simp add: client_step_def resolved_def sample_client_def)
  from client_reach.step [OF 1 this] have 2: "client_reach ?env 0 ?c2" by simp
  have "\<exists>sent. client_step ?env (Connected None) ?c2 = Some (Inr (Some sent), ?c3)"
    by (simp add: client_step_def connected_def send_call_def send_request_def call_request_def
        sample_client_def Let_def)
  then obtain sent where "client_step ?env (Connected None) ?c2 = Some (Inr (Some sent), ?c3)"
    by blast
  from client_reach.step [OF 2 this] have 3: "client_reach ?env 1 ?c3" by simp
  have "client_step ?env (Data ''x'') ?c3 = Some (Inr None, sample_client Option_call)"
    by (simp add: client_step_def sample_client_def)
  from client_reach.step [OF 3 this] show ?thesis by simp
qed

text \<open>
  Sequence numbers. In every history of fewer than 4294967296 requests, the
  sequence number of a request is the number of requests before it, no request is
  outstanding under it, and sending adds exactly the request's own handler, so no handler is
  ever replaced by another.
\<close>

theorem requests_have_fresh_cseq:
  assumes "client_reach env n cl" and "n < 2 ^ 32"
    and "client_step env event cl = Some (Inr (Some sent), cl')"
  shows "outstanding_requests cl (of_nat n) = None \<and>
    (\<exists>rq call. sent = generate_request (request_dec env) rq \<and>
       hd (request_headers rq) = (''CSeq'', decimal_digits n) \<and>
       outstanding_requests cl' = (outstanding_requests cl)(of_nat n \<mapsto> call))"
proof -
  have inv: "next_cseq cl = of_nat n" "\<forall>k. outstanding_requests cl k \<noteq> None \<longrightarrow> unat k < n"
    using client_reach_inv [OF assms(1)] by (auto simp: cseq_inv_def)
  have n: "unat (of_nat n :: u32) = n"
    using assms(2) by (simp add: unsigned_of_nat take_bit_nat_eq_self)
  obtain call cl0 cl1 where send: "send_call env call cl0 = (Inr sent, cl1)" "cl' = cl1"
      "next_cseq cl0 = next_cseq cl" "outstanding_requests cl0 = outstanding_requests cl"
    using assms(3)
    by (cases event)
      (auto simp: client_step_def client_request_def connected_def Let_def rbind_eq_Inr
        split: if_splits prod.splits sum.splits list.splits option.splits)
  from send(1) show ?thesis
  proof (cases rule: send_call_cases)
    case (sends rq)
    then show ?thesis using send inv n by (auto simp: decimal_def)
  qed auto
qed

theorem requests_have_fresh_cseq_witness:
  "\<exists>sent cl'. client_step (sample_client_env refused_setup) (Call Describe) (sample_client Option_call) =
     Some (Inr (Some sent), cl') \<and> outstanding_requests cl' = [0 \<mapsto> Option_call, 1 \<mapsto> Describe]"
proof -
  have "\<exists>sent cl'. client_step (sample_client_env refused_setup) (Call Describe) (sample_client Option_call) =
      Some (Inr (Some sent), cl') \<and> outstanding_requests cl' 1 = Some Describe"
    by (simp add: client_step_def client_request_def call_guard_def send_call_def call_request_def
        send_request_def sample_client_def Let_def)
  then obtain sent cl' where *: "client_step (sample_client_env refused_setup) (Call Describe)
      (sample_client Option_call) = Some (Inr (Some sent), cl')"
      "outstanding_requests cl' 1 = Some Describe" by blast
  then have "outstanding_requests cl' = [0 \<mapsto> Option_call, 1 \<mapsto> Describe]"
    using requests_have_fresh_cseq [OF sample_client_reach [of refused_setup] _ *(1)] by (auto simp: sample_client_def)
  then show ?thesis using * by blast
qed

text \<open>
  A client in a session can receive. In every history, with responses of any
  content in any order, a client is never in the recording state, and when it is ready or
  playing, or has a PLAY or PAUSE outstanding, it owns a receiver.
\<close>

theorem session_has_receiver:
  assumes "client_reach env n cl"
  shows "client_state cl \<noteq> Recording \<and>
    (client_state cl = Ready \<or> client_state cl = Playing \<or>
     (\<exists>k. outstanding_requests cl k = Some Play \<or> outstanding_requests cl k = Some Pause) \<longrightarrow>
     rtp_receiver cl \<noteq> None)"
  using client_reach_inv [OF assms]
  by (auto simp: receiver_inv_def calls_under_way_def needs_receiver_def ran_def)

theorem session_has_receiver_witness:
  "client_reach (sample_client_env refused_setup) 1 (sample_client Option_call) \<and>
   client_state (sample_client Option_call) \<noteq> Recording"
  using sample_client_reach [of refused_setup] session_has_receiver [OF sample_client_reach [of refused_setup]] by simp

text \<open>
  The client ignores the status of PLAY, PAUSE and TEARDOWN. Any final response
  with the sequence number of such a request, also a refusal, moves the client to the state
  the request asked for, removes the handler and goes on reading after the message.
\<close>

theorem client_ignores_status:
  assumes "client_streambuf cl = message @ rest" and "n = length message"
    and "parse_response env message = (valid, r)" and "200 \<le> status_code r"
    and "normalize_headers (client_lower env) (response_headers r) ''cseq'' = Some cseq_header"
    and "parse_cseq env cseq_header = Some k"
    and "outstanding_requests cl k = Some call"
    and "(call, x) \<in> {(Play, Playing), (Pause, Ready), (Teardown, Init)}"
  shows "client_header_read env bound None n cl =
    (Inr (), cl\<lparr>client_streambuf := rest, client_state := x,
               outstanding_requests := (outstanding_requests cl)(k := None), client_reading := True\<rparr>)"
  using assms
  by (auto simp: client_header_read_def map_at_def dispatch_response_def response_handler_def
      Let_def not_less)

text \<open>PLAY is refused with 454, and the client is playing.\<close>

theorem client_ignores_status_witness:
  "client_state (snd (client_header_read (sample_client_env
     \<lparr>response_version_major = 1, response_version_minor = 0, status_code = 454,
      reason_phrase = ''no'', response_headers = [(''CSeq'', ''0'')]\<rparr>)
     True None 1 (sample_client Play))) = Playing"
  using client_ignores_status [of "sample_client Play" "''x''" "[]" 1 "sample_client_env
     \<lparr>response_version_major = 1, response_version_minor = 0, status_code = 454,
      reason_phrase = ''no'', response_headers = [(''CSeq'', ''0'')]\<rparr>" True
     "\<lparr>response_version_major = 1, response_version_minor = 0, status_code = 454,
      reason_phrase = ''no'', response_headers = [(''CSeq'', ''0'')]\<rparr>" "''0''" 0 Play Playing True]
  by (simp add: sample_client_def sample_client_env_def normalize_headers_def add_header_def)

text \<open>
  What silences a client. When a response carries no sequence number, as the
  server's own answer to a request it cannot parse, or refuses a SETUP, the handler throws
  before it starts the next read; from then on, whatever is called and whatever arrives, no
  response is read any more and the session state never changes.
\<close>

theorem client_silenced:
  assumes "client_streambuf cl = message @ rest" and "n = length message"
    and "parse_response env message = (valid, r)"
    and "is_open cl" and "resolving cl = []" and "connecting cl = []"
    and "normalize_headers (client_lower env) (response_headers r) ''cseq'' = None \<or>
      (\<exists>cseq_header k port.
         normalize_headers (client_lower env) (response_headers r) ''cseq'' = Some cseq_header \<and>
         parse_cseq env cseq_header = Some k \<and> outstanding_requests cl k = Some (Setup port) \<and>
         300 \<le> status_code r)"
  shows "\<exists>e cl'. client_header_read env bound None n cl = (Inl e, cl') \<and>
    (\<forall>events. \<not> client_reading (client_run env events cl') \<and>
       client_state (client_run env events cl') = client_state cl)"
proof -
  let ?cl = "cl\<lparr>client_reading := False, client_streambuf := rest\<rparr>"
  have deaf: "deaf ?cl" using assms(4-6) by (simp add: deaf_def)
  have "\<not> status_code r < 200" if "300 \<le> status_code r"
    using that by (simp add: not_less word_le_nat_alt)
  then have "\<exists>e. client_header_read env bound None n cl = (Inl e, ?cl)"
    using assms
    by (auto simp: client_header_read_def map_at_def dispatch_response_def response_handler_def
        setup_response_def Let_def)
  then show ?thesis
    using deaf_run [OF deaf, of env] by (auto simp: deaf_def)
qed

theorem client_silenced_witness:
  "\<exists>e cl'. client_header_read (sample_client_env refused_setup) True None 1 (sample_client (Setup 50000)) =
     (Inl e, cl') \<and>
     client_state (client_run (sample_client_env refused_setup) [Call Option_call, Data ''y'', Read True None 1] cl') =
       Init"
  using client_silenced [of "sample_client (Setup 50000)" "''x''" "[]" 1 "sample_client_env refused_setup"
      True refused_setup True]
  by (fastforce simp: sample_client_def sample_client_env_def normalize_headers_def add_header_def
      refused_setup_def simp del: client_run.simps)

end
