(* ===== verification/Spirit_Text.thy ===== *)
theory Spirit_Text
  imports Prelude
begin

section \<open>The interface to Boost.Spirit's text parsers\<close>

text \<open>
  The header grammars of the code are expressions over the parsers of Boost.Spirit.Qi, which is
  not part of the repository. Expressions are data here, so that a grammar of the code is a
  term with the same shape, and the function that runs an expression is a parameter \<open>qi\<close> of the
  locale \<open>spirit_qi\<close>, whose assumptions state the documented behaviour of each parser. A parser
  returns its attribute and the rest of the input, or \<open>None\<close>.
\<close>

subsection \<open>Attributes and expressions\<close>

text \<open>The rules whose declared attribute type decides an alternative of a variant.\<close>

datatype rule_name = R_ttl | R_port | R_port_range | R_ssrc | R_mode

datatype attr =
    A_unused
  | A_char char
  | A_num nat
  | A_real rat
  | A_sym string
  | A_many "attr list"
  | A_seq "attr list"
  | A_opt "attr option"
  | A_rule rule_name attr

text \<open>
  \<open>lit\<close>, \<open>char_\<close>, \<open>char_(set)\<close>, \<open>cntrl\<close>, \<open>space\<close>, \<open>alnum\<close>, \<open>print\<close>,
  \<open>string\<close>, difference, \<open>uint_parser\<close> with its radix, least and greatest
  number of digits and width, \<open>double_\<close> between zero and one, \<open>symbols\<close>, sequence,
  sequential or \<open>p || q\<close>, alternative,
  \<open>+p\<close>, \<open>*p\<close>, \<open>-p\<close>, \<open>p % q\<close>, a rule with its attribute type, \<open>omit\<close>, and a rule that was
  declared before it is defined.
\<close>

datatype qi_expr =
    Lit string
  | Any_char
  | Char_set string
  | Cntrl
  | Space
  | Alnum
  | Print
  | Str string
  | Diff qi_expr qi_expr
  | Uint_parser nat nat "nat option" nat
  | Unit_double
  | Symbols "string list"
  | Seq "qi_expr list"
  | Seq_or qi_expr qi_expr
  | Alt "qi_expr list"
  | Plus qi_expr
  | Kleene qi_expr
  | Optional qi_expr
  | List_of qi_expr qi_expr
  | Rule rule_name qi_expr
  | Omit qi_expr
  | Recursive

type_synonym qi_parser = "string \<Rightarrow> (attr \<times> string) option"

subsection \<open>Numerals\<close>

definition digit_value :: "char \<Rightarrow> nat option" where
  "digit_value c =
     (let n = of_char c :: nat
      in if 48 \<le> n \<and> n \<le> 57 then Some (n - 48)
         else if 97 \<le> n \<and> n \<le> 102 then Some (n - 87)
         else if 65 \<le> n \<and> n \<le> 70 then Some (n - 55)
         else None)"

definition is_digit :: "nat \<Rightarrow> char \<Rightarrow> bool" where
  "is_digit base c \<longleftrightarrow> (case digit_value c of None \<Rightarrow> False | Some v \<Rightarrow> v < base)"

definition number_value :: "nat \<Rightarrow> string \<Rightarrow> nat" where
  "number_value base ds = foldl (\<lambda>n c. base * n + the (digit_value c)) 0 ds"

text \<open>The longest of the symbols that the input starts with.\<close>

definition symbol_match :: "string list \<Rightarrow> string \<Rightarrow> string option" where
  "symbol_match ws s =
     foldr (\<lambda>w best. if take (length w) s = w \<and>
         (case best of None \<Rightarrow> True | Some b \<Rightarrow> length b < length w) then Some w else best) ws None"

definition is_control :: "char \<Rightarrow> bool" where
  "is_control c \<longleftrightarrow> (of_char c :: nat) < 32 \<or> (of_char c :: nat) = 127"

definition is_space :: "char \<Rightarrow> bool" where
  "is_space c \<longleftrightarrow> c = CHR '' '' \<or> (9 \<le> (of_char c :: nat) \<and> (of_char c :: nat) \<le> 13)"

definition is_alnum :: "char \<Rightarrow> bool" where
  "is_alnum c \<longleftrightarrow>
     (let n = of_char c :: nat
      in 48 \<le> n \<and> n \<le> 57 \<or> 65 \<le> n \<and> n \<le> 90 \<or> 97 \<le> n \<and> n \<le> 122)"

definition is_print :: "char \<Rightarrow> bool" where
  "is_print c \<longleftrightarrow> 32 \<le> (of_char c :: nat) \<and> (of_char c :: nat) < 127"

fun last_attr :: "attr \<Rightarrow> attr" where
  "last_attr (A_seq [a, b]) = b"
| "last_attr a = a"

text \<open>
  \<open>qi::phrase_parse\<close> of a rule without a skipper: white space is skipped before and, after
  success, behind it. The attribute, if the rule matches, and what is left.
\<close>

definition skip_space :: "string \<Rightarrow> string" where
  "skip_space s = dropWhile is_space s"

definition phrase_parse ::
    "(qi_expr \<Rightarrow> qi_parser) \<Rightarrow> qi_expr \<Rightarrow> string \<Rightarrow> attr option \<times> string" where
  "phrase_parse qi e s =
     (case qi e (skip_space s) of
        None \<Rightarrow> (None, skip_space s)
      | Some (a, rest) \<Rightarrow> (Some a, skip_space rest))"

subsection \<open>The documented behaviour\<close>

locale spirit_qi =
  fixes qi :: "qi_expr \<Rightarrow> qi_parser"
  assumes qi_lit: "qi (Lit w) s =
      (if take (length w) s = w then Some (A_unused, drop (length w) s) else None)"
    and qi_any: "qi Any_char s = (case s of [] \<Rightarrow> None | c # r \<Rightarrow> Some (A_char c, r))"
    and qi_set: "qi (Char_set cs) s =
      (case s of [] \<Rightarrow> None | c # r \<Rightarrow> if c \<in> set cs then Some (A_char c, r) else None)"
    and qi_cntrl: "qi Cntrl s =
      (case s of [] \<Rightarrow> None | c # r \<Rightarrow> if is_control c then Some (A_char c, r) else None)"
    and qi_space: "qi Space s =
      (case s of [] \<Rightarrow> None | c # r \<Rightarrow> if is_space c then Some (A_char c, r) else None)"
    and qi_alnum: "qi Alnum s =
      (case s of [] \<Rightarrow> None | c # r \<Rightarrow> if is_alnum c then Some (A_char c, r) else None)"
    and qi_print: "qi Print s =
      (case s of [] \<Rightarrow> None | c # r \<Rightarrow> if is_print c then Some (A_char c, r) else None)"
    and qi_string: "qi (Str w) s =
      (if take (length w) s = w then Some (A_many (map A_char w), drop (length w) s) else None)"
    and qi_diff: "qi (Diff p q) s = (if qi q s = None then qi p s else None)"
    and qi_uint: "qi (Uint_parser base lo hi bits) s =
      (let ds = takeWhile (is_digit base) (case hi of None \<Rightarrow> s | Some m \<Rightarrow> take m s)
       in if length ds < lo \<or> 2 ^ bits \<le> number_value base ds then None
          else Some (A_num (number_value base ds), drop (length ds) s))"
    and qi_symbols: "qi (Symbols ws) s =
      map_option (\<lambda>w. (A_sym w, drop (length w) s)) (symbol_match ws s)"
    and qi_seq_Nil: "qi (Seq []) s = Some (A_seq [], s)"
    and qi_seq_Cons: "qi (Seq (p # ps)) s =
      (case qi p s of None \<Rightarrow> None
       | Some (a, r) \<Rightarrow>
           (case qi (Seq ps) r of Some (A_seq as, t) \<Rightarrow> Some (A_seq (a # as), t) | _ \<Rightarrow> None))"
    and qi_seq_or: "qi (Seq_or p q) s =
      (case qi p s of
         None \<Rightarrow> map_option (\<lambda>(b, t). (A_seq [b], t)) (qi q s)
       | Some (a, r) \<Rightarrow>
           (case qi q r of None \<Rightarrow> Some (A_seq [a], r) | Some (b, t) \<Rightarrow> Some (A_seq [a, b], t)))"
    and qi_alt_Nil: "qi (Alt []) s = None"
    and qi_alt_Cons: "qi (Alt (p # ps)) s = (case qi p s of None \<Rightarrow> qi (Alt ps) s | Some x \<Rightarrow> Some x)"
    and qi_kleene_stop: "qi p s = None \<Longrightarrow> qi (Kleene p) s = Some (A_many [], s)"
    and qi_kleene_step: "qi p s = Some (a, r) \<Longrightarrow> length r < length s \<Longrightarrow>
      qi (Kleene p) r = Some (A_many as, t) \<Longrightarrow> qi (Kleene p) s = Some (A_many (a # as), t)"
    and qi_plus: "qi (Plus p) s =
      (case qi p s of None \<Rightarrow> None
       | Some (a, r) \<Rightarrow>
           (case qi (Kleene p) r of Some (A_many as, t) \<Rightarrow> Some (A_many (a # as), t) | _ \<Rightarrow> None))"
    and qi_opt: "qi (Optional p) s =
      (case qi p s of None \<Rightarrow> Some (A_opt None, s) | Some (a, r) \<Rightarrow> Some (A_opt (Some a), r))"
    and qi_list: "qi (List_of p q) s =
      (case qi p s of None \<Rightarrow> None
       | Some (a, r) \<Rightarrow>
           (case qi (Kleene (Seq [q, p])) r of
              Some (A_many as, t) \<Rightarrow> Some (A_many (a # map last_attr as), t) | _ \<Rightarrow> None))"
    and qi_rule: "qi (Rule n p) s = map_option (\<lambda>(a, r). (A_rule n a, r)) (qi p s)"
    and qi_omit: "qi (Omit p) s = map_option (\<lambda>(a, r). (A_unused, r)) (qi p s)"
begin

lemma lit_here: "qi (Lit w) (w @ s) = Some (A_unused, s)"
  by (simp add: qi_lit)

text \<open>Repetition of single characters.\<close>

lemma kleene_chars:
  assumes "\<And>c r. c \<in> set w \<Longrightarrow> qi p (c # r) = Some (A_char c, r)" and "qi p rest = None"
  shows "qi (Kleene p) (w @ rest) = Some (A_many (map A_char w), rest)"
  using assms(1)
proof (induction w)
  case Nil
  then show ?case using qi_kleene_stop [OF assms(2)] by simp
next
  case (Cons c w)
  then show ?case using qi_kleene_step [of p "c # w @ rest" "A_char c" "w @ rest"] by simp
qed

lemma plus_chars:
  assumes "\<And>c r. c \<in> set w \<Longrightarrow> qi p (c # r) = Some (A_char c, r)" and "qi p rest = None" and "w \<noteq> []"
  shows "qi (Plus p) (w @ rest) = Some (A_many (map A_char w), rest)"
proof -
  obtain c v where w: "w = c # v" using assms(3) by (cases w) auto
  then have "qi (Kleene p) (v @ rest) = Some (A_many (map A_char v), rest)"
    using assms(1,2) by (intro kleene_chars) auto
  then show ?thesis using w assms(1) by (simp add: qi_plus)
qed

text \<open>A numeral with few enough digits.\<close>

lemma uint_numeral:
  assumes "\<forall>c\<in>set ds. is_digit base c" and "lo \<le> length ds" and "length ds \<le> m"
    and "number_value base ds < 2 ^ bits" and "rest = [] \<or> \<not> is_digit base (hd rest) \<or> length ds = m"
  shows "qi (Uint_parser base lo (Some m) bits) (ds @ rest) = Some (A_num (number_value base ds), rest)"
proof -
  have "takeWhile (is_digit base) (take (m - length ds) rest) = []"
    using assms(5) by (cases rest; cases "m - length ds") auto
  then have "takeWhile (is_digit base) (take m (ds @ rest)) = ds"
    using assms(1,3) by (simp add: takeWhile_append2)
  then show ?thesis using assms(2,4) by (simp add: qi_uint Let_def)
qed

lemma uint_numeral_unbounded:
  assumes "\<forall>c\<in>set ds. is_digit base c" and "lo \<le> length ds"
    and "number_value base ds < 2 ^ bits" and "rest = [] \<or> \<not> is_digit base (hd rest)"
  shows "qi (Uint_parser base lo None bits) (ds @ rest) = Some (A_num (number_value base ds), rest)"
proof -
  have "takeWhile (is_digit base) (ds @ rest) = ds"
    using assms(1,4) by (cases rest) (auto simp: takeWhile_append2)
  then show ?thesis using assms(2,3) by (simp add: qi_uint Let_def)
qed

end

subsection \<open>An implementation\<close>

text \<open>
  Parsers that behave as documented: the locale is not empty, and grammars can be run. The
  parser \<open>h\<close> runs the recursive rule.
\<close>

fun seq_run :: "qi_parser list \<Rightarrow> string \<Rightarrow> (attr list \<times> string) option" where
  "seq_run [] s = Some ([], s)"
| "seq_run (p # ps) s =
     (case p s of None \<Rightarrow> None
      | Some (a, r) \<Rightarrow> map_option (\<lambda>(as, t). (a # as, t)) (seq_run ps r))"

fun alt_run :: "qi_parser list \<Rightarrow> qi_parser" where
  "alt_run [] s = None"
| "alt_run (p # ps) s = (case p s of None \<Rightarrow> alt_run ps s | Some x \<Rightarrow> Some x)"

fun many_run :: "nat \<Rightarrow> qi_parser \<Rightarrow> string \<Rightarrow> attr list \<times> string" where
  "many_run 0 p s = ([], s)"
| "many_run (Suc n) p s =
     (case p s of None \<Rightarrow> ([], s)
      | Some (a, r) \<Rightarrow>
          if length r < length s then let (as, t) = many_run n p r in (a # as, t) else ([], s))"

definition kleene_run :: "qi_parser \<Rightarrow> string \<Rightarrow> attr list \<times> string" where
  "kleene_run p s = many_run (length s) p s"

primrec qi_run :: "qi_parser \<Rightarrow> qi_expr \<Rightarrow> qi_parser" where
  "qi_run h (Lit w) = (\<lambda>s.
     if take (length w) s = w then Some (A_unused, drop (length w) s) else None)"
| "qi_run h Any_char = (\<lambda>s. case s of [] \<Rightarrow> None | c # r \<Rightarrow> Some (A_char c, r))"
| "qi_run h (Char_set cs) = (\<lambda>s.
     case s of [] \<Rightarrow> None | c # r \<Rightarrow> if c \<in> set cs then Some (A_char c, r) else None)"
| "qi_run h Cntrl = (\<lambda>s.
     case s of [] \<Rightarrow> None | c # r \<Rightarrow> if is_control c then Some (A_char c, r) else None)"
| "qi_run h Space = (\<lambda>s.
     case s of [] \<Rightarrow> None | c # r \<Rightarrow> if is_space c then Some (A_char c, r) else None)"
| "qi_run h Alnum = (\<lambda>s.
     case s of [] \<Rightarrow> None | c # r \<Rightarrow> if is_alnum c then Some (A_char c, r) else None)"
| "qi_run h Print = (\<lambda>s.
     case s of [] \<Rightarrow> None | c # r \<Rightarrow> if is_print c then Some (A_char c, r) else None)"
| "qi_run h (Str w) = (\<lambda>s.
     if take (length w) s = w then Some (A_many (map A_char w), drop (length w) s) else None)"
| "qi_run h (Diff p q) = (\<lambda>s. case qi_run h q s of None \<Rightarrow> qi_run h p s | Some _ \<Rightarrow> None)"
| "qi_run h (Uint_parser base lo hi bits) = (\<lambda>s.
     let ds = takeWhile (is_digit base) (case hi of None \<Rightarrow> s | Some m \<Rightarrow> take m s)
     in if length ds < lo \<or> 2 ^ bits \<le> number_value base ds then None
        else Some (A_num (number_value base ds), drop (length ds) s))"
| "qi_run h Unit_double = (\<lambda>s.
     if take 3 s = ''0.5'' then Some (A_real (1/2), drop 3 s) else None)"
| "qi_run h (Symbols ws) = (\<lambda>s.
     map_option (\<lambda>w. (A_sym w, drop (length w) s)) (symbol_match ws s))"
| "qi_run h (Seq ps) = (\<lambda>s. map_option (\<lambda>(as, t). (A_seq as, t)) (seq_run (map (qi_run h) ps) s))"
| "qi_run h (Seq_or p q) = (\<lambda>s.
     case qi_run h p s of
       None \<Rightarrow> map_option (\<lambda>(b, t). (A_seq [b], t)) (qi_run h q s)
     | Some (a, r) \<Rightarrow>
         (case qi_run h q r of None \<Rightarrow> Some (A_seq [a], r) | Some (b, t) \<Rightarrow> Some (A_seq [a, b], t)))"
| "qi_run h (Alt ps) = alt_run (map (qi_run h) ps)"
| "qi_run h (Plus p) = (\<lambda>s.
     case qi_run h p s of None \<Rightarrow> None
     | Some (a, r) \<Rightarrow> let (as, t) = kleene_run (qi_run h p) r in Some (A_many (a # as), t))"
| "qi_run h (Kleene p) = (\<lambda>s. let (as, t) = kleene_run (qi_run h p) s in Some (A_many as, t))"
| "qi_run h (Optional p) = (\<lambda>s.
     case qi_run h p s of None \<Rightarrow> Some (A_opt None, s) | Some (a, r) \<Rightarrow> Some (A_opt (Some a), r))"
| "qi_run h (List_of p q) = (\<lambda>s.
     case qi_run h p s of None \<Rightarrow> None
     | Some (a, r) \<Rightarrow>
         let (as, t) = kleene_run
           (\<lambda>s. map_option (\<lambda>(as, t). (A_seq as, t)) (seq_run [qi_run h q, qi_run h p] s)) r
         in Some (A_many (a # map last_attr as), t))"
| "qi_run h (Rule n p) = (\<lambda>s. map_option (\<lambda>(a, r). (A_rule n a, r)) (qi_run h p s))"
| "qi_run h (Omit p) = (\<lambda>s. map_option (\<lambda>(a, r). (A_unused, r)) (qi_run h p s))"
| "qi_run h Recursive = h"

lemma many_run_fuel:
  "length s \<le> n \<Longrightarrow> length s \<le> m \<Longrightarrow> many_run n p s = many_run m p s"
proof (induction n arbitrary: m s)
  case 0
  then show ?case by (cases m) (auto split: option.splits)
next
  case (Suc n)
  show ?case
  proof (cases m)
    case 0
    then show ?thesis using Suc.prems by (auto split: option.splits)
  next
    case (Suc k)
    have "many_run n p r = many_run k p r" if "length r < length s" for r
      using that Suc.prems Suc by (intro Suc.IH) auto
    then show ?thesis using Suc by (auto split: option.splits)
  qed
qed

lemma kleene_run_step:
  assumes "p s = Some (a, r)" and "length r < length s" and "kleene_run p r = (as, t)"
  shows "kleene_run p s = (a # as, t)"
proof -
  obtain n where n: "length s = Suc n" using assms(2) by (cases "length s") auto
  have "many_run n p r = kleene_run p r"
    unfolding kleene_run_def using assms(2) n by (intro many_run_fuel) auto
  then show ?thesis using assms n by (simp add: kleene_run_def)
qed

interpretation run: spirit_qi "qi_run h" for h
proof
  fix p s a r as t
  show "qi_run h (Kleene p) s = Some (A_many [], s)" if "qi_run h p s = None"
    using that by (cases s) (simp_all add: kleene_run_def)
  show "qi_run h (Kleene p) s = Some (A_many (a # as), t)"
    if "qi_run h p s = Some (a, r)" "length r < length s" "qi_run h (Kleene p) r = Some (A_many as, t)"
    using that kleene_run_step [of "qi_run h p" s a r as t] by (simp split: prod.splits)
qed (auto simp: Let_def split: option.splits prod.splits list.splits)

end
