(* ===== verification/Rtsp_Grammar.thy ===== *)
theory Rtsp_Grammar
  imports Spirit_Text Rtsp_Headers Rtsp_Message
begin

section \<open>The header grammars\<close>

text \<open>
  The grammars and generators of \<open>rtsp_headers.hpp\<close>: transports, required options and the
  parameters of the simulated channel. A grammar is an expression of \<open>Spirit_Text\<close> with the
  shape of the rule in the code; the functions that read an attribute as a structure stand for
  the Fusion adaptations. The generators are functions over the number generators, which are
  a parameter with the laws of the locale \<open>number_generators\<close>.
\<close>

subsection \<open>The rules\<close>

definition quote_mark :: string where "quote_mark = [CHR 0x22]"

definition tspecial_chars :: string where
  "tspecial_chars = ''()<>@,;:'' @ [CHR 0x5C, CHR 0x22] @ ''/[]?={} '' @ [CHR 0x09]"

definition ctl :: qi_expr where "ctl = Cntrl"
definition tspecials :: qi_expr where "tspecials = Char_set tspecial_chars"
definition token :: qi_expr where "token = Plus (Diff Any_char (Alt [tspecials, ctl]))"

definition quoted_string :: qi_expr where
  "quoted_string =
     Seq [Lit quote_mark, Plus (Diff Any_char (Alt [ctl, Lit quote_mark])), Lit quote_mark]"

definition transport_protocol_rule :: qi_expr where "transport_protocol_rule = Plus token"
definition profile_rule :: qi_expr where "profile_rule = Plus token"
definition lower_transport_rule :: qi_expr where "lower_transport_rule = Plus token"

definition ttl_rule :: qi_expr where
  "ttl_rule = Rule R_ttl (Seq [Lit ''ttl='', Uint_parser 10 1 (Some 3) 16])"

definition port_type_rule :: qi_expr where
  "port_type_rule = Symbols [''port'', ''server_port'', ''client_port'']"

definition port_range_rule :: qi_expr where
  "port_range_rule = Rule R_port_range
     (Seq [Uint_parser 10 1 (Some 5) 16, Lit ''-'', Uint_parser 10 1 (Some 5) 16])"

definition port_rule :: qi_expr where
  "port_rule = Rule R_port
     (Seq [port_type_rule, Lit ''='', Alt [port_range_rule, Uint_parser 10 1 (Some 5) 16]])"

definition ssrc_rule :: qi_expr where
  "ssrc_rule = Rule R_ssrc (Seq [Lit ''ssrc='', Uint_parser 16 8 (Some 8) 32])"

definition mode_rule :: qi_expr where
  "mode_rule = Rule R_mode (Seq [Lit ''mode='', Alt [token, quoted_string]])"

definition parameter_rule :: qi_expr where
  "parameter_rule = Seq [Lit '';'', Alt [ttl_rule, port_rule, ssrc_rule, mode_rule, token]]"

definition transport_spec_rule :: qi_expr where
  "transport_spec_rule =
     Seq [transport_protocol_rule, Lit ''/'', profile_rule,
          Optional (Seq [Lit ''/'', lower_transport_rule]), Kleene parameter_rule]"

definition require_rule :: qi_expr where
  "require_rule = List_of (Plus token) (Lit '','')"

definition transport_grammar :: qi_expr where
  "transport_grammar = List_of transport_spec_rule (Lit '','')"

definition mkn_grammar :: qi_expr where
  "mkn_grammar =
     Seq [Lit ''bernoulli_p='', Unit_double, Lit '';fec_k='', Uint_parser 10 1 None 16,
          Lit '';fec_p='', Uint_parser 10 1 None 16]"

subsection \<open>Attributes as structures\<close>

fun text_of :: "attr \<Rightarrow> string" where
  "text_of (A_char c) = [c]"
| "text_of (A_many as) = concat (map text_of as)"
| "text_of (A_seq as) = concat (map text_of as)"
| "text_of (A_rule n a) = text_of a"
| "text_of (A_opt (Some a)) = text_of a"
| "text_of _ = []"

fun part :: "attr \<Rightarrow> nat \<Rightarrow> attr" where
  "part (A_seq as) i = (if i < length as then as ! i else A_unused)"
| "part _ i = A_unused"

fun num_of :: "attr \<Rightarrow> nat" where
  "num_of (A_num n) = n"
| "num_of _ = 0"

fun items_of :: "attr \<Rightarrow> attr list" where
  "items_of (A_many as) = as"
| "items_of _ = []"

fun optional_text_of :: "attr \<Rightarrow> string option" where
  "optional_text_of (A_opt a) = map_option text_of a"
| "optional_text_of _ = None"

fun real_of_attr :: "attr \<Rightarrow> rat" where
  "real_of_attr (A_real r) = r"
| "real_of_attr _ = 0"

definition port_type_of :: "attr \<Rightarrow> port_type" where
  "port_type_of a = (if a = A_sym ''server_port'' then Server
     else if a = A_sym ''client_port'' then Client else General)"

definition port_numbers_of :: "attr \<Rightarrow> port_numbers" where
  "port_numbers_of a =
     (case a of
        A_rule _ b \<Rightarrow>
          Port_range (of_nat (num_of (part b 0))) (of_nat (num_of (part b 2)))
      | _ \<Rightarrow> Port_number (of_nat (num_of a)))"

definition parameter_of :: "attr \<Rightarrow> parameter" where
  "parameter_of a =
     (case a of
        A_rule name b \<Rightarrow>
          (case name of
             R_ttl \<Rightarrow> Ttl (of_nat (num_of (part b 1)))
           | R_port \<Rightarrow> Port (port_type_of (part b 0)) (port_numbers_of (part b 2))
           | R_ssrc \<Rightarrow> Ssrc (of_nat (num_of (part b 1)))
           | R_mode \<Rightarrow> Mode (text_of b)
           | R_port_range \<Rightarrow> Other (text_of b))
      | _ \<Rightarrow> Other (text_of a))"

definition transport_spec_of :: "attr \<Rightarrow> transport_spec" where
  "transport_spec_of a =
     \<lparr>transport_protocol = text_of (part a 0), transport_profile = text_of (part a 2),
      lower_transport = optional_text_of (part a 3),
      parameters = map (\<lambda>p. parameter_of (part p 1)) (items_of (part a 4))\<rparr>"

definition transport_of :: "attr \<Rightarrow> transport" where
  "transport_of a = map transport_spec_of (items_of a)"

definition option_tags_of :: "attr \<Rightarrow> string list" where
  "option_tags_of a = map text_of (items_of a)"

definition mkn_options_of :: "attr \<Rightarrow> mkn_option_parameters" where
  "mkn_options_of a =
     \<lparr>bernoulli_p = real_of_attr (part a 1), mkn_fec_k = of_nat (num_of (part a 3)),
      mkn_fec_p = of_nat (num_of (part a 5))\<rparr>"

text \<open>
  The calls of the parsers: \<open>phrase_parse\<close> in the server, with what was read, empty if the parser
  fails, and what was left; \<open>parse\<close> in the client, which ignores what was left.
\<close>

definition read_transport :: "(qi_expr \<Rightarrow> qi_parser) \<Rightarrow> string \<Rightarrow> transport \<times> string" where
  "read_transport qi s =
     (case phrase_parse qi transport_grammar s of
        (None, rest) \<Rightarrow> ([], rest)
      | (Some a, rest) \<Rightarrow> (transport_of a, rest))"

definition read_server_transport :: "(qi_expr \<Rightarrow> qi_parser) \<Rightarrow> string \<Rightarrow> transport option" where
  "read_server_transport qi s = map_option (\<lambda>(a, rest). transport_of a) (qi transport_grammar s)"

definition read_require :: "(qi_expr \<Rightarrow> qi_parser) \<Rightarrow> string \<Rightarrow> string list \<times> string" where
  "read_require qi s =
     (case phrase_parse qi require_rule s of
        (None, rest) \<Rightarrow> ([], rest)
      | (Some a, rest) \<Rightarrow> (option_tags_of a, rest))"

definition read_mkn_options :: "(qi_expr \<Rightarrow> qi_parser) \<Rightarrow> string \<Rightarrow> mkn_option_parameters \<times> string" where
  "read_mkn_options qi s =
     (case qi mkn_grammar s of
        None \<Rightarrow> (\<lparr>bernoulli_p = 0, mkn_fec_k = 0, mkn_fec_p = 0\<rparr>, s)
      | Some (a, rest) \<Rightarrow> (mkn_options_of a, rest))"

subsection \<open>The generators\<close>

record number_gens =
  dec_gen :: "u16 \<Rightarrow> string"
  hex_gen :: "u32 \<Rightarrow> string"
  double_gen :: "rat \<Rightarrow> string"

definition ttl_gen :: "number_gens \<Rightarrow> u16 \<Rightarrow> string" where
  "ttl_gen g n = ''ttl='' @ dec_gen g n"

definition port_type_gen :: "port_type \<Rightarrow> string" where
  "port_type_gen t =
     (case t of General \<Rightarrow> ''port'' | Server \<Rightarrow> ''server_port'' | Client \<Rightarrow> ''client_port'')"

definition port_range_gen :: "number_gens \<Rightarrow> u16 \<Rightarrow> u16 \<Rightarrow> string" where
  "port_range_gen g a b = dec_gen g a @ ''-'' @ dec_gen g b"

definition port_gen :: "number_gens \<Rightarrow> port_type \<Rightarrow> port_numbers \<Rightarrow> string" where
  "port_gen g t ns =
     port_type_gen t @ ''='' @
     (case ns of Port_range a b \<Rightarrow> port_range_gen g a b | Port_number n \<Rightarrow> dec_gen g n)"

definition ssrc_gen :: "number_gens \<Rightarrow> u32 \<Rightarrow> string" where
  "ssrc_gen g s = ''ssrc='' @ hex_gen g s"

definition mode_gen :: "string \<Rightarrow> string" where
  "mode_gen m = ''mode='' @ quote_mark @ m @ quote_mark"

definition parameter_gen :: "number_gens \<Rightarrow> parameter \<Rightarrow> string" where
  "parameter_gen g p =
     '';'' @ (case p of
         Ttl n \<Rightarrow> ttl_gen g n
       | Port t ns \<Rightarrow> port_gen g t ns
       | Ssrc s \<Rightarrow> ssrc_gen g s
       | Mode m \<Rightarrow> mode_gen m
       | Other s \<Rightarrow> s)"

definition transport_spec_gen :: "number_gens \<Rightarrow> transport_spec \<Rightarrow> string" where
  "transport_spec_gen g spec =
     transport_protocol spec @ ''/'' @ transport_profile spec @
     (case lower_transport spec of None \<Rightarrow> [] | Some l \<Rightarrow> ''/'' @ l) @
     concat (map (parameter_gen g) (parameters spec))"

text \<open>The list generator fails on an empty list.\<close>

definition transport_gen :: "number_gens \<Rightarrow> transport \<Rightarrow> string option" where
  "transport_gen g t =
     (if t = [] then None else Some (comma_join (map (transport_spec_gen g) t)))"

definition mkn_gen :: "number_gens \<Rightarrow> mkn_option_parameters \<Rightarrow> string" where
  "mkn_gen g opt =
     ''bernoulli_p='' @ double_gen g (bernoulli_p opt) @ '';fec_k='' @ dec_gen g (mkn_fec_k opt) @
     '';fec_p='' @ dec_gen g (mkn_fec_p opt)"

subsection \<open>Numbers\<close>

text \<open>A numeral without padding.\<close>

definition numeral_of :: "nat \<Rightarrow> nat \<Rightarrow> string \<Rightarrow> bool" where
  "numeral_of base n ds \<longleftrightarrow> ds \<noteq> [] \<and> (\<forall>c\<in>set ds. is_digit base c) \<and> number_value base ds = n \<and>
     (length ds = 1 \<or> digit_value (hd ds) \<noteq> Some 0)"

locale number_generators =
  fixes g :: number_gens
  assumes dec: "numeral_of 10 (unat n) (dec_gen g n)"
    and hex: "numeral_of 16 (unat s) (hex_gen g s)"

lemma number_value_simps [simp]:
  "number_value base [] = 0"
  "number_value base (ds @ [c]) = base * number_value base ds + the (digit_value c)"
  by (simp_all add: number_value_def)

lemma foldl_digits:
  "foldl (\<lambda>n c. base * n + the (digit_value c)) v ds = v * base ^ length ds + number_value base ds"
proof (induction ds rule: rev_induct)
  case (snoc c ds)
  then show ?case by (simp add: algebra_simps)
qed simp

lemma number_value_Cons:
  "number_value base (c # ds) = the (digit_value c) * base ^ length ds + number_value base ds"
  using foldl_digits [of base "the (digit_value c)" ds] by (simp add: number_value_def)

lemma number_value_less:
  assumes "\<forall>c\<in>set ds. is_digit base c"
  shows "number_value base ds < base ^ length ds"
  using assms
proof (induction ds rule: rev_induct)
  case (snoc c ds)
  then have "the (digit_value c) < base" and "number_value base ds < base ^ length ds"
    by (auto simp: is_digit_def split: option.splits)
  then have "base * number_value base ds + the (digit_value c) < base * (number_value base ds + 1)"
    by simp
  also have "\<dots> \<le> base * base ^ length ds"
    using \<open>number_value base ds < base ^ length ds\<close> by (intro mult_le_mono2) simp
  finally show ?case by simp
qed simp

text \<open>The number of digits of a numeral without padding.\<close>

lemma numeral_length:
  assumes "numeral_of base n ds" and "1 < base" and "0 < k"
  shows "length ds \<le> k \<longleftrightarrow> n < base ^ k"
proof
  assume "length ds \<le> k"
  then have "base ^ length ds \<le> base ^ k" using assms(2) by (intro power_increasing) auto
  moreover have "n < base ^ length ds"
    using assms(1) number_value_less [of ds base] by (auto simp: numeral_of_def)
  ultimately show "n < base ^ k" by simp
next
  assume n: "n < base ^ k"
  show "length ds \<le> k"
  proof (rule ccontr)
    assume long: "\<not> length ds \<le> k"
    obtain c cs where ds: "ds = c # cs" using assms(1) by (cases ds) (auto simp: numeral_of_def)
    have "cs \<noteq> []" using long ds assms(3) by auto
    then have "digit_value c \<noteq> Some 0" using assms(1) ds by (simp add: numeral_of_def)
    then have "1 \<le> the (digit_value c)"
      using assms(1) ds by (auto simp: numeral_of_def is_digit_def split: option.splits)
    then have "base ^ length cs \<le> n"
      using assms(1) ds by (auto simp: numeral_of_def number_value_Cons intro: trans_le_add1)
    moreover have "base ^ k \<le> base ^ length cs"
      using long ds assms(2) by (intro power_increasing) auto
    ultimately show False using n by simp
  qed
qed

lemma numeral_digits: "numeral_of base n ds \<Longrightarrow> \<forall>c\<in>set ds. is_digit base c"
  by (simp add: numeral_of_def)

lemma numeral_value: "numeral_of base n ds \<Longrightarrow> number_value base ds = n"
  by (simp add: numeral_of_def)

lemma numeral_nonempty: "numeral_of base n ds \<Longrightarrow> 1 \<le> length ds"
  by (cases ds) (auto simp: numeral_of_def)

subsection \<open>What stops a token\<close>

definition token_char :: "char \<Rightarrow> bool" where
  "token_char c \<longleftrightarrow> c \<notin> set tspecial_chars \<and> \<not> is_control c"

definition token_text :: "string \<Rightarrow> bool" where
  "token_text s \<longleftrightarrow> s \<noteq> [] \<and> (\<forall>c\<in>set s. token_char c)"

definition stops :: "string \<Rightarrow> bool" where
  "stops rest \<longleftrightarrow> rest = [] \<or> \<not> token_char (hd rest)"

text \<open>Where a parameter ends.\<close>

definition boundary :: "string \<Rightarrow> bool" where
  "boundary rest \<longleftrightarrow> rest = [] \<or> hd rest = CHR '';'' \<or> hd rest = CHR '',''"

lemma boundary_simps [simp]:
  "boundary []" "boundary (CHR '';'' # s)" "boundary (CHR '','' # s)"
  by (simp_all add: boundary_def)

lemma boundary_stops: "boundary rest \<Longrightarrow> stops rest"
  by (auto simp: boundary_def stops_def token_char_def tspecial_chars_def)

lemma boundary_no_digit: "boundary rest \<Longrightarrow> rest = [] \<or> \<not> is_digit base (hd rest)"
  by (auto simp: boundary_def is_digit_def digit_value_def Let_def)

lemma not_token_chars [simp]:
  "\<not> token_char (CHR ''='')" "\<not> token_char (CHR '';'')" "\<not> token_char (CHR '','')"
  "\<not> token_char (CHR ''/'')"
  by (simp_all add: token_char_def tspecial_chars_def)

lemma token_char_not_space: "token_char c \<Longrightarrow> \<not> is_space c"
  by (auto simp: token_char_def tspecial_chars_def is_control_def is_space_def)

text \<open>A text with an equals sign is not found at the start of a token.\<close>

lemma token_not_prefix:
  assumes "token_text s" and "boundary rest" and "CHR ''='' \<in> set w"
    and "CHR '';'' \<notin> set w" and "CHR '','' \<notin> set w"
  shows "take (length w) (s @ rest) \<noteq> w"
proof
  assume w: "take (length w) (s @ rest) = w"
  show False
  proof (cases "length w \<le> length s")
    case True
    then have "set w \<subseteq> set s" using w set_take_subset [of "length w" s] by simp
    then have "token_char (CHR ''='')" using assms(1,3) by (auto simp: token_text_def simp del: not_token_chars)
    then show False by simp
  next
    case False
    have "w ! length s = hd rest" "rest \<noteq> []"
    proof -
      have "length s < length (take (length w) (s @ rest))" using w False by simp
      then show "rest \<noteq> []" by auto
      have "take (length w) (s @ rest) ! length s = (s @ rest) ! length s"
        by (rule nth_take) (use False in simp)
      then have "w ! length s = (s @ rest) ! length s" unfolding w .
      then show "w ! length s = hd rest" using \<open>rest \<noteq> []\<close> by (simp add: nth_append hd_conv_nth)
    qed
    moreover have "w ! length s \<in> set w" using False by simp
    ultimately show False using assms(2,4,5) by (auto simp: boundary_def)
  qed
qed

lemma text_of_chars [simp]:
  "concat (map (text_of \<circ> A_char) w) = w" "text_of (A_many (map A_char w)) = w"
  by (induction w) auto

lemma symbol_match_prefix:
  "symbol_match ws s = Some w \<Longrightarrow> w \<in> set ws \<and> take (length w) s = w"
  by (induction ws arbitrary: w) (auto simp: symbol_match_def split: if_splits option.splits)

lemma comma_join_concat:
  "comma_join (v # vs) = v @ concat (map (\<lambda>w. CHR '','' # w) vs)"
  by (induction vs arbitrary: v) simp_all

text \<open>Structures whose texts the grammars read.\<close>

definition quotable :: "string \<Rightarrow> bool" where
  "quotable m \<longleftrightarrow> m \<noteq> [] \<and> (\<forall>c\<in>set m. \<not> is_control c \<and> c \<noteq> CHR 0x22)"

fun wf_parameter :: "parameter \<Rightarrow> bool" where
  "wf_parameter (Ttl n) \<longleftrightarrow> unat n < 1000"
| "wf_parameter (Port t ns) \<longleftrightarrow> True"
| "wf_parameter (Ssrc s) \<longleftrightarrow> 2 ^ 28 \<le> unat s"
| "wf_parameter (Mode m) \<longleftrightarrow> quotable m"
| "wf_parameter (Other s) \<longleftrightarrow> token_text s"

definition wf_transport_spec :: "transport_spec \<Rightarrow> bool" where
  "wf_transport_spec spec \<longleftrightarrow>
     token_text (transport_protocol spec) \<and> token_text (transport_profile spec) \<and>
     (\<forall>l. lower_transport spec = Some l \<longrightarrow> token_text l) \<and>
     (\<forall>p\<in>set (parameters spec). wf_parameter p)"

subsection \<open>Reading back what the generators print\<close>

locale header_codec = spirit_qi qi + number_generators g
  for qi :: "qi_expr \<Rightarrow> qi_parser" and g :: number_gens
begin

lemma token_char_here:
  "token_char c \<Longrightarrow> qi (Diff Any_char (Alt [tspecials, ctl])) (c # r) = Some (A_char c, r)"
  by (simp add: token_char_def tspecials_def ctl_def qi_diff qi_any qi_set qi_cntrl qi_alt_Cons qi_alt_Nil)

lemma token_char_stop:
  "stops rest \<Longrightarrow> qi (Diff Any_char (Alt [tspecials, ctl])) rest = None"
  by (cases rest) (auto simp: stops_def token_char_def tspecials_def ctl_def qi_diff qi_any qi_set
      qi_cntrl qi_alt_Cons qi_alt_Nil)

lemma token_here:
  assumes "token_text w" and "stops rest"
  shows "qi token (w @ rest) = Some (A_many (map A_char w), rest)"
  unfolding token_def using assms token_char_here token_char_stop
  by (intro plus_chars) (auto simp: token_text_def)

lemma token_stop: "stops rest \<Longrightarrow> qi token rest = None"
  by (simp add: token_def qi_plus token_char_stop)

lemma plus_token_here:
  assumes "token_text w" and "stops rest"
  shows "qi (Plus token) (w @ rest) = Some (A_many [A_many (map A_char w)], rest)"
  using token_here [OF assms] qi_kleene_stop [OF token_stop [OF assms(2)]] by (simp add: qi_plus)

lemma dec_here:
  assumes "rest = [] \<or> \<not> is_digit 10 (hd rest)"
  shows "qi (Uint_parser 10 1 (Some 5) 16) (dec_gen g n @ rest) = Some (A_num (unat n), rest)"
proof -
  have "unat n < 10 ^ 5" "unat n < 2 ^ 16" using unat_16_less [of n] by simp_all
  then show ?thesis
    using assms uint_numeral [of "dec_gen g n" 10 1 5 16 rest] numeral_length [OF dec [of n], of 5]
      numeral_digits [OF dec [of n]] numeral_value [OF dec [of n]] numeral_nonempty [OF dec [of n]]
    by auto
qed

lemma dec_here_short:
  assumes "rest = [] \<or> \<not> is_digit 10 (hd rest)" and "unat n < 1000"
  shows "qi (Uint_parser 10 1 (Some 3) 16) (dec_gen g n @ rest) = Some (A_num (unat n), rest)"
  using assms uint_numeral [of "dec_gen g n" 10 1 3 16 rest] numeral_length [OF dec [of n], of 3]
    numeral_digits [OF dec [of n]] numeral_value [OF dec [of n]] numeral_nonempty [OF dec [of n]]
  by auto

lemma dec_here_unbounded:
  assumes "rest = [] \<or> \<not> is_digit 10 (hd rest)"
  shows "qi (Uint_parser 10 1 None 16) (dec_gen g n @ rest) = Some (A_num (unat n), rest)"
  using assms uint_numeral_unbounded [of "dec_gen g n" 10 1 16 rest] unat_16_less [of n]
    numeral_digits [OF dec [of n]] numeral_value [OF dec [of n]] numeral_nonempty [OF dec [of n]]
  by simp

lemma hex_length: "length (hex_gen g s) = 8 \<longleftrightarrow> 2 ^ 28 \<le> unat s" "length (hex_gen g s) \<le> 8"
proof -
  have "unat s < 16 ^ 8" using unsigned_less [of s, where ?'a = nat] by simp
  then show "length (hex_gen g s) \<le> 8"
    using numeral_length [OF hex [of s], of 8] by simp
  then show "length (hex_gen g s) = 8 \<longleftrightarrow> 2 ^ 28 \<le> unat s"
    using numeral_length [OF hex [of s], of 7] by auto
qed

lemma hex_here:
  assumes "2 ^ 28 \<le> unat s"
  shows "qi (Uint_parser 16 8 (Some 8) 32) (hex_gen g s @ rest) = Some (A_num (unat s), rest)"
proof -
  have "unat s < 2 ^ 32" using unsigned_less [of s, where ?'a = nat] by simp
  then show ?thesis
    using assms hex_length [of s] uint_numeral [of "hex_gen g s" 16 8 8 32 rest]
      numeral_digits [OF hex [of s]] numeral_value [OF hex [of s]]
    by simp
qed

text \<open>A shorter SSRC is not read at all.\<close>

lemma hex_short:
  assumes "unat s < 2 ^ 28" and "rest = [] \<or> \<not> is_digit 16 (hd rest)"
  shows "qi (Uint_parser 16 8 (Some 8) 32) (hex_gen g s @ rest) = None"
proof -
  have len: "length (hex_gen g s) < 8" using assms(1) hex_length [of s] by linarith
  have "takeWhile (is_digit 16) (take (8 - length (hex_gen g s)) rest) = []"
    using assms(2) by (cases rest; cases "8 - length (hex_gen g s)") auto
  then have "takeWhile (is_digit 16) (take 8 (hex_gen g s @ rest)) = hex_gen g s"
    using numeral_digits [OF hex [of s]] len by (simp add: takeWhile_append2)
  then show ?thesis using len by (simp add: qi_uint Let_def)
qed

lemma ttl_here:
  assumes "unat n < 1000" and "boundary rest"
  shows "qi ttl_rule (ttl_gen g n @ rest) =
    Some (A_rule R_ttl (A_seq [A_unused, A_num (unat n)]), rest)"
  using dec_here_short [OF boundary_no_digit [OF assms(2)] assms(1)]
  by (simp add: ttl_rule_def ttl_gen_def qi_rule qi_seq_Cons qi_seq_Nil qi_lit)

lemma no_digits [simp]: "\<not> is_digit base (CHR ''-'')"
  by (simp add: is_digit_def digit_value_def)

lemma port_numbers_here:
  assumes "boundary rest"
  shows "\<exists>a. qi (Alt [port_range_rule, Uint_parser 10 1 (Some 5) 16])
      ((case ns of Port_range a b \<Rightarrow> port_range_gen g a b | Port_number n \<Rightarrow> dec_gen g n) @ rest) =
    Some (a, rest) \<and> port_numbers_of a = ns"
proof (cases ns)
  case (Port_number n)
  have "qi (Lit ''-'') rest = None"
    using assms by (cases rest) (auto simp: boundary_def qi_lit)
  then show ?thesis
    using Port_number dec_here [OF boundary_no_digit [OF assms], of n]
    by (simp add: qi_alt_Cons port_range_rule_def qi_rule qi_seq_Cons port_numbers_of_def)
next
  case (Port_range m n)
  have "qi (Uint_parser 10 1 (Some 5) 16) (dec_gen g m @ CHR ''-'' # dec_gen g n @ rest) =
      Some (A_num (unat m), CHR ''-'' # dec_gen g n @ rest)"
    by (rule dec_here) simp
  then show ?thesis
    using Port_range dec_here [OF boundary_no_digit [OF assms], of n]
    by (simp add: qi_alt_Cons port_range_rule_def port_range_gen_def qi_rule qi_seq_Cons qi_seq_Nil
        qi_lit port_numbers_of_def)
qed

lemma port_type_here:
  "qi port_type_rule (port_type_gen t @ CHR ''='' # rest) =
     Some (A_sym (port_type_gen t), CHR ''='' # rest)"
  by (cases t) (simp_all add: port_type_rule_def port_type_gen_def qi_symbols symbol_match_def)

lemma port_here:
  assumes "boundary rest"
  shows "\<exists>a. qi port_rule (port_gen g t ns @ rest) = Some (a, rest) \<and> parameter_of a = Port t ns"
proof -
  obtain a where a: "qi (Alt [port_range_rule, Uint_parser 10 1 (Some 5) 16])
      ((case ns of Port_range a b \<Rightarrow> port_range_gen g a b | Port_number n \<Rightarrow> dec_gen g n) @ rest) =
      Some (a, rest)" "port_numbers_of a = ns"
    using port_numbers_here [OF assms, of ns] by blast
  have t: "port_type_of (A_sym (port_type_gen t)) = t"
    by (cases t) (simp_all add: port_type_of_def port_type_gen_def)
  have "qi port_rule (port_gen g t ns @ rest) =
      Some (A_rule R_port (A_seq [A_sym (port_type_gen t), A_unused, a]), rest)"
    using a port_type_here [of t]
    by (simp add: port_rule_def port_gen_def qi_rule qi_seq_Cons qi_seq_Nil qi_lit)
  then show ?thesis using a(2) t by (simp add: parameter_of_def)
qed

lemma ssrc_here:
  assumes "2 ^ 28 \<le> unat s"
  shows "qi ssrc_rule (ssrc_gen g s @ rest) =
    Some (A_rule R_ssrc (A_seq [A_unused, A_num (unat s)]), rest)"
  using hex_here [OF assms]
  by (simp add: ssrc_rule_def ssrc_gen_def qi_rule qi_seq_Cons qi_seq_Nil qi_lit)

lemma mode_here:
  assumes "quotable m"
  shows "\<exists>a. qi mode_rule (mode_gen m @ rest) = Some (A_rule R_mode a, rest) \<and> text_of a = m"
proof -
  let ?p = "Diff Any_char (Alt [ctl, Lit quote_mark])"
  have "qi ?p (c # r) = Some (A_char c, r)" if "c \<in> set m" for c r
    using that assms
    by (auto simp: quotable_def qi_diff qi_any qi_alt_Cons qi_alt_Nil ctl_def qi_cntrl qi_lit
        quote_mark_def)
  moreover have "qi ?p (CHR 0x22 # rest) = None"
    by (simp add: qi_diff qi_alt_Cons qi_alt_Nil ctl_def qi_cntrl is_control_def qi_lit quote_mark_def)
  ultimately have m: "qi (Plus ?p) (m @ CHR 0x22 # rest) =
      Some (A_many (map A_char m), CHR 0x22 # rest)"
    using assms by (intro plus_chars) (auto simp: quotable_def)
  have "qi token (CHR 0x22 # x) = None" for x
    by (rule token_stop) (simp add: stops_def token_char_def tspecial_chars_def)
  then have "qi mode_rule (mode_gen m @ rest) = Some (A_rule R_mode
      (A_seq [A_unused, A_seq [A_unused, A_many (map A_char m), A_unused]]), rest)"
    using m by (simp add: mode_rule_def mode_gen_def quoted_string_def quote_mark_def qi_rule
        qi_seq_Cons qi_seq_Nil qi_lit qi_alt_Cons)
  then show ?thesis by simp
qed

text \<open>A token is not one of the other parameters.\<close>

lemma token_only:
  assumes "token_text s" and "boundary rest"
  shows "qi ttl_rule (s @ rest) = None" "qi port_rule (s @ rest) = None"
    "qi ssrc_rule (s @ rest) = None" "qi mode_rule (s @ rest) = None"
proof -
  note no = token_not_prefix [OF assms]
  show "qi ttl_rule (s @ rest) = None" "qi ssrc_rule (s @ rest) = None" "qi mode_rule (s @ rest) = None"
    using no [of "''ttl=''"] no [of "''ssrc=''"] no [of "''mode=''"]
    by (simp_all add: ttl_rule_def ssrc_rule_def mode_rule_def qi_rule qi_seq_Cons qi_lit del: take_append)
  show "qi port_rule (s @ rest) = None"
  proof (cases "symbol_match [''port'', ''server_port'', ''client_port''] (s @ rest)")
    case None
    then show ?thesis by (simp add: port_rule_def port_type_rule_def qi_rule qi_seq_Cons qi_symbols)
  next
    case (Some w)
    note w = symbol_match_prefix [OF Some]
    have "take (length w + 1) (s @ rest) \<noteq> w @ ''=''"
      using no [of "w @ ''=''"] w by auto
    moreover have "take (length w + 1) (s @ rest) = w @ take 1 (drop (length w) (s @ rest))"
      using w take_add [of "length w" 1 "s @ rest"] by metis
    ultimately have "take 1 (drop (length w) (s @ rest)) \<noteq> ''=''" by metis
    then show ?thesis
      using Some by (simp add: port_rule_def port_type_rule_def qi_rule qi_seq_Cons qi_symbols qi_lit
          del: take_append drop_append)
  qed
qed

lemma parameter_seq:
  "qi (Alt [ttl_rule, port_rule, ssrc_rule, mode_rule, token]) s = Some (a, rest) \<Longrightarrow>
     qi parameter_rule (CHR '';'' # s) = Some (A_seq [A_unused, a], rest)"
  by (simp add: parameter_rule_def qi_seq_Cons qi_seq_Nil qi_lit)

lemma parameter_here:
  assumes "wf_parameter p" and "boundary rest"
  shows "\<exists>a. qi parameter_rule (parameter_gen g p @ rest) = Some (A_seq [A_unused, a], rest) \<and>
    parameter_of a = p"
proof -
  let ?alt = "Alt [ttl_rule, port_rule, ssrc_rule, mode_rule, token]"
  let ?s = "tl (parameter_gen g p)"
  have "\<exists>a. qi ?alt (?s @ rest) = Some (a, rest) \<and> parameter_of a = p"
  proof (cases p)
    case (Ttl n)
    then show ?thesis using assms ttl_here [of n rest]
      by (simp add: parameter_gen_def qi_alt_Cons parameter_of_def)
  next
    case (Port t ns)
    then have "qi ttl_rule (?s @ rest) = None"
      by (cases t) (simp_all add: parameter_gen_def port_gen_def port_type_gen_def ttl_rule_def
          qi_rule qi_seq_Cons qi_lit)
    then show ?thesis using Port port_here [OF assms(2), of t ns]
      by (auto simp: parameter_gen_def qi_alt_Cons)
  next
    case (Ssrc x)
    then have "qi ttl_rule (?s @ rest) = None" "qi port_rule (?s @ rest) = None"
      by (simp_all add: parameter_gen_def ssrc_gen_def ttl_rule_def port_rule_def
          port_type_rule_def qi_rule qi_seq_Cons qi_lit qi_symbols symbol_match_def)
    then show ?thesis using Ssrc assms ssrc_here [of x rest]
      by (simp add: parameter_gen_def qi_alt_Cons parameter_of_def)
  next
    case (Mode m)
    then have "qi ttl_rule (?s @ rest) = None" "qi port_rule (?s @ rest) = None"
      "qi ssrc_rule (?s @ rest) = None"
      by (simp_all add: parameter_gen_def mode_gen_def ttl_rule_def port_rule_def
          port_type_rule_def ssrc_rule_def qi_rule qi_seq_Cons qi_lit qi_symbols symbol_match_def)
    then show ?thesis using Mode assms mode_here [of m rest]
      by (auto simp: parameter_gen_def qi_alt_Cons parameter_of_def)
  next
    case (Other w)
    then have "token_text w" "?s = w" using assms(1) by (simp_all add: parameter_gen_def)
    then show ?thesis
      using Other token_only [OF _ assms(2), of w] token_here [OF _ boundary_stops [OF assms(2)], of w]
      by (simp add: qi_alt_Cons parameter_of_def)
  qed
  moreover have "parameter_gen g p = CHR '';'' # ?s" by (simp add: parameter_gen_def)
  ultimately show ?thesis by (metis append_Cons parameter_seq)
qed

text \<open>A parameter starts with a semicolon.\<close>

lemma parameter_stop: "rest = [] \<or> hd rest = CHR '','' \<Longrightarrow> qi parameter_rule rest = None"
  by (cases rest) (auto simp: parameter_rule_def qi_seq_Cons qi_lit)

lemma parameters_boundary:
  "boundary rest \<Longrightarrow> boundary (concat (map (parameter_gen g) ps) @ rest)"
  by (cases ps) (auto simp: boundary_def parameter_gen_def)

lemma parameters_then:
  assumes "\<forall>p\<in>set ps. wf_parameter p" and "boundary rest"
    and "qi (Kleene parameter_rule) rest = Some (A_many bs, t)"
  shows "\<exists>as. qi (Kleene parameter_rule) (concat (map (parameter_gen g) ps) @ rest) =
      Some (A_many (as @ bs), t) \<and> map (\<lambda>a. parameter_of (part a 1)) as = ps"
  using assms(1)
proof (induction ps)
  case Nil
  then show ?case using assms(3) by simp
next
  case (Cons p ps)
  let ?r = "concat (map (parameter_gen g) ps) @ rest"
  obtain a where a: "qi parameter_rule (parameter_gen g p @ ?r) = Some (A_seq [A_unused, a], ?r)"
    "parameter_of a = p"
    using parameter_here [of p ?r] parameters_boundary [OF assms(2)] Cons.prems by auto
  obtain as where as: "qi (Kleene parameter_rule) ?r = Some (A_many (as @ bs), t)"
    "map (\<lambda>a. parameter_of (part a 1)) as = ps"
    using Cons by auto
  have "length ?r < length (parameter_gen g p @ ?r)" by (simp add: parameter_gen_def)
  from qi_kleene_step [OF a(1) this as(1)] have
    "qi (Kleene parameter_rule) (concat (map (parameter_gen g) (p # ps)) @ rest) =
      Some (A_many ((A_seq [A_unused, a] # as) @ bs), t)" by simp
  then show ?case using a(2) as(2) by (intro exI [of _ "A_seq [A_unused, a] # as"]) simp
qed

lemma lower_transport_here:
  assumes "boundary rest" and "\<forall>l. lt = Some l \<longrightarrow> token_text l"
  shows "\<exists>a. qi (Optional (Seq [Lit ''/'', lower_transport_rule]))
      ((case lt of None \<Rightarrow> [] | Some l \<Rightarrow> ''/'' @ l) @ rest) = Some (a, rest) \<and> optional_text_of a = lt"
proof (cases lt)
  case None
  then show ?thesis using assms(1) by (cases rest) (auto simp: boundary_def qi_opt qi_seq_Cons qi_lit)
next
  case (Some l)
  then show ?thesis using assms plus_token_here [of l rest] boundary_stops
    by (simp add: lower_transport_rule_def qi_opt qi_seq_Cons qi_seq_Nil qi_lit)
qed

text \<open>A specification, given what the repetition of parameters reads.\<close>

lemma spec_then:
  assumes "token_text protocol" and "token_text profile" and "\<forall>l. lt = Some l \<longrightarrow> token_text l"
    and "boundary ps" and "qi (Kleene parameter_rule) ps = Some (A_many as, rest)"
  shows "\<exists>a. qi transport_spec_rule (protocol @ ''/'' @ profile @
      (case lt of None \<Rightarrow> [] | Some l \<Rightarrow> ''/'' @ l) @ ps) = Some (a, rest) \<and>
    transport_spec_of a = \<lparr>transport_protocol = protocol, transport_profile = profile,
      lower_transport = lt, parameters = map (\<lambda>a. parameter_of (part a 1)) as\<rparr>"
proof -
  let ?l = "case lt of None \<Rightarrow> [] | Some l \<Rightarrow> ''/'' @ l"
  obtain b where b: "qi (Optional (Seq [Lit ''/'', lower_transport_rule])) (?l @ ps) = Some (b, ps)"
    "optional_text_of b = lt"
    using lower_transport_here [OF assms(4,3)] by auto
  have "stops (?l @ ps)"
    using boundary_stops [OF assms(4)] by (cases lt) (auto simp: stops_def)
  then have profile: "qi profile_rule (profile @ ?l @ ps) =
      Some (A_many [A_many (map A_char profile)], ?l @ ps)"
    using assms(2) by (simp add: profile_rule_def plus_token_here)
  have "stops (CHR ''/'' # r)" for r by (simp add: stops_def)
  then have "qi transport_protocol_rule (protocol @ CHR ''/'' # r) =
      Some (A_many [A_many (map A_char protocol)], CHR ''/'' # r)" for r
    using assms(1) by (simp add: transport_protocol_rule_def plus_token_here)
  then have "qi transport_spec_rule (protocol @ ''/'' @ profile @ ?l @ ps) =
      Some (A_seq [A_many [A_many (map A_char protocol)], A_unused,
        A_many [A_many (map A_char profile)], b, A_many as], rest)"
    using profile b(1) assms(5)
    by (simp add: transport_spec_rule_def qi_seq_Cons qi_seq_Nil qi_lit)
  then show ?thesis using b(2) by (simp add: transport_spec_of_def)
qed

lemma transport_spec_here:
  assumes "wf_transport_spec spec" and "rest = [] \<or> hd rest = CHR '',''"
  shows "\<exists>a. qi transport_spec_rule (transport_spec_gen g spec @ rest) = Some (a, rest) \<and>
    transport_spec_of a = spec"
proof -
  let ?ps = "concat (map (parameter_gen g) (parameters spec)) @ rest"
  have bd: "boundary rest" using assms(2) by (auto simp: boundary_def)
  obtain as where as: "qi (Kleene parameter_rule) ?ps = Some (A_many (as @ []), rest)"
    "map (\<lambda>a. parameter_of (part a 1)) as = parameters spec"
    using parameters_then [OF _ bd qi_kleene_stop [OF parameter_stop [OF assms(2)]], of "parameters spec"]
      assms(1) by (auto simp: wf_transport_spec_def)
  have "boundary ?ps" using bd by (rule parameters_boundary)
  from spec_then [OF _ _ _ this as(1), of "transport_protocol spec" "transport_profile spec"
      "lower_transport spec"] assms(1) as(2)
  show ?thesis by (auto simp: wf_transport_spec_def transport_spec_gen_def)
qed

text \<open>The specifications after the first one.\<close>

lemma more_specs_here:
  assumes "\<forall>spec\<in>set specs. wf_transport_spec spec"
  shows "\<exists>as. qi (Kleene (Seq [Lit '','', transport_spec_rule]))
      (concat (map (\<lambda>spec. CHR '','' # transport_spec_gen g spec) specs)) = Some (A_many as, []) \<and>
    map (transport_spec_of \<circ> last_attr) as = specs"
  using assms
proof (induction specs)
  case Nil
  have "qi (Seq [Lit '','', transport_spec_rule]) [] = None" by (simp add: qi_seq_Cons qi_lit)
  then show ?case using qi_kleene_stop by simp
next
  case (Cons spec specs)
  let ?r = "concat (map (\<lambda>spec. CHR '','' # transport_spec_gen g spec) specs)"
  have "?r = [] \<or> hd ?r = CHR '',''" by (cases specs) auto
  then obtain a where a: "qi transport_spec_rule (transport_spec_gen g spec @ ?r) = Some (a, ?r)"
    "transport_spec_of a = spec"
    using transport_spec_here [of spec ?r] Cons.prems by auto
  then have step: "qi (Seq [Lit '','', transport_spec_rule])
      (CHR '','' # transport_spec_gen g spec @ ?r) = Some (A_seq [A_unused, a], ?r)"
    by (simp add: qi_seq_Cons qi_seq_Nil qi_lit)
  obtain as where as: "qi (Kleene (Seq [Lit '','', transport_spec_rule])) ?r = Some (A_many as, [])"
    "map (transport_spec_of \<circ> last_attr) as = specs"
    using Cons by auto
  from qi_kleene_step [OF step _ as(1)] show ?case using a(2) as(2) by auto
qed

text \<open>A printed transport is not empty and does not start with a space.\<close>

lemma transport_gen_skip:
  assumes "\<forall>spec\<in>set t. wf_transport_spec spec" and "transport_gen g t = Some s"
  shows "skip_space s = s"
proof -
  obtain spec specs where t: "t = spec # specs" using assms(2) by (cases t) (auto simp: transport_gen_def)
  obtain c cs where "transport_protocol spec = c # cs" "token_char c"
    using assms(1) t by (cases "transport_protocol spec") (auto simp: wf_transport_spec_def token_text_def)
  then show ?thesis
    using assms(2) t by (auto simp: transport_gen_def comma_join_concat transport_spec_gen_def
        skip_space_def token_char_not_space)
qed

lemma transport_here:
  assumes "\<forall>spec\<in>set t. wf_transport_spec spec" and "transport_gen g t = Some s"
  shows "\<exists>a. qi transport_grammar s = Some (a, []) \<and> transport_of a = t"
proof -
  obtain spec specs where t: "t = spec # specs" using assms(2) by (cases t) (auto simp: transport_gen_def)
  let ?r = "concat (map (\<lambda>spec. CHR '','' # transport_spec_gen g spec) specs)"
  have "?r = [] \<or> hd ?r = CHR '',''" by (cases specs) auto
  then obtain a where a: "qi transport_spec_rule (transport_spec_gen g spec @ ?r) = Some (a, ?r)"
    "transport_spec_of a = spec"
    using transport_spec_here [of spec ?r] assms(1) t by auto
  obtain as where as: "qi (Kleene (Seq [Lit '','', transport_spec_rule])) ?r = Some (A_many as, [])"
    "map (transport_spec_of \<circ> last_attr) as = specs"
    using more_specs_here [of specs] assms(1) t by auto
  have "s = transport_spec_gen g spec @ ?r"
    using t assms(2) by (simp add: transport_gen_def comma_join_concat comp_def)
  then show ?thesis using a as t by (simp add: transport_grammar_def qi_list transport_of_def)
qed

text \<open>The options of the simulated channel.\<close>

lemma mkn_options_here:
  assumes "\<And>rest. qi Unit_double (double_gen g (bernoulli_p opt) @ CHR '';'' # rest) =
    Some (A_real (bernoulli_p opt), CHR '';'' # rest)"
  shows "read_mkn_options qi (mkn_gen g opt) = (opt, [])"
proof -
  have k: "qi (Uint_parser 10 1 None 16) (dec_gen g n @ CHR '';'' # rest) =
      Some (A_num (unat n), CHR '';'' # rest)" for n rest
    by (rule dec_here_unbounded) (simp add: is_digit_def digit_value_def)
  have "qi (Uint_parser 10 1 None 16) (dec_gen g n) = Some (A_num (unat n), [])" for n
    using dec_here_unbounded [of "[]" n] by simp
  then show ?thesis
    using k assms by (simp add: read_mkn_options_def mkn_grammar_def mkn_gen_def qi_seq_Cons qi_seq_Nil
        qi_lit mkn_options_of_def)
qed

lemma require_here:
  assumes "token_text tag"
  shows "read_require qi tag = ([tag], [])"
proof -
  have "skip_space tag = tag"
    using assms by (cases tag) (auto simp: token_text_def skip_space_def token_char_not_space)
  moreover have "qi (Plus token) tag = Some (A_many [A_many (map A_char tag)], [])"
    using plus_token_here [OF assms, of "[]"] by (simp add: stops_def)
  moreover have "qi (Kleene (Seq [Lit '','', Plus token])) [] = Some (A_many [], [])"
    by (rule qi_kleene_stop) (simp add: qi_seq_Cons qi_lit)
  ultimately show ?thesis
    by (simp add: read_require_def phrase_parse_def require_rule_def qi_list option_tags_of_def
        skip_space_def)
qed

text \<open>An SSRC with less than eight digits is read as a token, up to its equals sign.\<close>

lemma short_ssrc_here:
  assumes "unat x < 2 ^ 28" and "boundary rest"
  shows "qi (Kleene parameter_rule) (parameter_gen g (Ssrc x) @ rest) =
    Some (A_many [A_seq [A_unused, A_many (map A_char ''ssrc'')]], CHR ''='' # hex_gen g x @ rest)"
proof -
  let ?r = "CHR ''='' # hex_gen g x @ rest"
  have "qi ttl_rule (''ssrc'' @ ?r) = None" "qi port_rule (''ssrc'' @ ?r) = None"
    "qi mode_rule (''ssrc'' @ ?r) = None"
    by (simp_all add: ttl_rule_def port_rule_def port_type_rule_def mode_rule_def qi_rule qi_seq_Cons
        qi_lit qi_symbols symbol_match_def)
  moreover have "qi ssrc_rule (''ssrc'' @ ?r) = None"
    using hex_short [OF assms(1) boundary_no_digit [OF assms(2)]]
    by (simp add: ssrc_rule_def qi_rule qi_seq_Cons qi_lit)
  moreover have "qi token (''ssrc'' @ ?r) = Some (A_many (map A_char ''ssrc''), ?r)"
    by (rule token_here) (simp_all add: token_text_def stops_def token_char_def tspecial_chars_def
        is_control_def)
  ultimately have "qi (Alt [ttl_rule, port_rule, ssrc_rule, mode_rule, token]) (''ssrc'' @ ?r) =
      Some (A_many (map A_char ''ssrc''), ?r)"
    by (simp add: qi_alt_Cons)
  from parameter_seq [OF this] have "qi parameter_rule (parameter_gen g (Ssrc x) @ rest) =
      Some (A_seq [A_unused, A_many (map A_char ''ssrc'')], ?r)"
    by (simp add: parameter_gen_def ssrc_gen_def)
  moreover have "qi (Kleene parameter_rule) ?r = Some (A_many [], ?r)"
    by (rule qi_kleene_stop) (simp add: parameter_rule_def qi_seq_Cons qi_lit)
  ultimately show ?thesis
    using qi_kleene_step [of parameter_rule "parameter_gen g (Ssrc x) @ rest" _ ?r "[]" ?r]
    by (simp add: parameter_gen_def ssrc_gen_def)
qed

lemma short_ssrc_transport:
  assumes "wf_transport_spec (spec\<lparr>parameters := ps\<rparr>)" and "unat x < 2 ^ 28"
    and "parameters spec = ps @ Ssrc x # qs" and "transport_gen g [spec] = Some s"
  shows "\<exists>a rest. qi transport_grammar s = Some (a, CHR ''='' # rest) \<and>
    transport_of a = [spec\<lparr>parameters := ps @ [Other ''ssrc'']\<rparr>]"
proof -
  let ?qs = "concat (map (parameter_gen g) qs)"
  let ?r = "CHR ''='' # hex_gen g x @ ?qs"
  have "boundary ?qs" using parameters_boundary [of "[]" qs] by simp
  from short_ssrc_here [OF assms(2) this] have x: "qi (Kleene parameter_rule)
      (parameter_gen g (Ssrc x) @ ?qs) = Some (A_many [A_seq [A_unused, A_many (map A_char ''ssrc'')]], ?r)" .
  have b: "boundary (parameter_gen g (Ssrc x) @ ?qs)" by (simp add: parameter_gen_def)
  have wf: "\<forall>p\<in>set ps. wf_parameter p" using assms(1) by (simp add: wf_transport_spec_def)
  obtain as where as: "qi (Kleene parameter_rule)
      (concat (map (parameter_gen g) ps) @ parameter_gen g (Ssrc x) @ ?qs) =
      Some (A_many (as @ [A_seq [A_unused, A_many (map A_char ''ssrc'')]]), ?r)"
    "map (\<lambda>a. parameter_of (part a 1)) as = ps"
    using parameters_then [OF wf b x] by auto
  have other: "parameter_of (A_many (map A_char ''ssrc'')) = Other ''ssrc''"
    by (simp add: parameter_of_def)
  obtain a where a: "qi transport_spec_rule s = Some (a, ?r)"
    "transport_spec_of a = spec\<lparr>parameters := ps @ [Other ''ssrc'']\<rparr>"
    using spec_then [OF _ _ _ parameters_boundary [OF b] as(1), of "transport_protocol spec"
        "transport_profile spec" "lower_transport spec"] assms(1,3,4) as(2) other
    by (auto simp: wf_transport_spec_def transport_gen_def transport_spec_gen_def)
  have "qi (Seq [Lit '','', transport_spec_rule]) ?r = None" by (simp add: qi_seq_Cons qi_lit)
  then show ?thesis
    using a qi_kleene_stop by (simp add: transport_grammar_def qi_list transport_of_def)
qed

end

subsection \<open>Number generators\<close>

definition digit_char :: "nat \<Rightarrow> char" where
  "digit_char n = (if n < 10 then char_of (48 + n) else char_of (87 + n))"

fun hexadecimal_digits :: "nat \<Rightarrow> string" where
  "hexadecimal_digits n =
     (if n < 16 then [digit_char n] else hexadecimal_digits (n div 16) @ [digit_char (n mod 16)])"

declare hexadecimal_digits.simps [simp del]

definition number_texts :: number_gens where
  "number_texts = \<lparr>dec_gen = decimal, hex_gen = (\<lambda>s. hexadecimal_digits (unat s)),
     double_gen = (\<lambda>r. if r = 1/2 then ''0.5'' else ''0'')\<rparr>"

lemma digit_value_char: "n < 16 \<Longrightarrow> digit_value (digit_char n) = Some n"
  by (auto simp: digit_char_def digit_value_def Let_def)

lemma numeral_single:
  assumes "n < base" and "digit_value c = Some n"
  shows "numeral_of base n [c]"
  using assms by (simp add: numeral_of_def is_digit_def number_value_def)

lemma numeral_snoc:
  assumes "numeral_of base (n div base) ds" and "base \<le> n" and "1 < base"
    and "digit_value c = Some (n mod base)"
  shows "numeral_of base n (ds @ [c])"
proof -
  have "1 \<le> n div base" using assms(2,3) by (simp add: Suc_le_eq div_greater_zero_iff)
  have "digit_value (hd ds) \<noteq> Some 0"
  proof (cases "length ds = 1")
    case True
    then obtain d where "ds = [d]" by (cases ds) auto
    then show ?thesis
      using assms(1) \<open>1 \<le> n div base\<close> by (auto simp: numeral_of_def number_value_def)
  next
    case False
    then show ?thesis using assms(1) by (simp add: numeral_of_def)
  qed
  then show ?thesis using assms by (auto simp: numeral_of_def is_digit_def)
qed

lemma numeral_decimal: "numeral_of 10 n (decimal_digits n)"
proof (induction n rule: decimal_digits.induct)
  case (1 n)
  have d: "digit_value (char_of (48 + k)) = Some k" if "k < 10" for k
    using digit_value_char [of k] that by (simp add: digit_char_def)
  show ?case
  proof (cases "n < 10")
    case True
    then show ?thesis using d by (simp add: decimal_digits.simps [of n] numeral_single)
  next
    case False
    then show ?thesis
      using 1 d [of "n mod 10"] numeral_snoc [of 10 n]
      by (simp add: decimal_digits.simps [of n])
  qed
qed

lemma numeral_hexadecimal: "numeral_of 16 n (hexadecimal_digits n)"
proof (induction n rule: hexadecimal_digits.induct)
  case (1 n)
  show ?case
  proof (cases "n < 16")
    case True
    then show ?thesis
      by (simp add: hexadecimal_digits.simps [of n] numeral_single digit_value_char)
  next
    case False
    then show ?thesis
      using 1 digit_value_char [of "n mod 16"] numeral_snoc [of 16 n]
      by (simp add: hexadecimal_digits.simps [of n])
  qed
qed

interpretation texts: number_generators number_texts
  by unfold_locales (simp_all add: number_texts_def decimal_def numeral_decimal numeral_hexadecimal)

interpretation codec: header_codec "qi_run h" number_texts for h ..

text \<open>What both sides read from a printed transport.\<close>

lemma read_transport_text:
  assumes "header_codec qi g" and "\<forall>spec\<in>set t. wf_transport_spec spec" and "transport_gen g t = Some s"
  shows "read_transport qi s = (t, [])" "read_server_transport qi s = Some t"
proof -
  obtain a where "qi transport_grammar s = Some (a, [])" "transport_of a = t"
    using header_codec.transport_here [OF assms] by blast
  then show "read_transport qi s = (t, [])" "read_server_transport qi s = Some t"
    using header_codec.transport_gen_skip [OF assms]
    by (simp_all add: read_transport_def read_server_transport_def phrase_parse_def skip_space_def)
qed

text \<open>
  What the client reads from a transport that the server has chosen: the server prints the SSRC
  without padding and the client wants eight digits.
\<close>

lemma chosen_transport_read:
  assumes "header_codec qi g" and "get_acceptable_transport dp ds requested = Inr (Some chosen)"
  shows "\<exists>s t port ssrc. transport_gen g [chosen] = Some s \<and> read_server_transport qi s = Some t \<and>
    parameters chosen ! 1 = Port Client (Port_number port) \<and> parameters chosen ! 2 = Ssrc ssrc \<and>
    process_server_transport t =
      (if 2 ^ 28 \<le> unat ssrc then Inr (port, ssrc)
       else Inl (Runtime_error ''No ssrc parameter found in server transport specification''))"
proof (cases rule: acceptable_transport_cases [where dp = dp and ds = ds and requested = requested])
  case none
  then show ?thesis using assms(2) by simp
next
  case (some port ssrc sn spec)
  let ?ps = "[Other ''unicast'', Port Client (Port_number port)]"
  have chosen: "chosen = \<lparr>transport_protocol = ''RTP'', transport_profile = ''AVP'',
      lower_transport = Some ''UDP'', parameters = ?ps @ Ssrc ssrc # [Port Server sn]\<rparr>"
    using assms(2) some(2) by simp
  obtain s where s: "transport_gen g [chosen] = Some s" by (simp add: transport_gen_def)
  have tokens: "token_text ''RTP'' \<and> token_text ''AVP'' \<and> token_text ''UDP'' \<and> token_text ''unicast''"
    by (simp add: token_text_def token_char_def tspecial_chars_def is_control_def)
  show ?thesis
  proof (cases "2 ^ 28 \<le> unat ssrc")
    case True
    then have "\<forall>spec\<in>set [chosen]. wf_transport_spec spec"
      using tokens by (simp add: chosen wf_transport_spec_def)
    then obtain a where "qi transport_grammar s = Some (a, [])" "transport_of a = [chosen]"
      using header_codec.transport_here [OF assms(1) _ s] by blast
    then show ?thesis
      using True s by (intro exI [of _ s] exI [of _ "[chosen]"] exI [of _ port] exI [of _ ssrc])
        (simp add: chosen read_server_transport_def process_server_transport_def is_unicast_rtp_udp_def)
  next
    case False
    have "wf_transport_spec (chosen\<lparr>parameters := ?ps\<rparr>)"
      using tokens by (simp add: chosen wf_transport_spec_def)
    then obtain a rest where "qi transport_grammar s = Some (a, CHR ''='' # rest)"
      "transport_of a = [chosen\<lparr>parameters := ?ps @ [Other ''ssrc'']\<rparr>]"
      using header_codec.short_ssrc_transport [OF assms(1) _ _ _ s, of ?ps ssrc "[Port Server sn]"]
        False chosen by (auto simp: not_le)
    then show ?thesis
      using False s by (intro exI [of _ s] exI [of _ "[chosen\<lparr>parameters := ?ps @ [Other ''ssrc'']\<rparr>]"]
          exI [of _ port] exI [of _ ssrc])
        (simp add: chosen read_server_transport_def process_server_transport_def is_unicast_rtp_udp_def)
  qed
qed

subsection \<open>Properties\<close>

text \<open>
  C12 (roundtrip): transport headers. Whatever list of specifications is printed, with tokens for
  its names, printable modes, times to live below 1000 and SSRCs of eight hexadecimal digits,
  both the server and the client read back exactly that list and leave nothing; only an empty
  list cannot be printed.
\<close>

theorem transport_roundtrip:
  assumes "header_codec qi g" and "\<forall>spec\<in>set t. wf_transport_spec spec"
  shows "(case transport_gen g t of
      None \<Rightarrow> t = []
    | Some s \<Rightarrow> read_transport qi s = (t, []) \<and> read_server_transport qi s = Some t)"
  using read_transport_text [OF assms]
  by (auto simp: transport_gen_def split: option.splits if_splits)

definition sample_transport :: transport where
  "sample_transport =
     [\<lparr>transport_protocol = ''RTP'', transport_profile = ''AVP'', lower_transport = Some ''UDP'',
       parameters = [Port General (Port_number 42), Port Client (Port_range 5 1337), Mode ''PLAY'',
         Ttl 127, Ssrc 3735928559, Other ''unicast'']\<rparr>,
      \<lparr>transport_protocol = ''RTP'', transport_profile = ''AVP'', lower_transport = None,
       parameters = []\<rparr>]"

theorem transport_roundtrip_witness:
  "read_transport (qi_run (\<lambda>_. None)) (the (transport_gen number_texts sample_transport)) =
     (sample_transport, [])"
proof -
  have "\<forall>spec\<in>set sample_transport. wf_transport_spec spec"
    by (simp add: sample_transport_def wf_transport_spec_def token_text_def token_char_def
        tspecial_chars_def is_control_def quotable_def)
  from transport_roundtrip [OF codec.header_codec_axioms [of "\<lambda>_. None"] this]
  show ?thesis by (simp add: transport_gen_def sample_transport_def)
qed

text \<open>
  The options of the simulated channel. If the printed loss probability is read back
  as a number between zero and one, then the server reads from the two headers of the client
  exactly the option tag and the parameters that were set, and leaves nothing.
\<close>

theorem mkn_options_roundtrip:
  assumes "header_codec qi g"
    and "\<And>rest. qi Unit_double (double_gen g (bernoulli_p opt) @ CHR '';'' # rest) =
      Some (A_real (bernoulli_p opt), CHR '';'' # rest)"
  shows "read_require qi mkn_option_tag = ([mkn_option_tag], []) \<and>
    read_mkn_options qi (mkn_gen g opt) = (opt, [])"
proof -
  have "token_text mkn_option_tag"
    by (simp add: mkn_option_tag_def token_text_def token_char_def tspecial_chars_def is_control_def)
  then show ?thesis
    using header_codec.mkn_options_here [OF assms] header_codec.require_here [OF assms(1)] by simp
qed

theorem mkn_options_roundtrip_witness:
  "read_mkn_options (qi_run (\<lambda>_. None))
     (mkn_gen number_texts \<lparr>bernoulli_p = 1/2, mkn_fec_k = 2, mkn_fec_p = 1\<rparr>) =
   (\<lparr>bernoulli_p = 1/2, mkn_fec_k = 2, mkn_fec_p = 1\<rparr>, [])"
  using mkn_options_roundtrip [OF codec.header_codec_axioms [of "\<lambda>_. None"],
      of "\<lparr>bernoulli_p = 1/2, mkn_fec_k = 2, mkn_fec_p = 1\<rparr>"]
  by (simp add: number_texts_def)

end
