(* ===== verification/Rtsp_Message_Grammar.thy ===== *)
theory Rtsp_Message_Grammar
  imports Rtsp_Grammar
begin

section \<open>The message grammars\<close>

text \<open>
  The grammars of requests and responses of \<open>rtsp_message.hpp\<close>, which the server and the client
  run over the text they have read, and what they read from the texts of the generators. The
  rule \<open>header_field_body\<close> is recursive: \<open>Recursive\<close> stands for it, and the locale
  \<open>message_codec\<close> states that it behaves as its definition. Qi does not take back the characters
  that a failed alternative has stored in a string; the readers of attributes do, which makes a
  difference only for a header value with a single quotation mark at its start.
\<close>

subsection \<open>The rules\<close>

definition header_field_body :: qi_expr where
  "header_field_body =
     Seq [Alt [quoted_string, Plus (Diff Any_char ctl)],
          Optional (Seq [Lit crlf, Omit (Plus Space), Recursive])]"

definition header_rule :: qi_expr where
  "header_rule =
     Seq [Plus token, Lit '':'', Omit (Kleene Space), Optional Recursive, Lit crlf]"

definition status_code_rule :: qi_expr where
  "status_code_rule = Uint_parser 10 3 (Some 3) 16"

definition at_least_one_digit :: qi_expr where
  "at_least_one_digit = Uint_parser 10 1 None 16"

definition response_grammar :: qi_expr where
  "response_grammar =
     Seq [Lit ''RTSP/'', at_least_one_digit, Lit ''.'', at_least_one_digit, Omit (Plus Space),
          status_code_rule, Omit (Plus Space),
          Kleene (Diff Any_char (Alt [Lit [CHR 0x0D], Lit [CHR 0x0A]])), Lit crlf,
          Kleene header_rule, Lit crlf]"

definition request_grammar :: qi_expr where
  "request_grammar =
     Seq [Plus token, Omit (Plus Space),
          Plus (Diff Any_char (Alt [Lit [CHR 0x0D], Lit [CHR 0x0A], Space])), Omit (Plus Space),
          Lit ''RTSP/'', at_least_one_digit, Lit ''.'', at_least_one_digit, Lit crlf,
          Kleene header_rule, Lit crlf]"

definition cseq_rule :: qi_expr where
  "cseq_rule = Uint_parser 10 1 None 32"

subsection \<open>Attributes as messages\<close>

definition header_of :: "attr \<Rightarrow> string \<times> string" where
  "header_of a =
     (text_of (part a 0), case optional_text_of (part a 3) of None \<Rightarrow> [] | Some v \<Rightarrow> v)"

definition request_of :: "attr \<Rightarrow> request" where
  "request_of a =
     \<lparr>method_or_extension = text_of (part a 0), uri = text_of (part a 2),
      request_version_major = of_nat (num_of (part a 5)),
      request_version_minor = of_nat (num_of (part a 7)),
      request_headers = map header_of (items_of (part a 9))\<rparr>"

definition response_of :: "attr \<Rightarrow> response" where
  "response_of a =
     \<lparr>response_version_major = of_nat (num_of (part a 1)),
      response_version_minor = of_nat (num_of (part a 3)),
      status_code = of_nat (num_of (part a 5)), reason_phrase = text_of (part a 7),
      response_headers = map header_of (items_of (part a 9))\<rparr>"

text \<open>
  The calls of the parsers. A failed parse leaves some part of the response in the client's
  structure: \<open>partial\<close>.
\<close>

definition read_request :: "(qi_expr \<Rightarrow> qi_parser) \<Rightarrow> string \<Rightarrow> request option \<times> string" where
  "read_request qi s = map_prod (map_option request_of) id (phrase_parse qi request_grammar s)"

definition read_response ::
    "(qi_expr \<Rightarrow> qi_parser) \<Rightarrow> (string \<Rightarrow> response) \<Rightarrow> string \<Rightarrow> bool \<times> response" where
  "read_response qi partial s =
     (case qi response_grammar s of
        None \<Rightarrow> (False, partial s)
      | Some (a, rest) \<Rightarrow> (True, response_of a))"

text \<open>
  \<open>rtsp_message_grammar\<close>, the alternative of the two: the type of the attribute in the variant is that of
  the grammar which has accepted the input.
\<close>

definition message_grammar :: qi_expr where
  "message_grammar = Alt [request_grammar, response_grammar]"

definition read_message :: "(qi_expr \<Rightarrow> qi_parser) \<Rightarrow> string \<Rightarrow> (request + response) option" where
  "read_message qi s =
     (case qi message_grammar s of
        None \<Rightarrow> None
      | Some (a, rest) \<Rightarrow>
          Some (if qi request_grammar s = None then Inr (response_of a) else Inl (request_of a)))"

definition read_cseq :: "(qi_expr \<Rightarrow> qi_parser) \<Rightarrow> string \<Rightarrow> u32 option" where
  "read_cseq qi s = map_option (\<lambda>(a, rest). of_nat (num_of a)) (qi cseq_rule s)"

subsection \<open>Messages that can be read back\<close>

text \<open>Header values: not empty, printable, and not starting with a space or a quotation mark.\<close>

definition value_text :: "string \<Rightarrow> bool" where
  "value_text v \<longleftrightarrow> v \<noteq> [] \<and> (\<forall>c\<in>set v. \<not> is_control c) \<and> hd v \<noteq> CHR '' '' \<and> hd v \<noteq> CHR 0x22"

definition wf_headers :: "raw_headers \<Rightarrow> bool" where
  "wf_headers hs \<longleftrightarrow> (\<forall>h\<in>set hs. token_text (fst h) \<and> value_text (snd h))"

definition wf_request :: "request \<Rightarrow> bool" where
  "wf_request rq \<longleftrightarrow> token_text (method_or_extension rq) \<and>
     uri rq \<noteq> [] \<and> (\<forall>c\<in>set (uri rq). \<not> is_space c) \<and> wf_headers (request_headers rq)"

definition wf_response :: "response \<Rightarrow> bool" where
  "wf_response r \<longleftrightarrow> 100 \<le> unat (status_code r) \<and> unat (status_code r) < 1000 \<and>
     reason_phrase r \<noteq> [] \<and> \<not> is_space (hd (reason_phrase r)) \<and>
     (\<forall>c\<in>set (reason_phrase r). c \<noteq> CHR 0x0D \<and> c \<noteq> CHR 0x0A) \<and> wf_headers (response_headers r)"

lemma control_chars: "is_control (Char b0 b1 b2 b3 b4 b5 b6 b7) \<longleftrightarrow>
    (\<not> b5 \<and> \<not> b6 \<and> \<not> b7) \<or> (b0 \<and> b1 \<and> b2 \<and> b3 \<and> b4 \<and> b5 \<and> b6 \<and> \<not> b7)"
  unfolding is_control_def of_char_Char by (auto simp: of_bool_def)

definition printable :: "string \<Rightarrow> bool" where
  "printable s \<longleftrightarrow> (\<forall>c\<in>set s. \<not> is_control c)"

lemma printable_simps [simp]:
  "printable []" "printable (c # s) \<longleftrightarrow> \<not> is_control c \<and> printable s"
  "printable (s @ t) \<longleftrightarrow> printable s \<and> printable t"
  "printable (concat ss) \<longleftrightarrow> (\<forall>s\<in>set ss. printable s)"
  by (auto simp: printable_def)

lemma token_printable: "token_text s \<Longrightarrow> printable s"
  by (auto simp: token_text_def token_char_def printable_def)

lemma token_value: "token_text s \<Longrightarrow> printable t \<Longrightarrow> value_text (s @ t)"
  by (cases s) (auto simp: token_text_def token_char_def tspecial_chars_def value_text_def printable_def)

lemma digit_chars: "is_digit base c \<Longrightarrow> \<not> is_control c \<and> \<not> is_space c \<and> c \<noteq> CHR 0x22"
proof -
  assume "is_digit base c"
  then have "48 \<le> (of_char c :: nat)" "(of_char c :: nat) \<le> 102"
    by (simp_all add: is_digit_def digit_value_def Let_def split: if_splits)
  moreover have "(of_char (CHR '' '') :: nat) < 48" "(of_char (CHR 0x22) :: nat) < 48" by simp_all
  ultimately show ?thesis unfolding is_control_def is_space_def by fastforce
qed

lemma numeral_printable: "numeral_of base n ds \<Longrightarrow> printable ds"
  using digit_chars by (auto simp: numeral_of_def printable_def)

lemma numeral_value_text: "numeral_of base n ds \<Longrightarrow> value_text ds"
  using digit_chars [of base] by (cases ds) (auto simp: numeral_of_def value_text_def is_space_def)

text \<open>A printed transport can be sent as the value of a header, whatever its SSRCs.\<close>

definition printable_spec :: "transport_spec \<Rightarrow> bool" where
  "printable_spec spec \<longleftrightarrow>
     token_text (transport_protocol spec) \<and> token_text (transport_profile spec) \<and>
     (\<forall>l. lower_transport spec = Some l \<longrightarrow> token_text l) \<and>
     (\<forall>p\<in>set (parameters spec). wf_parameter p \<or> is_ssrc p)"

context number_generators
begin

lemma numbers_printable [simp]: "printable (dec_gen g n)" "printable (hex_gen g s)"
  using numeral_printable [OF dec] numeral_printable [OF hex] by blast+

lemma parameter_printable:
  assumes "wf_parameter p \<or> is_ssrc p"
  shows "printable (parameter_gen g p)"
proof (cases p)
  case (Mode m)
  then have "printable m" using assms by (simp add: quotable_def printable_def)
  then show ?thesis
    using Mode by (simp add: parameter_gen_def mode_gen_def quote_mark_def control_chars)
next
  case (Port t ns)
  have "printable (port_type_gen t)" by (cases t) (simp_all add: port_type_gen_def control_chars)
  then show ?thesis
    using Port by (cases ns) (simp_all add: parameter_gen_def port_gen_def port_range_gen_def control_chars)
next
  case (Other w)
  then show ?thesis using assms by (simp add: parameter_gen_def token_printable control_chars)
qed (simp_all add: parameter_gen_def ttl_gen_def ssrc_gen_def control_chars)

lemma transport_spec_value:
  assumes "printable_spec spec" and "printable t"
  shows "value_text (transport_spec_gen g spec @ t)"
proof -
  have "printable (''/'' @ transport_profile spec @ (case lower_transport spec of None \<Rightarrow> [] | Some l \<Rightarrow> ''/'' @ l) @
      concat (map (parameter_gen g) (parameters spec)) @ t)"
    using assms parameter_printable
    by (auto simp: printable_spec_def token_printable control_chars split: option.splits)
  from token_value [OF _ this, of "transport_protocol spec"] assms(1)
  show ?thesis by (simp add: printable_spec_def transport_spec_gen_def)
qed

lemma transport_value:
  assumes "\<forall>spec\<in>set t. printable_spec spec" and "transport_gen g t = Some s"
  shows "value_text s"
proof -
  obtain spec specs where t: "t = spec # specs" using assms(2) by (cases t) (auto simp: transport_gen_def)
  have "printable (CHR '','' # transport_spec_gen g x)" if "x \<in> set specs" for x
    using transport_spec_value [of x "[]"] that assms(1) t
    by (auto simp: value_text_def printable_def control_chars)
  then have "printable (concat (map (\<lambda>w. CHR '','' # w) (map (transport_spec_gen g) specs)))"
    by auto
  from transport_spec_value [OF _ this, of spec] assms t show ?thesis
    by (simp add: transport_gen_def comma_join_concat)
qed

end

text \<open>After a line end: nothing, no space, or nothing but spaces, so that the value does not go on.\<close>

definition no_more :: "string \<Rightarrow> bool" where
  "no_more rest \<longleftrightarrow> rest = [] \<or> \<not> is_space (hd rest) \<or> skip_space rest = []"

lemma value_start: "value_text v \<Longrightarrow> \<not> is_space (hd v)"
  by (cases v) (auto simp: value_text_def is_space_def is_control_def)

lemma crlf_control [simp]: "is_control (CHR 0x0D)" "is_control (CHR 0x0A)"
  by (simp_all add: is_control_def)

lemma space_chars [simp]: "is_space (CHR '' '')" "is_space (CHR 0x0D)" "is_space (CHR 0x0A)"
  by (simp_all add: is_space_def)

lemma stops_simps [simp]: "stops (CHR '' '' # s)" "stops (CHR '':'' # s)" "stops (CHR 0x0D # s)"
  by (simp_all add: stops_def token_char_def tspecial_chars_def is_control_def)

lemma token_start: "token_text w \<Longrightarrow> w \<noteq> [] \<and> \<not> is_space (hd w)"
  by (cases w) (auto simp: token_text_def token_char_not_space)

lemma no_more_headers: "wf_headers hs \<Longrightarrow> no_more rest \<Longrightarrow> no_more (generate_headers hs @ rest)"
  by (cases hs) (auto simp: wf_headers_def generate_headers_def header_generator_def no_more_def
      dest: token_start)

lemma skip_to:
  assumes "s \<noteq> []" and "\<not> is_space (hd s)"
  shows "skip_space (s @ t) = s @ t" "skip_space (CHR '' '' # s @ t) = s @ t"
  using assms by (cases s; simp add: skip_space_def)+

text \<open>The first line of a request.\<close>

definition request_line :: "(u16 \<Rightarrow> string) \<Rightarrow> request \<Rightarrow> string" where
  "request_line dec r =
     method_or_extension r @ '' '' @ uri r @ '' RTSP/'' @ dec (request_version_major r) @ ''.'' @
     dec (request_version_minor r)"

lemma generate_request_line:
  "generate_request dec r = request_line dec r @ crlf @ generate_headers (request_headers r) @ crlf"
  by (simp add: generate_request_def request_line_def)

subsection \<open>Reading back what the generators print\<close>

locale message_codec = header_codec qi g
  for qi :: "qi_expr \<Rightarrow> qi_parser" and g :: number_gens +
  assumes qi_recursive: "qi Recursive s = qi header_field_body s"
begin

lemma kleene_space: "qi (Kleene Space) s =
    Some (A_many (map A_char (takeWhile is_space s)), skip_space s)"
proof -
  have "qi Space (c # r) = Some (A_char c, r)" if "c \<in> set (takeWhile is_space s)" for c r
    using set_takeWhileD [OF that] by (simp add: qi_space)
  moreover have "qi Space (skip_space s) = None"
    by (auto simp: qi_space skip_space_def dropWhile_eq_Cons_conv split: list.splits)
  ultimately show ?thesis
    using kleene_chars [of "takeWhile is_space s" Space "skip_space s"] by (simp add: skip_space_def)
qed

lemma omit_kleene_space: "qi (Omit (Kleene Space)) s = Some (A_unused, skip_space s)"
  by (simp add: qi_omit kleene_space)

lemma omit_plus_space: "qi (Omit (Plus Space)) s =
    (if s \<noteq> [] \<and> is_space (hd s) then Some (A_unused, skip_space s) else None)"
  by (cases s) (simp_all add: qi_omit qi_plus qi_space kleene_space skip_space_def)

lemma body_stop: "rest = [] \<or> is_control (hd rest) \<Longrightarrow> qi Recursive rest = None"
  by (cases rest) (auto simp: qi_recursive header_field_body_def qi_seq_Cons qi_alt_Cons qi_alt_Nil
      quoted_string_def quote_mark_def qi_lit qi_plus qi_diff qi_any ctl_def qi_cntrl is_control_def)

lemma body_first:
  assumes "value_text v" and "rest = [] \<or> is_control (hd rest)"
  shows "qi (Alt [quoted_string, Plus (Diff Any_char ctl)]) (v @ rest) =
    Some (A_many (map A_char v), rest)"
proof -
  have "qi (Plus (Diff Any_char ctl)) (v @ rest) = Some (A_many (map A_char v), rest)"
    using assms by (intro plus_chars) (auto simp: value_text_def qi_diff qi_any ctl_def qi_cntrl split: list.splits)
  moreover have "qi quoted_string (v @ rest) = None"
    using assms(1) by (cases v) (auto simp: value_text_def quoted_string_def quote_mark_def qi_seq_Cons qi_lit)
  ultimately show ?thesis by (simp add: qi_alt_Cons)
qed

lemma body_line:
  assumes "value_text v" and "no_more rest"
  shows "qi Recursive (v @ crlf @ rest) = Some (A_seq [A_many (map A_char v), A_opt None], crlf @ rest)"
proof -
  have "qi (Seq [Lit crlf, Omit (Plus Space), Recursive]) (crlf @ rest) = None"
    using assms(2) body_stop [of "[]"] by (auto simp: qi_seq_Cons lit_here omit_plus_space no_more_def)
  then show ?thesis
    using body_first [OF assms(1), of "crlf @ rest"]
    by (simp add: qi_recursive header_field_body_def qi_seq_Cons qi_seq_Nil qi_opt crlf_def)
qed

lemma body_folded:
  assumes "value_text v" and "is_space c" and "qi Recursive (skip_space (c # rest)) = Some (b, t)"
  shows "qi Recursive (v @ crlf @ c # rest) =
    Some (A_seq [A_many (map A_char v), A_opt (Some (A_seq [A_unused, A_unused, b]))], t)"
proof -
  have "qi (Seq [Lit crlf, Omit (Plus Space), Recursive]) (crlf @ c # rest) =
      Some (A_seq [A_unused, A_unused, b], t)"
    using assms(2,3) by (simp add: qi_seq_Cons qi_seq_Nil lit_here omit_plus_space)
  then show ?thesis
    using body_first [OF assms(1), of "crlf @ c # rest"]
    by (simp add: qi_recursive [of "v @ _"] header_field_body_def qi_seq_Cons qi_seq_Nil qi_opt crlf_def)
qed

lemma header_then:
  assumes "token_text name" and "value_text v" and "qi Recursive (v @ s) = Some (b, crlf @ rest)"
  shows "\<exists>a. qi header_rule (name @ '':'' @ '' '' @ v @ s) = Some (a, rest) \<and>
    header_of a = (name, text_of b)"
proof -
  have "skip_space (CHR '' '' # v @ s) = v @ s"
    using assms(2) value_start [OF assms(2)] by (cases v) (auto simp: value_text_def skip_space_def)
  then have "qi header_rule (name @ '':'' @ '' '' @ v @ s) =
      Some (A_seq [A_many [A_many (map A_char name)], A_unused, A_unused, A_opt (Some b), A_unused], rest)"
    using plus_token_here [OF assms(1), of "CHR '':'' # CHR '' '' # v @ s"] assms(3)
    by (simp add: header_rule_def qi_seq_Cons qi_seq_Nil qi_lit omit_kleene_space qi_opt crlf_def)
  then show ?thesis by (simp add: header_of_def)
qed

lemma header_here:
  assumes "token_text (fst h)" and "value_text (snd h)" and "no_more rest"
  shows "\<exists>a. qi header_rule (header_generator h @ crlf @ rest) = Some (a, rest) \<and> header_of a = h"
  using header_then [OF assms(1,2) body_line [OF assms(2,3)]] by (simp add: header_generator_def)

lemma header_stop: "stops rest \<Longrightarrow> qi header_rule rest = None"
  using token_stop [of rest] by (simp add: header_rule_def qi_seq_Cons qi_plus)

lemma headers_then:
  assumes "wf_headers hs" and "no_more rest" and "qi (Kleene header_rule) rest = Some (A_many bs, t)"
  shows "\<exists>as. qi (Kleene header_rule) (generate_headers hs @ rest) = Some (A_many (as @ bs), t) \<and>
    map header_of as = hs"
  using assms(1)
proof (induction hs)
  case Nil
  then show ?case using assms(3) by (simp add: generate_headers_def)
next
  case (Cons h hs)
  let ?r = "generate_headers hs @ rest"
  have "wf_headers hs" using Cons.prems by (simp add: wf_headers_def)
  then have "no_more ?r" using no_more_headers assms(2) by blast
  then obtain a where a: "qi header_rule (header_generator h @ crlf @ ?r) = Some (a, ?r)" "header_of a = h"
    using header_here [of h ?r] Cons.prems by (auto simp: wf_headers_def)
  obtain as where as: "qi (Kleene header_rule) ?r = Some (A_many (as @ bs), t)" "map header_of as = hs"
    using Cons.IH [OF \<open>wf_headers hs\<close>] by blast
  have "generate_headers (h # hs) @ rest = header_generator h @ crlf @ ?r"
    by (simp add: generate_headers_def)
  moreover have "length ?r < length (header_generator h @ crlf @ ?r)" by (simp add: crlf_def)
  ultimately show ?case
    using qi_kleene_step [OF a(1) _ as(1)] a(2) as(2) by (intro exI [of _ "a # as"]) simp
qed

text \<open>All headers of a message that ends the input.\<close>

lemma headers_here:
  assumes "wf_headers hs"
  shows "\<exists>as. qi (Kleene header_rule) (generate_headers hs @ crlf) = Some (A_many as, crlf) \<and>
    map header_of as = hs"
proof -
  have "no_more crlf" by (simp add: no_more_def skip_space_def crlf_def)
  moreover have "qi (Kleene header_rule) crlf = Some (A_many [], crlf)"
    by (rule qi_kleene_stop) (simp add: header_stop crlf_def)
  ultimately show ?thesis using headers_then [OF assms] by fastforce
qed

text \<open>The numbers of a message.\<close>

lemma version_here:
  assumes "rest = [] \<or> \<not> is_digit 10 (hd rest)"
  shows "qi at_least_one_digit (dec_gen g n @ rest) = Some (A_num (unat n), rest)"
  using dec_here_unbounded [OF assms] by (simp add: at_least_one_digit_def)

lemma status_here:
  assumes "100 \<le> unat n" and "unat n < 1000"
  shows "qi status_code_rule (dec_gen g n @ rest) = Some (A_num (unat n), rest)"
proof -
  have "length (dec_gen g n) = 3"
    using numeral_length [OF dec [of n], of 3] numeral_length [OF dec [of n], of 2] assms by simp
  then show ?thesis
    using uint_numeral [of "dec_gen g n" 10 3 3 16 rest] numeral_digits [OF dec [of n]]
      numeral_value [OF dec [of n]] unat_16_less [of n] by (simp add: status_code_rule_def)
qed

lemma not_digits [simp]: "\<not> is_digit 10 (CHR ''.'')" "\<not> is_digit 10 (CHR '' '')"
  "\<not> is_digit 10 (CHR 0x0D)"
  by (simp_all add: is_digit_def digit_value_def)

text \<open>A request line, given what the repetition of headers reads.\<close>

lemma request_then:
  assumes "token_text m" and "u \<noteq> []" and "\<forall>c\<in>set u. \<not> is_space c"
    and "qi (Kleene header_rule) s = Some (A_many as, crlf @ rest)"
  shows "\<exists>a. qi request_grammar (m @ '' '' @ u @ '' RTSP/'' @ dec_gen g x @ ''.'' @ dec_gen g y @ crlf @ s) =
      Some (a, rest) \<and>
    request_of a = \<lparr>method_or_extension = m, uri = u, request_version_major = x,
      request_version_minor = y, request_headers = map header_of as\<rparr>"
proof -
  let ?tail = "dec_gen g x @ ''.'' @ dec_gen g y @ crlf @ s"
  have m: "qi (Plus token) (m @ CHR '' '' # r) = Some (A_many [A_many (map A_char m)], CHR '' '' # r)" for r
    by (rule plus_token_here [OF assms(1)]) simp
  have "\<not> is_space (hd u)" using assms(2,3) by simp
  then have sp1: "qi (Omit (Plus Space)) (CHR '' '' # u @ r) = Some (A_unused, u @ r)" for r
    using assms(2) by (simp add: omit_plus_space skip_to)
  let ?c = "Diff Any_char (Alt [Lit [CHR 0x0D], Lit [CHR 0x0A], Space])"
  have c: "qi ?c (c # r) = (if is_space c then None else Some (A_char c, r))" for c r
    by (auto simp: qi_diff qi_any qi_alt_Cons qi_alt_Nil qi_lit qi_space)
  have u: "qi (Plus ?c) (u @ CHR '' '' # r) = Some (A_many (map A_char u), CHR '' '' # r)" for r
    using assms(2,3) c by (intro plus_chars) simp_all
  have sp2: "qi (Omit (Plus Space)) (CHR '' '' # CHR ''R'' # r) = Some (A_unused, CHR ''R'' # r)" for r
    by (simp add: omit_plus_space skip_space_def is_space_def)
  have "qi request_grammar (m @ '' '' @ u @ '' RTSP/'' @ ?tail) =
      Some (A_seq [A_many [A_many (map A_char m)], A_unused, A_many (map A_char u), A_unused, A_unused,
        A_num (unat x), A_unused, A_num (unat y), A_unused, A_many as, A_unused], rest)"
    using m sp1 u sp2 assms(4)
    by (simp add: request_grammar_def qi_seq_Cons qi_seq_Nil qi_lit version_here crlf_def)
  then show ?thesis by (simp add: request_of_def)
qed

lemma request_line_start:
  assumes "token_text m"
  shows "skip_space (m @ s) = m @ s"
  using token_start [OF assms] by (cases m) (auto simp: skip_space_def)

lemma request_here:
  assumes "wf_request rq"
  shows "read_request qi (generate_request (dec_gen g) rq) = (Some rq, [])"
proof -
  have wf: "token_text (method_or_extension rq)" "uri rq \<noteq> []" "\<forall>c\<in>set (uri rq). \<not> is_space c"
    "wf_headers (request_headers rq)"
    using assms by (auto simp: wf_request_def)
  obtain as where as: "qi (Kleene header_rule) (generate_headers (request_headers rq) @ crlf) =
      Some (A_many as, crlf @ [])" "map header_of as = request_headers rq"
    using headers_here [OF wf(4)] by auto
  show ?thesis
    using request_then [OF wf(1-3) as(1), of "request_version_major rq" "request_version_minor rq"] as(2)
      request_line_start [OF wf(1)]
    by (auto simp: read_request_def phrase_parse_def generate_request_def skip_space_def)
qed

lemma request_message_here:
  assumes "wf_request rq"
  shows "read_message qi (generate_request (dec_gen g) rq) = Some (Inl rq)"
proof -
  let ?s = "generate_request (dec_gen g) rq"
  have "skip_space ?s = ?s"
    using assms request_line_start [of "method_or_extension rq"] by (simp add: generate_request_def wf_request_def)
  then obtain a rest where "qi request_grammar ?s = Some (a, rest)" "request_of a = rq"
    using request_here [OF assms] by (auto simp: read_request_def phrase_parse_def split: option.splits prod.splits)
  then show ?thesis by (simp add: read_message_def message_grammar_def qi_alt_Cons)
qed

text \<open>The version at the start of a response is no method.\<close>

lemma response_no_request: "qi request_grammar (''RTSP/'' @ s) = None"
proof -
  have "token_text ''RTSP''" by (simp add: token_text_def token_char_def tspecial_chars_def control_chars)
  moreover have "stops (CHR ''/'' # s)" by (simp add: stops_def token_char_def tspecial_chars_def)
  ultimately have "qi (Plus token) (''RTSP'' @ CHR ''/'' # s) =
      Some (A_many [A_many (map A_char ''RTSP'')], CHR ''/'' # s)"
    by (rule plus_token_here)
  moreover have "qi (Omit (Plus Space)) (CHR ''/'' # s) = None"
    by (simp add: qi_omit qi_plus qi_space is_space_def)
  ultimately show ?thesis by (simp add: request_grammar_def qi_seq_Cons)
qed

lemma response_here:
  assumes "wf_response r"
  shows "read_response qi partial (generate_response (dec_gen g) r) = (True, r)"
proof -
  let ?p = "reason_phrase r"
  have wf: "100 \<le> unat (status_code r)" "unat (status_code r) < 1000" "?p \<noteq> []" "\<not> is_space (hd ?p)"
    "\<forall>c\<in>set ?p. c \<noteq> CHR 0x0D \<and> c \<noteq> CHR 0x0A" "wf_headers (response_headers r)"
    using assms by (auto simp: wf_response_def)
  obtain as where as: "qi (Kleene header_rule) (generate_headers (response_headers r) @ crlf) =
      Some (A_many as, crlf)" "map header_of as = response_headers r"
    using headers_here [OF wf(6)] by auto
  have "dec_gen g n \<noteq> []" "\<not> is_space (hd (dec_gen g n))" for n
  proof -
    show "dec_gen g n \<noteq> []" using numeral_nonempty [OF dec [of n]] by auto
    then have "is_digit 10 (hd (dec_gen g n))" using numeral_digits [OF dec [of n]] by simp
    then show "\<not> is_space (hd (dec_gen g n))" using digit_chars by blast
  qed
  then have sp1: "qi (Omit (Plus Space)) (CHR '' '' # dec_gen g n @ t) = Some (A_unused, dec_gen g n @ t)" for n t
    by (simp add: omit_plus_space skip_to)
  have sp2: "qi (Omit (Plus Space)) (CHR '' '' # ?p @ t) = Some (A_unused, ?p @ t)" for t
    using wf(3,4) by (simp add: omit_plus_space skip_to)
  let ?c = "Diff Any_char (Alt [Lit [CHR 0x0D], Lit [CHR 0x0A]])"
  have c: "qi ?c (c # t) = (if c = CHR 0x0D \<or> c = CHR 0x0A then None else Some (A_char c, t))" for c t
    by (simp add: qi_diff qi_any qi_alt_Cons qi_alt_Nil qi_lit)
  have p: "qi (Kleene ?c) (?p @ CHR 0x0D # t) = Some (A_many (map A_char ?p), CHR 0x0D # t)" for t
    using wf(5) c by (intro kleene_chars) simp_all
  have "qi response_grammar (generate_response (dec_gen g) r) =
      Some (A_seq [A_unused, A_num (unat (response_version_major r)), A_unused,
        A_num (unat (response_version_minor r)), A_unused, A_num (unat (status_code r)), A_unused,
        A_many (map A_char ?p), A_unused, A_many as, A_unused], [])"
    using sp1 sp2 p as(1) status_here [OF wf(1,2)]
    by (simp add: response_grammar_def generate_response_def qi_seq_Cons qi_seq_Nil qi_lit version_here
        crlf_def)
  then show ?thesis using as(2) by (simp add: read_response_def response_of_def)
qed

lemma response_message_here:
  assumes "wf_response r"
  shows "read_message qi (generate_response (dec_gen g) r) = Some (Inr r)"
proof -
  let ?s = "generate_response (dec_gen g) r"
  have "qi request_grammar ?s = None"
    using response_no_request by (simp add: generate_response_def)
  moreover obtain a rest where "qi response_grammar ?s = Some (a, rest)" "response_of a = r"
    using response_here [OF assms, of undefined] by (auto simp: read_response_def split: option.splits prod.splits)
  ultimately show ?thesis by (simp add: read_message_def message_grammar_def qi_alt_Cons)
qed

lemma cseq_here: "numeral_of 10 (unat n) ds \<Longrightarrow> read_cseq qi ds = Some (n :: u32)"
  using uint_numeral_unbounded [of ds 10 1 32 "[]"] numeral_digits [of 10 "unat n" ds]
    numeral_value [of 10 "unat n" ds] numeral_nonempty [of 10 "unat n" ds] unsigned_less [of n, where ?'a = nat]
  by (simp add: read_cseq_def cseq_rule_def)

text \<open>A second request behind the first is read as a continuation of its last header.\<close>

lemma request_line_value:
  assumes "wf_request r" and "\<forall>c\<in>set (uri r). \<not> is_control c"
  shows "value_text (request_line (dec_gen g) r)"
proof -
  have "printable ('' '' @ uri r @ '' RTSP/'' @ dec_gen g (request_version_major r) @ ''.'' @
      dec_gen g (request_version_minor r))"
    using assms(2) numeral_printable [OF dec] by (simp add: printable_def [of "uri r"] control_chars)
  from token_value [OF _ this] assms(1) show ?thesis by (simp add: wf_request_def request_line_def)
qed

lemma merged_here:
  assumes "wf_request r1" and "wf_request r2" and "\<forall>c\<in>set (uri r2). \<not> is_control c"
    and "request_headers r1 = hs @ [(name, v)]"
  shows "read_request qi (generate_request (dec_gen g) r1 @ generate_request (dec_gen g) r2) =
    (Some (r1\<lparr>request_headers :=
       hs @ (name, v @ request_line (dec_gen g) r2) # request_headers r2\<rparr>), [])"
proof -
  let ?l = "request_line (dec_gen g) r2" and ?hs2 = "generate_headers (request_headers r2) @ crlf"
  have wf: "wf_headers hs" "token_text name" "value_text v" "wf_headers (request_headers r2)"
    using assms(1,2,4) by (auto simp: wf_request_def wf_headers_def)
  have l: "value_text ?l" using assms(2,3) by (rule request_line_value)
  obtain as2 where as2: "qi (Kleene header_rule) ?hs2 = Some (A_many as2, crlf)"
    "map header_of as2 = request_headers r2"
    using headers_here [OF wf(4)] by auto
  have "no_more ?hs2"
    by (rule no_more_headers [OF wf(4)]) (simp add: no_more_def skip_space_def crlf_def)
  from body_line [OF l this] have "qi Recursive (skip_space (crlf @ ?l @ crlf @ ?hs2)) =
      Some (A_seq [A_many (map A_char ?l), A_opt None], crlf @ ?hs2)"
    using l value_start [OF l] skip_to(1) [of ?l "crlf @ ?hs2"]
    by (simp add: skip_space_def crlf_def value_text_def)
  from body_folded [OF wf(3), of "CHR 0x0D" "CHR 0x0A # ?l @ crlf @ ?hs2"] this
  obtain b where b: "qi Recursive (v @ crlf @ crlf @ ?l @ crlf @ ?hs2) = Some (b, crlf @ ?hs2)"
    "text_of b = v @ ?l"
    by (simp add: crlf_def)
  obtain a where a: "qi header_rule (name @ '':'' @ '' '' @ v @ crlf @ crlf @ ?l @ crlf @ ?hs2) = Some (a, ?hs2)"
    "header_of a = (name, v @ ?l)"
    using header_then [OF wf(2,3) b(1)] b(2) by auto
  let ?last = "name @ '':'' @ '' '' @ v @ crlf @ crlf @ ?l @ crlf @ ?hs2"
  have last: "qi (Kleene header_rule) ?last = Some (A_many (a # as2), crlf)"
    by (rule qi_kleene_step [OF a(1) _ as2(1)]) simp
  have "no_more ?last" using token_start [OF wf(2)] by (simp add: no_more_def)
  then obtain as where as: "qi (Kleene header_rule) (generate_headers hs @ ?last) =
      Some (A_many (as @ a # as2), crlf @ [])" "map header_of as = hs"
    using headers_then [OF wf(1) _ last] by auto
  have r1: "token_text (method_or_extension r1)" "uri r1 \<noteq> []" "\<forall>c\<in>set (uri r1). \<not> is_space c"
    using assms(1) by (auto simp: wf_request_def)
  have "generate_request (dec_gen g) r1 @ generate_request (dec_gen g) r2 =
      request_line (dec_gen g) r1 @ crlf @ generate_headers hs @ ?last"
    using assms(4) by (simp add: generate_request_line generate_headers_def header_generator_def)
  then show ?thesis
    using request_then [OF r1 as(1), of "request_version_major r1" "request_version_minor r1"] as(2)
      as2(2) a(2) request_line_start [OF r1(1)]
    by (auto simp: read_request_def phrase_parse_def request_line_def skip_space_def)
qed

end

subsection \<open>Parsers for the recursive rule\<close>

text \<open>Every use of the rule in its own definition is two characters further on.\<close>

fun body_run :: "nat \<Rightarrow> qi_parser" where
  "body_run 0 s = None"
| "body_run (Suc n) s = qi_run (body_run n) header_field_body s"

definition message_run :: "qi_expr \<Rightarrow> qi_parser" where
  "message_run = qi_run (\<lambda>s. body_run (length s) s)"

definition shrinks :: "qi_parser \<Rightarrow> bool" where
  "shrinks p \<longleftrightarrow> (\<forall>s a r. p s = Some (a, r) \<longrightarrow> length r \<le> length s)"

lemma shrinksI: "(\<And>s a r. p s = Some (a, r) \<Longrightarrow> length r \<le> length s) \<Longrightarrow> shrinks p"
  by (simp add: shrinks_def)

lemma shrinksD: "shrinks p \<Longrightarrow> p s = Some (a, r) \<Longrightarrow> length r \<le> length s"
  by (simp add: shrinks_def)

lemma seq_run_shrinks:
  "\<forall>p\<in>set ps. shrinks p \<Longrightarrow> seq_run ps s = Some (as, r) \<Longrightarrow> length r \<le> length s"
proof (induction ps arbitrary: s as)
  case (Cons p ps)
  then obtain a t bs where "p s = Some (a, t)" "seq_run ps t = Some (bs, r)"
    by (auto split: option.splits)
  then show ?case using Cons by (fastforce simp: shrinks_def)
qed simp

lemma alt_run_shrinks: "\<forall>p\<in>set ps. shrinks p \<Longrightarrow> shrinks (alt_run ps)"
  by (induction ps) (auto simp: shrinks_def split: option.splits)

lemma many_run_shrinks: "many_run n p s = (as, r) \<Longrightarrow> length r \<le> length s"
proof (induction n arbitrary: s as)
  case (Suc n)
  then show ?case by (fastforce split: option.splits if_splits prod.splits)
qed simp

lemma kleene_run_shrinks: "kleene_run p s = (as, r) \<Longrightarrow> length r \<le> length s"
  by (simp add: kleene_run_def many_run_shrinks)

lemma qi_run_shrinks: "shrinks h \<Longrightarrow> shrinks (qi_run h e)"
proof (induction e)
  case (Seq ps)
  then have all: "\<forall>p\<in>set (map (qi_run h) ps). shrinks p" by auto
  show ?case
    unfolding shrinks_def
  proof (intro allI impI)
    fix s a r
    assume "qi_run h (Seq ps) s = Some (a, r)"
    then obtain as where "seq_run (map (qi_run h) ps) s = Some (as, r)" by auto
    with all show "length r \<le> length s" by (rule seq_run_shrinks)
  qed
next
  case (Alt ps)
  then show ?case using alt_run_shrinks [of "map (qi_run h) ps"] by simp
next
  case (Plus p)
  then show ?case
    using kleene_run_shrinks by (fastforce simp: shrinks_def split: option.splits prod.splits)
next
  case (Kleene p)
  then show ?case using kleene_run_shrinks by (fastforce simp: shrinks_def split: prod.splits)
next
  case (List_of p q)
  then show ?case
    using kleene_run_shrinks by (fastforce simp: shrinks_def simp del: seq_run.simps split: option.splits prod.splits)
next
  case (Seq_or p q)
  show ?case
  proof (rule shrinksI)
    fix s a r
    assume "qi_run h (Seq_or p q) s = Some (a, r)"
    then show "length r \<le> length s"
      using shrinksD [of "qi_run h p" s] shrinksD [of "qi_run h q"] Seq_or
      by (fastforce split: option.splits intro: order_trans)
  qed
next
  case (Uint_parser base lo hi bits)
  then show ?case by (auto intro!: shrinksI simp: Let_def split: if_splits)
qed (auto intro!: shrinksI dest: shrinksD split: option.splits if_splits list.splits)

primrec plain :: "qi_expr \<Rightarrow> bool" where
  "plain (Lit w) = True"
| "plain Any_char = True"
| "plain (Char_set cs) = True"
| "plain Cntrl = True"
| "plain Space = True"
| "plain Alnum = True"
| "plain Print = True"
| "plain (Str w) = True"
| "plain (Diff p q) = (plain p \<and> plain q)"
| "plain (Uint_parser base lo hi bits) = True"
| "plain Unit_double = True"
| "plain (Symbols ws) = True"
| "plain (Seq ps) = list_all id (map plain ps)"
| "plain (Seq_or p q) = (plain p \<and> plain q)"
| "plain (Alt ps) = list_all id (map plain ps)"
| "plain (Plus p) = plain p"
| "plain (Kleene p) = plain p"
| "plain (Optional p) = plain p"
| "plain (List_of p q) = (plain p \<and> plain q)"
| "plain (Rule n p) = plain p"
| "plain (Omit p) = plain p"
| "plain Recursive = False"

lemma plain_run: "plain e \<Longrightarrow> qi_run h e = qi_run h' e"
proof (induction e)
  case (Seq ps)
  then have "map (qi_run h) ps = map (qi_run h') ps" by (auto simp: list_all_iff)
  then show ?case by (simp only: qi_run.simps)
next
  case (Alt ps)
  then have "map (qi_run h) ps = map (qi_run h') ps" by (auto simp: list_all_iff)
  then show ?case by (simp only: qi_run.simps)
next
  case (Diff p q)
  then have eq: "qi_run h p = qi_run h' p" "qi_run h q = qi_run h' q" by auto
  show ?case unfolding qi_run.simps eq by (rule refl)
next
  case (Seq_or p q)
  then have eq: "qi_run h p = qi_run h' p" "qi_run h q = qi_run h' q" by auto
  show ?case unfolding qi_run.simps eq by (rule refl)
next
  case (Plus p)
  then have eq: "qi_run h p = qi_run h' p" by auto
  show ?case unfolding qi_run.simps eq by (rule refl)
next
  case (Kleene p)
  then have eq: "qi_run h p = qi_run h' p" by auto
  show ?case unfolding qi_run.simps eq by (rule refl)
next
  case (List_of p q)
  then have eq: "qi_run h p = qi_run h' p" "qi_run h q = qi_run h' q" by auto
  show ?case unfolding qi_run.simps eq by (rule refl)
qed simp_all

lemma body_local:
  assumes "\<And>r. length r < length s \<Longrightarrow> h1 r = h2 r"
  shows "qi_run h1 header_field_body s = qi_run h2 header_field_body s"
proof -
  let ?first = "Alt [quoted_string, Plus (Diff Any_char ctl)]"
  let ?sp = "Omit (Plus Space)"
  have first: "qi_run h ?first = qi_run (\<lambda>_. None) ?first" for h
    by (rule plain_run) (simp add: quoted_string_def ctl_def)
  have sp: "qi_run h ?sp = qi_run (\<lambda>_. None) ?sp" for h
    by (rule plain_run) simp
  have len: "length t \<le> length r" if "qi_run (\<lambda>_. None) e r = Some (a, t)" for e r a t
    using qi_run_shrinks [of "\<lambda>_. None" e] that by (auto simp: shrinks_def)
  let ?more = "Optional (Seq [Lit crlf, ?sp, Recursive])"
  have more: "qi_run h1 ?more r = qi_run h2 ?more r" if "length r \<le> length s" for r
  proof -
    have "h1 t = h2 t" if "qi_run (\<lambda>_. None) ?sp (drop 2 r) = Some (a, t)" "take 2 r = crlf" for a t
    proof (rule assms)
      have "length t \<le> length (drop 2 r)" using len [OF that(1)] .
      moreover have "2 \<le> length r" using that(2) by (cases r; cases "tl r") (auto simp: crlf_def)
      ultimately show "length t < length s" using \<open>length r \<le> length s\<close> by simp
    qed
    moreover have "length crlf = 2" by (simp add: crlf_def)
    ultimately show ?thesis
      by (auto simp del: qi_run.simps(16,21) simp: sp [of h1] sp [of h2] split: option.splits)
  qed
  have seq: "qi_run h header_field_body s =
      (case qi_run (\<lambda>_. None) ?first s of None \<Rightarrow> None
       | Some (a, r) \<Rightarrow> (case qi_run h ?more r of None \<Rightarrow> None
          | Some (b, t) \<Rightarrow> Some (A_seq [a, b], t)))" for h
    using first [of h]
    by (auto simp: header_field_body_def simp del: qi_run.simps(15,18) split: option.splits)
  show ?thesis
  proof (cases "qi_run (\<lambda>_. None) ?first s")
    case None
    then show ?thesis by (simp only: seq option.case)
  next
    case (Some ar)
    then show ?thesis using more [of "snd ar"] len [of ?first s "fst ar" "snd ar"]
      by (simp only: seq option.case split_def prod.collapse)
  qed
qed

lemma body_run_fuel: "length s \<le> n \<Longrightarrow> length s \<le> m \<Longrightarrow> body_run n s = body_run m s"
proof (induction n arbitrary: m s)
  case 0
  then show ?case by (cases m) (simp_all add: header_field_body_def quoted_string_def quote_mark_def ctl_def)
next
  case (Suc n)
  show ?case
  proof (cases m)
    case 0
    then show ?thesis
      using Suc.prems by (simp add: header_field_body_def quoted_string_def quote_mark_def ctl_def)
  next
    case (Suc k)
    have "qi_run (body_run n) header_field_body s = qi_run (body_run k) header_field_body s"
      using Suc.prems Suc by (intro body_local Suc.IH) auto
    then show ?thesis using Suc by simp
  qed
qed

lemma message_run_recursive: "message_run Recursive s = message_run header_field_body s"
proof -
  have "qi_run (\<lambda>s. body_run (length s) s) header_field_body s =
      qi_run (body_run (length s)) header_field_body s"
    by (intro body_local body_run_fuel) auto
  also have "\<dots> = body_run (Suc (length s)) s" by simp
  also have "\<dots> = body_run (length s) s" by (rule body_run_fuel) simp_all
  finally show ?thesis by (simp add: message_run_def)
qed

interpretation message: message_codec message_run number_texts
proof (rule message_codec.intro)
  show "header_codec message_run number_texts"
    unfolding message_run_def by (rule codec.header_codec_axioms)
  show "message_codec_axioms message_run"
    by unfold_locales (rule message_run_recursive)
qed

subsection \<open>Properties\<close>

text \<open>
  C11 (roundtrip): messages on the wire. The grammars read from the text of every request and every
  response exactly what was printed, if header values are printable and do not start with a
  space or a quotation mark, names are tokens, the URI has no spaces, the status code has three
  digits and the reason phrase starts with no space. The grammar for either of them tells them apart.
\<close>

theorem message_roundtrip:
  assumes "message_codec qi g" and "wf_request rq" and "wf_response r"
  shows "read_request qi (generate_request (dec_gen g) rq) = (Some rq, []) \<and>
    read_response qi partial (generate_response (dec_gen g) r) = (True, r) \<and>
    read_message qi (generate_request (dec_gen g) rq) = Some (Inl rq) \<and>
    read_message qi (generate_response (dec_gen g) r) = Some (Inr r)"
  using message_codec.request_here [OF assms(1,2)] message_codec.response_here [OF assms(1,3)]
    message_codec.request_message_here [OF assms(1,2)] message_codec.response_message_here [OF assms(1,3)] by simp

definition sample_message_request :: request where
  "sample_message_request = \<lparr>method_or_extension = ''PLAY'', uri = ''rtsp://h/m'',
     request_version_major = 1, request_version_minor = 0,
     request_headers = [(''CSeq'', ''7''), (''Session'', ''u1'')]\<rparr>"

definition sample_message_response :: response where
  "sample_message_response = \<lparr>response_version_major = 1, response_version_minor = 0,
     status_code = 454, reason_phrase = ''Session not found'', response_headers = [(''CSeq'', ''7'')]\<rparr>"

theorem message_roundtrip_witness:
  "read_request message_run (generate_request decimal sample_message_request) =
     (Some sample_message_request, []) \<and>
   read_response message_run (\<lambda>_. sample_message_response\<lparr>reason_phrase := []\<rparr>)
     (generate_response decimal sample_message_response) =
     (True, sample_message_response) \<and>
   read_message message_run (generate_response decimal sample_message_response) =
     Some (Inr sample_message_response)"
proof -
  have "wf_request sample_message_request" "wf_response sample_message_response"
    by (simp_all add: sample_message_request_def sample_message_response_def wf_request_def
        wf_response_def wf_headers_def token_text_def token_char_def tspecial_chars_def control_chars
        value_text_def is_space_def)
  from message_roundtrip [OF message.message_codec_axioms this] show ?thesis
    by (simp add: number_texts_def)
qed

end
