(* ===== verification/Rtsp_Parsed.thy ===== *)
theory Rtsp_Parsed
  imports Rtsp_Message_Grammar "HOL-Library.Sublist"
begin

section \<open>What the message grammars can read\<close>

text \<open>
  The converse of the round trips: whatever text a client or a server gets, a message that the
  grammars read from it has names that are tokens and values without control characters. The
  proofs invert the rules, by induction on the length of the input where a rule repeats or
  refers to itself.
\<close>

subsection \<open>Repetition\<close>

definition consumes :: "(qi_expr \<Rightarrow> qi_parser) \<Rightarrow> qi_expr \<Rightarrow> (attr \<Rightarrow> bool) \<Rightarrow> bool" where
  "consumes qi p P \<longleftrightarrow> (\<forall>s a r. qi p s = Some (a, r) \<longrightarrow> P a \<and> length r < length s)"

lemma consumesI:
  "(\<And>s a r. qi p s = Some (a, r) \<Longrightarrow> P a \<and> length r < length s) \<Longrightarrow> consumes qi p P"
  by (simp add: consumes_def)

lemma consumesD:
  "consumes qi p P \<Longrightarrow> qi p s = Some (a, r) \<Longrightarrow> P a \<and> length r < length s"
  by (simp add: consumes_def)

lemma consumes_mono:
  "consumes qi p P \<Longrightarrow> (\<And>a. P a \<Longrightarrow> Q a) \<Longrightarrow> consumes qi p Q"
  by (auto simp: consumes_def)

text \<open>A character of a class, and a text of such characters.\<close>

definition char_attr :: "(char \<Rightarrow> bool) \<Rightarrow> attr \<Rightarrow> bool" where
  "char_attr P a \<longleftrightarrow> (\<exists>c. a = A_char c \<and> P c)"

definition text_attr :: "(char \<Rightarrow> bool) \<Rightarrow> attr \<Rightarrow> bool" where
  "text_attr P a \<longleftrightarrow> (\<forall>c\<in>set (text_of a). P c)"

lemma char_attr_text: "char_attr P a \<Longrightarrow> text_attr P a \<and> text_of a \<noteq> []"
  by (auto simp: char_attr_def text_attr_def)

lemma text_attr_simps [simp]:
  "text_attr P (A_many as) \<longleftrightarrow> (\<forall>a\<in>set as. text_attr P a)"
  "text_attr P (A_seq as) \<longleftrightarrow> (\<forall>a\<in>set as. text_attr P a)"
  "text_attr P A_unused" "text_attr P (A_opt None)" "text_attr P (A_opt (Some a)) \<longleftrightarrow> text_attr P a"
  by (auto simp: text_attr_def)

context spirit_qi
begin

lemma kleene_inv:
  assumes "consumes qi p P" and "qi (Kleene p) s = Some (a, t)"
  shows "\<exists>as. a = A_many as \<and> (\<forall>b\<in>set as. P b) \<and> length t \<le> length s"
proof -
  have "\<exists>as t. qi (Kleene p) s = Some (A_many as, t) \<and> (\<forall>b\<in>set as. P b) \<and> length t \<le> length s" for s
  proof (induction "length s" arbitrary: s rule: less_induct)
    case less
    show ?case
    proof (cases "qi p s")
      case None
      then show ?thesis using qi_kleene_stop by auto
    next
      case (Some ar)
      obtain a r where ar: "qi p s = Some (a, r)" using Some by (cases ar) auto
      then have a: "P a" "length r < length s" using consumesD [OF assms(1)] by auto
      then obtain as t where "qi (Kleene p) r = Some (A_many as, t)" "\<forall>b\<in>set as. P b" "length t \<le> length r"
        using less by blast
      then show ?thesis
        using qi_kleene_step [OF ar a(2)] a by (intro exI [of _ "a # as"] exI [of _ t]) auto
    qed
  qed
  from this [of s] show ?thesis using assms(2) by auto
qed

lemma plus_inv:
  assumes "consumes qi p P"
  shows "consumes qi (Plus p) (\<lambda>a. \<exists>as. a = A_many as \<and> as \<noteq> [] \<and> (\<forall>b\<in>set as. P b))"
proof (rule consumesI)
  fix s a t
  assume "qi (Plus p) s = Some (a, t)"
  then obtain b r as where b: "qi p s = Some (b, r)" "qi (Kleene p) r = Some (A_many as, t)" "a = A_many (b # as)"
    by (auto simp: qi_plus split: option.splits attr.splits)
  then show "(\<exists>as. a = A_many as \<and> as \<noteq> [] \<and> (\<forall>b\<in>set as. P b)) \<and> length t < length s"
    using consumesD [OF assms b(1)] kleene_inv [OF assms b(2)] by auto
qed

lemma plus_text_inv:
  assumes "consumes qi p (\<lambda>a. text_attr P a \<and> text_of a \<noteq> [])"
  shows "consumes qi (Plus p) (\<lambda>a. text_attr P a \<and> text_of a \<noteq> [])"
  by (rule consumes_mono [OF plus_inv [OF assms]]) (auto simp: neq_Nil_conv)

lemma seq_inv:
  assumes "qi (Seq (p # ps)) s = Some (a, t)"
  obtains b r bs where "qi p s = Some (b, r)" "qi (Seq ps) r = Some (A_seq bs, t)" "a = A_seq (b # bs)"
  using assms by (auto simp: qi_seq_Cons split: option.splits attr.splits)

lemma lit_inv: "qi (Lit w) s = Some (a, t) \<Longrightarrow> a = A_unused \<and> s = w @ t"
  by (auto simp: qi_lit split: if_splits) (metis append_take_drop_id)

end

subsection \<open>Headers and messages\<close>

text \<open>What every header, request and response read by the grammars looks like.\<close>

definition header_typed :: "string \<times> string \<Rightarrow> bool" where
  "header_typed h \<longleftrightarrow> token_text (fst h) \<and> printable (snd h)"

definition request_typed :: "request \<Rightarrow> bool" where
  "request_typed rq \<longleftrightarrow> token_text (method_or_extension rq) \<and> uri rq \<noteq> [] \<and>
     (\<forall>c\<in>set (uri rq). \<not> is_space c) \<and> (\<forall>h\<in>set (request_headers rq). header_typed h)"

definition response_typed :: "response \<Rightarrow> bool" where
  "response_typed r \<longleftrightarrow> unat (status_code r) < 1000 \<and>
     (\<forall>c\<in>set (reason_phrase r). c \<noteq> CHR 0x0D \<and> c \<noteq> CHR 0x0A) \<and>
     (\<forall>h\<in>set (response_headers r). header_typed h)"

lemma text_attr_iff:
  "text_attr token_char a \<and> text_of a \<noteq> [] \<longleftrightarrow> token_text (text_of a)"
  "text_attr (\<lambda>c. \<not> is_control c) a \<longleftrightarrow> printable (text_of a)"
  by (auto simp: text_attr_def token_text_def printable_def)

context message_codec
begin

lemma token_inv: "consumes qi token (\<lambda>a. text_attr token_char a \<and> text_of a \<noteq> [])"
  unfolding token_def
proof (rule plus_text_inv, rule consumesI)
  fix s a r
  assume "qi (Diff Any_char (Alt [tspecials, ctl])) s = Some (a, r)"
  then show "(text_attr token_char a \<and> text_of a \<noteq> []) \<and> length r < length s"
    by (cases s) (auto simp: qi_diff qi_any qi_alt_Cons qi_alt_Nil tspecials_def ctl_def qi_set qi_cntrl
        token_char_def text_attr_def split: if_splits)
qed

lemma plus_chars_inv:
  assumes "\<And>c r a t. qi p (c # r) = Some (a, t) \<Longrightarrow> a = A_char c \<and> t = r \<and> P c" and "qi p [] = None"
  shows "consumes qi (Plus p) (\<lambda>a. text_attr P a \<and> text_of a \<noteq> [])"
proof (rule plus_text_inv, rule consumesI)
  fix s a r
  assume run: "qi p s = Some (a, r)"
  then obtain c cs where s: "s = c # cs" using assms(2) by (cases s) auto
  show "(text_attr P a \<and> text_of a \<noteq> []) \<and> length r < length s"
    using assms(1) [OF run [unfolded s]] s by (auto simp: text_attr_def)
qed

lemma body_text_inv:
  "consumes qi (Alt [quoted_string, Plus (Diff Any_char ctl)])
     (\<lambda>a. text_attr (\<lambda>c. \<not> is_control c) a \<and> text_of a \<noteq> [])"
proof (rule consumesI)
  fix s a t
  assume run: "qi (Alt [quoted_string, Plus (Diff Any_char ctl)]) s = Some (a, t)"
  have plain: "consumes qi (Plus (Diff Any_char ctl)) (\<lambda>a. text_attr (\<lambda>c. \<not> is_control c) a \<and> text_of a \<noteq> [])"
    by (rule plus_chars_inv) (auto simp: qi_diff qi_any ctl_def qi_cntrl split: if_splits)
  have quoted: "consumes qi (Plus (Diff Any_char (Alt [ctl, Lit quote_mark])))
      (\<lambda>a. text_attr (\<lambda>c. \<not> is_control c) a \<and> text_of a \<noteq> [])"
    by (rule plus_chars_inv)
      (auto simp: qi_diff qi_any ctl_def qi_cntrl qi_alt_Cons qi_alt_Nil split: if_splits option.splits)
  show "(text_attr (\<lambda>c. \<not> is_control c) a \<and> text_of a \<noteq> []) \<and> length t < length s"
  proof (cases "qi quoted_string s")
    case None
    then show ?thesis using run consumesD [OF plain] by (auto simp: qi_alt_Cons qi_alt_Nil split: option.splits)
  next
    case (Some x)
    then have "qi quoted_string s = Some (a, t)" using run by (simp add: qi_alt_Cons)
    then obtain b1 r1 c1 b2 r2 c2 b3 r3 c3 where
      "qi (Lit quote_mark) s = Some (b1, r1)"
      "qi (Plus (Diff Any_char (Alt [ctl, Lit quote_mark]))) r1 = Some (b2, r2)"
      "qi (Lit quote_mark) r2 = Some (b3, t)" "a = A_seq [b1, b2, b3]"
      unfolding quoted_string_def by (elim seq_inv) (auto simp: qi_seq_Nil)
    then show ?thesis
      using consumesD [OF quoted] lit_inv [of quote_mark s] lit_inv [of quote_mark r2] by fastforce
  qed
qed

lemma body_inv: "consumes qi Recursive (\<lambda>a. text_attr (\<lambda>c. \<not> is_control c) a \<and> text_of a \<noteq> [])"
proof -
  have "(text_attr (\<lambda>c. \<not> is_control c) a \<and> text_of a \<noteq> []) \<and> length t < length s"
    if "qi Recursive s = Some (a, t)" for s a t
    using that
  proof (induction "length s" arbitrary: s a t rule: less_induct)
    case less
    from less.prems obtain b1 r1 b2 where
      b: "qi (Alt [quoted_string, Plus (Diff Any_char ctl)]) s = Some (b1, r1)"
      "qi (Optional (Seq [Lit crlf, Omit (Plus Space), Recursive])) r1 = Some (b2, t)" "a = A_seq [b1, b2]"
      unfolding qi_recursive header_field_body_def by (elim seq_inv) (auto simp: qi_seq_Nil)
    note b1 = consumesD [OF body_text_inv b(1)]
    have "text_attr (\<lambda>c. \<not> is_control c) b2 \<and> length t \<le> length r1"
    proof (cases "qi (Seq [Lit crlf, Omit (Plus Space), Recursive]) r1")
      case None
      then show ?thesis using b(2) by (auto simp: qi_opt)
    next
      case (Some x)
      then obtain b3 where b3: "qi (Seq [Lit crlf, Omit (Plus Space), Recursive]) r1 = Some (b3, t)"
        "b2 = A_opt (Some b3)"
        using b(2) by (auto simp: qi_opt split: prod.splits)
      from b3(1) obtain c1 t1 c2 t2 c3 where
        c: "qi (Lit crlf) r1 = Some (c1, t1)" "qi (Omit (Plus Space)) t1 = Some (c2, t2)"
        "qi Recursive t2 = Some (c3, t)" "b3 = A_seq [c1, c2, c3]"
        by (elim seq_inv) (auto simp: qi_seq_Nil)
      have "length t2 \<le> length t1" "c2 = A_unused" "c1 = A_unused" "length t1 \<le> length r1"
        using c(2) lit_inv [OF c(1)]
        by (auto simp: omit_plus_space skip_space_def length_dropWhile_le split: if_splits)
      then show ?thesis using less.hyps [OF _ c(3)] b1 b3(2) c(4) by simp
    qed
    then show ?case using b1 b(3) by simp
  qed
  then show ?thesis by (rule consumesI)
qed

lemma header_inv: "consumes qi header_rule (\<lambda>a. header_typed (header_of a))"
proof (rule consumesI)
  fix s a t
  assume "qi header_rule s = Some (a, t)"
  then obtain b1 r1 b2 r2 b3 r3 b4 r4 b5 where
    b: "qi (Plus token) s = Some (b1, r1)" "qi (Lit '':'') r1 = Some (b2, r2)"
    "qi (Omit (Kleene Space)) r2 = Some (b3, r3)" "qi (Optional Recursive) r3 = Some (b4, r4)"
    "qi (Lit crlf) r4 = Some (b5, t)" "a = A_seq [b1, b2, b3, b4, b5]"
    unfolding header_rule_def by (elim seq_inv) (auto simp: qi_seq_Nil)
  have b1: "token_text (text_of b1)" "length r1 < length s"
    using consumesD [OF plus_text_inv [OF token_inv] b(1)] by (simp_all add: text_attr_iff)
  have "length r3 \<le> length r1"
    using b(3) lit_inv [OF b(2)] length_dropWhile_le [of is_space r2]
    by (auto simp: omit_kleene_space skip_space_def)
  moreover have "length r4 \<le> length r3 \<and>
      printable (case optional_text_of b4 of None \<Rightarrow> [] | Some v \<Rightarrow> v)"
    using b(4) consumesD [OF body_inv, of r3]
    by (auto simp: qi_opt text_attr_iff split: option.splits)
  ultimately show "header_typed (header_of a) \<and> length t < length s"
    using b1 b(6) lit_inv [OF b(5)] by (simp add: header_typed_def header_of_def)
qed

lemma headers_inv:
  assumes "qi (Kleene header_rule) s = Some (a, t)"
  shows "\<forall>h\<in>set (map header_of (items_of a)). header_typed h"
  using kleene_inv [OF header_inv assms] by auto

lemma request_inv:
  assumes "qi request_grammar s = Some (a, t)"
  shows "request_typed (request_of a)"
proof -
  let ?u = "Plus (Diff Any_char (Alt [Lit [CHR 0x0D], Lit [CHR 0x0A], Space]))"
  from assms obtain b1 r1 b2 r2 b3 r3 b4 r4 b5 r5 b6 r6 b7 r7 b8 r8 b9 r9 b10 r10 b11 where
    b: "qi (Plus token) s = Some (b1, r1)" "qi ?u r2 = Some (b3, r3)"
    "qi (Kleene header_rule) r9 = Some (b10, r10)"
    "a = A_seq [b1, b2, b3, b4, b5, b6, b7, b8, b9, b10, b11]"
    unfolding request_grammar_def by (elim seq_inv) (auto simp: qi_seq_Nil)
  have u: "consumes qi ?u (\<lambda>a. text_attr (\<lambda>c. \<not> is_space c) a \<and> text_of a \<noteq> [])"
    by (rule plus_chars_inv) (auto simp: qi_diff qi_any qi_alt_Cons qi_alt_Nil qi_lit qi_space
        split: if_splits option.splits)
  show ?thesis
    using consumesD [OF plus_text_inv [OF token_inv] b(1)] consumesD [OF u b(2)] headers_inv [OF b(3)] b(4)
    by (simp add: request_typed_def request_of_def text_attr_def token_text_def)
qed

lemma uint_inv: "qi (Uint_parser base lo hi bits) s = Some (a, t) \<Longrightarrow>
    \<exists>n. a = A_num n \<and> n = number_value base (takeWhile (is_digit base) (case hi of None \<Rightarrow> s | Some m \<Rightarrow> take m s))"
  by (auto simp: qi_uint Let_def split: if_splits)

lemma status_inv:
  assumes "qi status_code_rule s = Some (a, t)"
  shows "num_of a < 1000"
proof -
  let ?ds = "takeWhile (is_digit 10) (take 3 s)"
  have "number_value 10 ?ds < 10 ^ length ?ds"
    using set_takeWhileD by (intro number_value_less) fastforce
  also have "\<dots> \<le> (10 :: nat) ^ 3"
    using length_takeWhile_le [of "is_digit 10" "take 3 s"] by (intro power_increasing) auto
  finally show ?thesis using uint_inv assms by (fastforce simp: status_code_rule_def)
qed

lemma response_inv:
  assumes "qi response_grammar s = Some (a, t)"
  shows "response_typed (response_of a)"
proof -
  let ?p = "Diff Any_char (Alt [Lit [CHR 0x0D], Lit [CHR 0x0A]])"
  from assms obtain b1 b2 b3 b4 b5 b6 r5 r6 b7 r7 b8 r8 b9 r9 b10 r10 b11 where
    b: "qi status_code_rule r5 = Some (b6, r6)" "qi (Kleene ?p) r7 = Some (b8, r8)"
    "qi (Kleene header_rule) r9 = Some (b10, r10)"
    "a = A_seq [b1, b2, b3, b4, b5, b6, b7, b8, b9, b10, b11]"
    unfolding response_grammar_def by (elim seq_inv) (auto simp: qi_seq_Nil)
  have p: "consumes qi ?p (text_attr (\<lambda>c. c \<noteq> CHR 0x0D \<and> c \<noteq> CHR 0x0A))"
  proof (rule consumesI)
    fix s a r
    assume "qi ?p s = Some (a, r)"
    then show "text_attr (\<lambda>c. c \<noteq> CHR 0x0D \<and> c \<noteq> CHR 0x0A) a \<and> length r < length s"
      by (cases s) (auto simp: text_attr_def qi_diff qi_any qi_alt_Cons qi_alt_Nil qi_lit split: if_splits)
  qed
  have "text_attr (\<lambda>c. c \<noteq> CHR 0x0D \<and> c \<noteq> CHR 0x0A) b8"
    using kleene_inv [OF p b(2)] by auto
  moreover have "unat (word_of_nat (num_of b6) :: u16) < 1000"
    using status_inv [OF b(1)] by (simp add: unat_of_nat)
  ultimately show ?thesis
    using headers_inv [OF b(3)] b(4)
    by (simp add: response_typed_def response_of_def text_attr_def)
qed

end

subsection \<open>What is left of an input\<close>

text \<open>A parser moves the first iterator forward: what is left is an end of the input.\<close>

definition advances :: "qi_parser \<Rightarrow> bool" where
  "advances p \<longleftrightarrow> (\<forall>s a t. p s = Some (a, t) \<longrightarrow> suffix t s)"

lemma advancesI: "(\<And>s a t. p s = Some (a, t) \<Longrightarrow> suffix t s) \<Longrightarrow> advances p"
  by (simp add: advances_def)

lemma advancesD: "advances p \<Longrightarrow> p s = Some (a, t) \<Longrightarrow> suffix t s"
  by (simp add: advances_def)

locale advancing_codec = message_codec qi g
  for qi :: "qi_expr \<Rightarrow> qi_parser" and g :: number_gens +
  assumes qi_advance: "advances (qi e)"
begin

lemma skip_space_suffix: "suffix (skip_space u) u"
  by (simp add: skip_space_def suffix_dropWhile)

lemma phrase_rest: "suffix (snd (phrase_parse qi e s)) s"
proof (cases "qi e (skip_space s)")
  case None
  then show ?thesis by (simp add: phrase_parse_def skip_space_suffix)
next
  case (Some x)
  then have "suffix (snd x) (skip_space s)" using advancesD [OF qi_advance] by (metis prod.collapse)
  then have "suffix (skip_space (snd x)) s"
    using skip_space_suffix suffix_order.trans by blast
  then show ?thesis using Some by (cases x) (simp add: phrase_parse_def)
qed

lemma rest_printable:
  assumes "printable s"
  shows "printable (snd (read_transport qi s))" "printable (snd (read_require qi s))"
    "printable (snd (read_mkn_options qi s))"
proof -
  have sub: "printable t" if "suffix t s" for t
    using that assms by (auto simp: suffix_def)
  show "printable (snd (read_transport qi s))" "printable (snd (read_require qi s))"
    using sub phrase_rest [of transport_grammar s] phrase_rest [of require_rule s]
    by (auto simp: read_transport_def read_require_def split: prod.splits option.splits)
  show "printable (snd (read_mkn_options qi s))"
    using sub assms advancesD [OF qi_advance [of mkn_grammar], of s]
    by (auto simp: read_mkn_options_def split: option.splits)
qed

lemma tags_are_tokens: "\<forall>tag\<in>set (fst (read_require qi s)). token_text tag"
proof -
  have "\<forall>tag\<in>set (option_tags_of a). token_text tag" if "qi require_rule u = Some (a, t)" for u a t
  proof -
    let ?p = "Plus token" and ?c = "Seq [Lit '','', Plus token]"
    note tok = plus_text_inv [OF token_inv]
    from that obtain b r as where b: "qi ?p u = Some (b, r)" "qi (Kleene ?c) r = Some (A_many as, t)"
      "a = A_many (b # map last_attr as)"
      by (auto simp: require_rule_def qi_list split: option.splits attr.splits)
    have "consumes qi ?c (\<lambda>a. token_text (text_of (last_attr a)))"
    proof (rule consumesI)
      fix s a t
      assume "qi ?c s = Some (a, t)"
      then obtain c1 r1 c2 where c: "qi (Lit '','') s = Some (c1, r1)" "qi ?p r1 = Some (c2, t)"
        "a = A_seq [c1, c2]"
        by (elim seq_inv) (auto simp: qi_seq_Nil)
      then show "token_text (text_of (last_attr a)) \<and> length t < length s"
        using consumesD [OF tok c(2)] lit_inv [OF c(1)] by (simp add: text_attr_iff)
    qed
    from kleene_inv [OF this b(2)] consumesD [OF tok b(1)] b(3)
    show ?thesis by (auto simp: option_tags_of_def text_attr_iff)
  qed
  then show ?thesis
    by (auto simp: read_require_def phrase_parse_def split: prod.splits option.splits)
qed

end

lemma seq_run_advances:
  "\<forall>p\<in>set ps. advances p \<Longrightarrow> seq_run ps s = Some (as, t) \<Longrightarrow> suffix t s"
proof (induction ps arbitrary: s as)
  case (Cons p ps)
  then obtain a r bs where "p s = Some (a, r)" "seq_run ps r = Some (bs, t)"
    by (auto split: option.splits)
  then show ?case using Cons advancesD [of p s a r] by (auto intro: suffix_order.trans)
qed simp

lemma alt_run_advances: "\<forall>p\<in>set ps. advances p \<Longrightarrow> advances (alt_run ps)"
  by (induction ps) (auto simp: advances_def split: option.splits)

lemma many_run_advances: "advances p \<Longrightarrow> many_run n p s = (as, t) \<Longrightarrow> suffix t s"
proof (induction n arbitrary: s as)
  case (Suc n)
  show ?case
  proof (cases "p s")
    case None
    then show ?thesis using Suc.prems by simp
  next
    case (Some x)
    then show ?thesis
      using Suc.prems Suc.IH [OF Suc.prems(1), of "snd x"] advancesD [OF Suc.prems(1), of s "fst x" "snd x"]
      by (auto split: if_splits prod.splits intro: suffix_order.trans)
  qed
qed simp

lemma kleene_run_advances: "advances p \<Longrightarrow> kleene_run p s = (as, t) \<Longrightarrow> suffix t s"
  by (simp add: kleene_run_def many_run_advances)

lemma qi_run_advances: "advances h \<Longrightarrow> advances (qi_run h e)"
proof (induction e)
  case (Seq ps)
  then have all: "\<forall>p\<in>set (map (qi_run h) ps). advances p" by auto
  show ?case
  proof (rule advancesI)
    fix s a t
    assume "qi_run h (Seq ps) s = Some (a, t)"
    then obtain as where "seq_run (map (qi_run h) ps) s = Some (as, t)" by auto
    with all show "suffix t s" by (rule seq_run_advances)
  qed
next
  case (Seq_or p q)
  show ?case
  proof (rule advancesI)
    fix s a t
    assume "qi_run h (Seq_or p q) s = Some (a, t)"
    then show "suffix t s"
      using advancesD [of "qi_run h p" s] advancesD [of "qi_run h q"] Seq_or
      by (fastforce split: option.splits intro: suffix_order.trans)
  qed
next
  case (Alt ps)
  then show ?case using alt_run_advances [of "map (qi_run h) ps"] by simp
next
  case (Plus p)
  show ?case
  proof (rule advancesI)
    fix s a t
    assume "qi_run h (Plus p) s = Some (a, t)"
    then obtain b r as where "qi_run h p s = Some (b, r)" "kleene_run (qi_run h p) r = (as, t)"
      by (auto split: option.splits prod.splits)
    then show "suffix t s"
      using Plus advancesD [of "qi_run h p" s b r] kleene_run_advances [of "qi_run h p" r as t]
      by (auto intro: suffix_order.trans)
  qed
next
  case (Kleene p)
  then show ?case using kleene_run_advances by (fastforce intro!: advancesI split: prod.splits)
next
  case (List_of p q)
  show ?case
  proof (rule advancesI)
    fix s a t
    let ?c = "\<lambda>s. map_option (\<lambda>(as, t). (A_seq as, t)) (seq_run [qi_run h q, qi_run h p] s)"
    assume "qi_run h (List_of p q) s = Some (a, t)"
    then obtain b r as where run: "qi_run h p s = Some (b, r)" "kleene_run ?c r = (as, t)"
      by (auto simp del: seq_run.simps split: option.splits prod.splits)
    have all: "\<forall>x\<in>set [qi_run h q, qi_run h p]. advances x" using List_of by simp
    have "advances ?c"
    proof (rule advancesI)
      fix s a t
      assume "?c s = Some (a, t)"
      then obtain as where "seq_run [qi_run h q, qi_run h p] s = Some (as, t)"
        by (auto simp del: seq_run.simps)
      with all show "suffix t s" by (rule seq_run_advances)
    qed
    from kleene_run_advances [OF this run(2)] show "suffix t s"
      using run(1) List_of advancesD [of "qi_run h p" s b r] by (auto intro: suffix_order.trans)
  qed
next
  case (Uint_parser base lo hi bits)
  then show ?case by (auto intro!: advancesI suffix_drop simp: Let_def split: if_splits)
qed (auto intro!: advancesI dest: advancesD simp: suffix_drop suffix_ConsI
    split: option.splits if_splits list.splits)

lemma body_run_advances: "advances (body_run n)"
proof (induction n)
  case 0
  then show ?case by (simp add: advances_def)
next
  case (Suc n)
  then show ?case using qi_run_advances [of "body_run n" header_field_body] by (simp add: advances_def)
qed

interpretation advancing: advancing_codec message_run number_texts
proof (rule advancing_codec.intro)
  show "message_codec message_run number_texts" by (rule message.message_codec_axioms)
  have "advances (\<lambda>s. body_run (length s) s)"
    using body_run_advances by (auto simp: advances_def)
  then show "advancing_codec_axioms message_run"
    unfolding message_run_def by unfold_locales (rule qi_run_advances)
qed

subsection \<open>Properties\<close>

text \<open>
  C10 (type): every message that is read is well typed. Whatever text arrives, a request that the
  grammar reads has a token as method, a URI without white space that is not empty, tokens as
  names of its headers and values without control characters, folded headers included; and a
  response has a status code below 1000, a reason phrase without line ends, and such headers.
\<close>

theorem parsed_messages_typed:
  assumes "message_codec qi g"
  shows "(case read_request qi s of (Some rq, rest) \<Rightarrow> request_typed rq | _ \<Rightarrow> True) \<and>
    (case read_response qi partial s' of (True, r) \<Rightarrow> response_typed r | _ \<Rightarrow> True)"
  using message_codec.request_inv [OF assms] message_codec.response_inv [OF assms]
  by (auto simp: read_request_def phrase_parse_def read_response_def split: option.splits prod.splits bool.splits)

theorem parsed_messages_typed_witness:
  "\<exists>rq. read_request message_run (generate_request decimal sample_message_request) = (Some rq, []) \<and>
     request_typed rq"
  using parsed_messages_typed [OF message.message_codec_axioms, where s = "generate_request decimal sample_message_request"]
    message.request_here [of sample_message_request]
  by (simp add: number_texts_def sample_message_request_def wf_request_def wf_headers_def token_text_def
      token_char_def tspecial_chars_def control_chars value_text_def is_space_def)

end
