(* ===== verification/Rtsp_Url.thy ===== *)
theory Rtsp_Url
  imports Rtsp_Grammar Rtsp_Client Rtsp_Methods
begin

section \<open>URLs\<close>

text \<open>
  The two grammars of URLs: the one of the client's \<open>process_url\<close>, which takes a URL apart, and
  the one of the server's \<open>get_jpeg_stream\<close>, which finds the file name in it.
\<close>

definition host_char :: qi_expr where
  "host_char = Alt [Alnum, Char_set ''.-'']"

definition url_grammar :: qi_expr where
  "url_grammar =
     Seq [Omit (Kleene Space), Alt [Str ''rtsp:'', Str ''rtspu:''], Lit ''//'',
          Seq_or (Kleene host_char)
            (Seq [Lit ''['', Kleene (Alt [Alnum, Char_set ''.:/'']), Lit '']'']),
          Optional (Seq [Lit '':'', Uint_parser 10 1 None 16]), Lit ''/'', Kleene Print]"

definition uri_grammar :: qi_expr where
  "uri_grammar =
     Seq [Alt [Lit ''rtsp:'', Lit ''rtspu:''], Lit ''//'', Omit (Kleene (Diff Any_char (Lit ''/''))),
          Lit ''/'', Alnum, Kleene Print]"

definition url_port_of :: "attr \<Rightarrow> u16 option" where
  "url_port_of a = (case a of A_opt (Some b) \<Rightarrow> Some (of_nat (num_of (part b 1))) | _ \<Rightarrow> None)"

definition read_url ::
    "(qi_expr \<Rightarrow> qi_parser) \<Rightarrow> string \<Rightarrow> (string \<times> string \<times> u16 option \<times> string) option" where
  "read_url qi url =
     map_option (\<lambda>(a, rest).
       (text_of (part a 1), text_of (part a 3), url_port_of (part a 4), text_of (part a 6)))
       (qi url_grammar url)"

definition read_uri_file_name :: "(qi_expr \<Rightarrow> qi_parser) \<Rightarrow> string \<Rightarrow> string option" where
  "read_uri_file_name qi request_uri =
     map_option (\<lambda>(a, rest). text_of (part a 4) @ text_of (part a 5)) (qi uri_grammar request_uri)"

subsection \<open>What the grammars read\<close>

definition host_text :: "string \<Rightarrow> bool" where
  "host_text h \<longleftrightarrow> (\<forall>c\<in>set h. is_alnum c \<or> c = CHR ''.'' \<or> c = CHR ''-'')"

definition path_text :: "string \<Rightarrow> bool" where
  "path_text p \<longleftrightarrow> p \<noteq> [] \<and> is_alnum (hd p) \<and> (\<forall>c\<in>set p. is_print c)"

definition url_text :: "number_gens \<Rightarrow> string \<Rightarrow> u16 option \<Rightarrow> string \<Rightarrow> string" where
  "url_text g host port path =
     ''rtsp://'' @ host @ (case port of None \<Rightarrow> [] | Some p \<Rightarrow> '':'' @ dec_gen g p) @ ''/'' @ path"

lemma not_host_chars [simp]:
  "\<not> is_alnum (CHR ''/'')" "\<not> is_alnum (CHR '':'')" "\<not> is_alnum (CHR ''['')"
  by (simp_all add: is_alnum_def)

lemma slash_no_digit [simp]: "\<not> is_digit base (CHR ''/'')"
  by (simp add: is_digit_def digit_value_def)

lemma no_slash:
  "host_text h \<Longrightarrow> CHR ''/'' \<notin> set h" "numeral_of base n ds \<Longrightarrow> CHR ''/'' \<notin> set ds"
  by (auto simp: host_text_def numeral_of_def)

context header_codec
begin

lemma host_here:
  assumes "host_text h" and "rest \<noteq> []" and "hd rest = CHR ''/'' \<or> hd rest = CHR '':''"
  shows "qi (Seq_or (Kleene host_char) (Seq [Lit ''['', Kleene (Alt [Alnum, Char_set ''.:/'']), Lit '']'']))
      (h @ rest) = Some (A_seq [A_many (map A_char h)], rest)"
proof -
  have c: "qi host_char (c # r) =
      (if is_alnum c \<or> c = CHR ''.'' \<or> c = CHR ''-'' then Some (A_char c, r) else None)" for c r
    by (simp add: host_char_def qi_alt_Cons qi_alt_Nil qi_alnum qi_set)
  obtain x xs where rest: "rest = x # xs" "x = CHR ''/'' \<or> x = CHR '':''"
    using assms(2,3) by (cases rest) auto
  then have "qi (Kleene host_char) (h @ rest) = Some (A_many (map A_char h), rest)"
    using assms(1) by (intro kleene_chars) (auto simp: c host_text_def)
  then show ?thesis using rest by (auto simp: qi_seq_or qi_seq_Cons qi_lit)
qed

lemma print_here:
  assumes "\<forall>c\<in>set p. is_print c"
  shows "qi (Kleene Print) p = Some (A_many (map A_char p), [])"
  using kleene_chars [of p Print "[]"] assms by (simp add: qi_print)

lemma url_here:
  assumes "host_text host" and "path_text path"
  shows "read_url qi (url_text g host port path) = Some (''rtsp:'', host, port, path)"
proof -
  have space: "qi (Omit (Kleene Space)) (CHR ''r'' # s) = Some (A_unused, CHR ''r'' # s)" for s
    by (simp add: qi_omit qi_space is_space_def qi_kleene_stop)
  have print: "qi (Kleene Print) path = Some (A_many (map A_char path), [])"
    using assms(2) by (intro print_here) (simp add: path_text_def)
  show ?thesis
  proof (cases port)
    case None
    have "qi (Optional (Seq [Lit '':'', Uint_parser 10 1 None 16])) (CHR ''/'' # path) =
        Some (A_opt None, CHR ''/'' # path)"
      by (simp add: qi_opt qi_seq_Cons qi_lit)
    then show ?thesis
      using None space print host_here [OF assms(1), of "CHR ''/'' # path"]
      by (simp add: read_url_def url_grammar_def url_text_def qi_seq_Cons qi_seq_Nil qi_lit qi_alt_Cons
          qi_string url_port_of_def)
  next
    case (Some n)
    have "qi (Optional (Seq [Lit '':'', Uint_parser 10 1 None 16]))
        (CHR '':'' # dec_gen g n @ CHR ''/'' # path) =
      Some (A_opt (Some (A_seq [A_unused, A_num (unat n)])), CHR ''/'' # path)"
      using dec_here_unbounded [of "CHR ''/'' # path" n]
      by (simp add: qi_opt qi_seq_Cons qi_seq_Nil qi_lit)
    then show ?thesis
      using Some space print host_here [OF assms(1), of "CHR '':'' # dec_gen g n @ CHR ''/'' # path"]
      by (simp add: read_url_def url_grammar_def url_text_def qi_seq_Cons qi_seq_Nil qi_lit qi_alt_Cons
          qi_string url_port_of_def)
  qed
qed

lemma uri_file_name_here:
  assumes "host_text host" and "path_text path"
  shows "read_uri_file_name qi (url_text g host port path) = Some path"
proof -
  obtain c p where path: "path = c # p" "is_alnum c" using assms(2) by (cases path) (auto simp: path_text_def)
  then have print: "qi (Kleene Print) p = Some (A_many (map A_char p), [])"
    using assms(2) by (intro print_here) (simp add: path_text_def)
  let ?authority = "host @ (case port of None \<Rightarrow> [] | Some p \<Rightarrow> '':'' @ dec_gen g p)"
  have "CHR ''/'' \<notin> set ?authority"
    using no_slash(1) [OF assms(1)] no_slash(2) [OF dec] by (auto split: option.splits)
  then have "qi (Kleene (Diff Any_char (Lit ''/''))) (?authority @ CHR ''/'' # path) =
      Some (A_many (map A_char ?authority), CHR ''/'' # path)"
    by (intro kleene_chars) (auto simp: qi_diff qi_any qi_lit)
  then show ?thesis
    using print path
    by (simp add: read_uri_file_name_def uri_grammar_def url_text_def qi_seq_Cons qi_seq_Nil qi_lit
        qi_alt_Cons qi_omit qi_alnum)
qed

end

subsection \<open>Properties\<close>

text \<open>
  C31 (functional): a URL means the same on both sides. For a URL of a host, an optional port and a
  path that starts with a letter or digit, the client resolves this host and this port, 554 if
  there is none, sends the whole URL as request URI, and the server takes from it exactly this
  path: whether the stream exists, and what it holds, depends on nothing but the canonical form
  of the path, which may lead out of the resource directory.
\<close>

theorem url_reaches_the_file:
  assumes "header_codec qi g" and "parse_url cenv = read_url qi"
    and "uri_file_name env = read_uri_file_name qi" and "host_text host" and "path_text path"
  shows "\<exists>cl. new_rtsp_client cenv (url_text g host port path) = Inr cl \<and>
    settings_host (settings cl) = host \<and>
    settings_port (settings cl) = (case port of None \<Rightarrow> 554 | Some p \<Rightarrow> p) \<and>
    get_jpeg_stream env (original_url (settings cl)) =
      map_option (file_octets env) (canonical_path env path)"
  using header_codec.url_here [OF assms(1,4,5), of port]
    header_codec.uri_file_name_here [OF assms(1,4,5), of port] assms(2,3)
  by (simp add: new_rtsp_client_def process_url_def get_jpeg_stream_def)

theorem url_reaches_the_file_witness:
  "\<exists>cl. new_rtsp_client ((sample_client_env refused_setup)\<lparr>parse_url := read_url (qi_run (\<lambda>_. None))\<rparr>)
      (url_text number_texts ''example.org'' (Some 8554) ''movie/../../key'') = Inr cl \<and>
    settings_host (settings cl) = ''example.org'' \<and> settings_port (settings cl) = 8554 \<and>
    get_jpeg_stream (sample_env\<lparr>uri_file_name := read_uri_file_name (qi_run (\<lambda>_. None))\<rparr>)
      (original_url (settings cl)) = Some (ascii_digits 1 @ [9])"
  using url_reaches_the_file [OF codec.header_codec_axioms [of "\<lambda>_. None"], of
      "(sample_client_env refused_setup)\<lparr>parse_url := read_url (qi_run (\<lambda>_. None))\<rparr>"
      "sample_env\<lparr>uri_file_name := read_uri_file_name (qi_run (\<lambda>_. None))\<rparr>"
      "''example.org''" "''movie/../../key''" "Some 8554"]
  by (simp add: host_text_def path_text_def is_alnum_def is_print_def sample_env_def)

end
