(* ===== verification/Rtsp_Dialog.thy ===== *)
theory Rtsp_Dialog
  imports Rtsp_Message_Grammar Rtsp_Url Rtsp_Connection Rtsp_Client
begin

section \<open>The dialog of client and server\<close>

text \<open>
  Client and server over the texts they exchange: the parsing and printing functions that the
  models of the two sides take as parameters are the grammars and generators of the code.
\<close>

text \<open>The answer to a SETUP of this client, spelled out.\<close>

abbreviation offered_transport :: "choices \<Rightarrow> u16 \<Rightarrow> transport_spec" where
  "offered_transport c port \<equiv> agreed_transport port (drawn_ssrc c) (Port_number (port + 2))"

definition setup_answer :: "rtsp_env \<Rightarrow> choices \<Rightarrow> u32 \<Rightarrow> u16 \<Rightarrow> response" where
  "setup_answer env c cseq port =
     \<lparr>response_version_major = 1, response_version_minor = 0, status_code = 200,
      reason_phrase = ''OK'', response_headers = [(''CSeq'', decimal cseq),
        (''Session'', drawn_uuid c),
        (''Transport'', generate_transport env [offered_transport c port])]\<rparr>"

text \<open>The sender that serves it.\<close>

abbreviation setup_sender :: "choices \<Rightarrow> octets \<Rightarrow> jpeg_sender" where
  "setup_sender c source \<equiv>
     new_jpeg_sender (drawn_ssrc c) source (drawn_sequence_number c) (drawn_fec_sequence_number c)"

lemma plain_request_simps [simp]:
  "uri (plain_request m cl hs) = original_url (settings cl)"
  "method_or_extension (plain_request m cl hs) = m"
  "request_headers (plain_request m cl hs) = hs"
  by (simp_all add: plain_request_def)

lemma client_transport_accepted:
  "get_acceptable_transport dp ds (my_transport port) =
     Inr (Some (agreed_transport port ds (Port_number (port + 2))))"
  by (simp add: get_acceptable_transport_def my_transport_def is_unicast_rtp_udp_def Let_def)

text \<open>The server's side, with parsers that read back what the client sends.\<close>

lemma setup_served:
  assumes "server_reach env sp up st" and "sessions st (drawn_uuid c) = None" and "socket_bound c"
    and "get_jpeg_stream env (original_url (settings cl)) = Some source"
    and "to_lower env ''CSeq'' = ''cseq''" and "to_lower env ''Transport'' = ''transport''"
    and "parse_transport env t = (my_transport port, [])"
    and "parse_request w (in_streambuf conn) = (Some (plain_request ''SETUP'' cl
      [(''CSeq'', decimal k), (''Transport'', t)]), [])"
    and "last_response_string conn = []" and "socket_open conn"
  shows "\<exists>conn' st' s rtp.
    header_read env w c None now conn st =
      (Inr (Some (generate_response (decimal_gen w) (setup_answer env c k port))), conn', st') \<and>
    reading conn' \<and> sessions st' (drawn_uuid c) = Some s \<and> state_of s = Ready \<and>
    session_identifier s = drawn_uuid c \<and> rtp_session s = Some rtp \<and>
    rtp_destination_address rtp = remote_address conn \<and> rtp_destination_port rtp = port \<and>
    rtp_sys rtp = new_sender_sys (setup_sender c source)"
proof -
  let ?rq = "plain_request ''SETUP'' cl [(''CSeq'', decimal k), (''Transport'', t)]"
  have fields: "normalize_headers (to_lower env) [(''CSeq'', decimal k), (''Transport'', t)] =
      [''cseq'' \<mapsto> decimal k, ''transport'' \<mapsto> t]"
    using assms(5,6) by (simp add: normalize_headers_def add_header_def)
  have cseq: "decimal k \<noteq> []" by (simp add: decimal_def decimal_digits.simps [of "unat k"])
  let ?s = "(new_server_session (drawn_uuid c))\<lparr>last_seen_request_address := remote_address conn\<rparr>"
  obtain rtp where rtp: "make_rtp_session c ?s None port (port + 2) (drawn_ssrc c) source = Inr rtp"
      "rtp_sys rtp = new_sender_sys (setup_sender c source)" "rtp_destination_address rtp = remote_address conn"
      "rtp_destination_port rtp = port"
    using assms(3) by (auto simp: make_rtp_session_def)
  let ?s' = "?s\<lparr>rtp_session := Some rtp, state_of := Ready\<rparr>"
  have "methods_setup env c (session_for_setup c (remote_address conn) st) (?rq, request_fields env ?rq) =
      (Inr (setup_answer env c k port), ?s')"
    using assms(2,4,7) rtp(1)
    by (simp add: fields methods_setup_def skeleton_eq setup_options_def requested_transport_def
        client_transport_accepted session_for_setup_def sender_for_transport_eval setup_answer_def)
  from setup_new_session_eq [OF server_reach_inv [OF assms(1)] _ this]
  have "handle_incoming_request env c st ?rq (remote_address conn) =
      (Inr (setup_answer env c k port),
       \<lparr>sessions = (sessions st)(drawn_uuid c \<mapsto> ?s'),
        sessions_by_host = sessions_by_host st @ [(remote_address conn, drawn_uuid c)]\<rparr>)"
    using cseq by (simp add: handle_incoming_request_def Let_def fields)
  note server = header_read_answer [OF assms(8) this assms(10), of now]
  let ?answer = "generate_response (decimal_gen w) (setup_answer env c k port)"
  show ?thesis
    using server assms(9) rtp(2-4)
    by (intro exI [of _ "conn\<lparr>reading := True, last_request_time_point := now,
        in_streambuf := [], last_response_string := ?answer\<rparr>"] exI [of _
        "\<lparr>sessions = (sessions st)(drawn_uuid c \<mapsto> ?s'),
          sessions_by_host = sessions_by_host st @ [(remote_address conn, drawn_uuid c)]\<rparr>"]
        exI [of _ ?s'] exI [of _ rtp])
      (simp add: Let_def)
qed

text \<open>The client's side, with parsers that read back the answer.\<close>

lemma setup_received:
  assumes "client_lower cenv = to_lower env" and "to_lower env ''CSeq'' = ''cseq''"
    and "to_lower env ''Transport'' = ''transport''" and "to_lower env ''Session'' = ''session''"
    and "parse_cseq cenv (decimal k) = Some k"
    and "parse_response cenv answer = (True, setup_answer env c k port)"
    and "client_streambuf cl = answer" and "outstanding_requests cl k = Some (Setup own_port)"
    and "parse_server_transport cenv (generate_transport env [offered_transport c port]) = Some ts"
  shows "case process_server_transport ts of
      Inr (p, own) \<Rightarrow> \<exists>cl2 receiver. client_header_read cenv True None (length answer) cl = (Inr (), cl2) \<and>
        client_reading cl2 \<and> client_state cl2 = Ready \<and> client_identifier cl2 = drawn_uuid c \<and>
        rtp_receiver cl2 = Some (p, receiver) \<and> rx_ssrc receiver = own
    | Inl e \<Rightarrow> e = Out_of_range \<or>
        client_header_read cenv True None (length answer) cl =
          (Inl e, cl\<lparr>client_reading := False, client_streambuf := [], client_identifier := drawn_uuid c\<rparr>)"
proof -
  have fields: "normalize_headers (client_lower cenv) (response_headers (setup_answer env c k port)) =
    [''cseq'' \<mapsto> decimal k, ''session'' \<mapsto> drawn_uuid c,
     ''transport'' \<mapsto> generate_transport env [offered_transport c port]]"
    using assms(1-4) by (simp add: setup_answer_def normalize_headers_def add_header_def)
  have "status_code (setup_answer env c k port) = 200" by (simp add: setup_answer_def)
  note simps = assms(5-9) fields this client_header_read_def map_at_def dispatch_response_def
    response_handler_def setup_response_def process_server_transport_header_def Let_def
  show ?thesis
  proof (cases "process_server_transport ts")
    case (Inl e)
    then show ?thesis by (simp add: simps)
  next
    case (Inr x)
    obtain p own where x: "x = (p, own)" by (cases x)
    have "rx_ssrc (if rtp_statistics_handler cl then set_statistics_handler (new_jpeg_receiver own)
        else new_jpeg_receiver own) = own"
      by (simp add: set_statistics_handler_def new_jpeg_receiver_def)
    then show ?thesis using Inr x by (simp add: simps)
  qed
qed

subsection \<open>Both sides use the grammars\<close>

text \<open>
  What is left of an input that does not parse as a whole is not determined here: the server
  reads through \<open>multi_pass\<close>, which takes characters from the stream as it looks at them.
\<close>

definition wired ::
    "(qi_expr \<Rightarrow> qi_parser) \<Rightarrow> number_gens \<Rightarrow> rtsp_env \<Rightarrow> wire \<Rightarrow> client_env \<Rightarrow> bool" where
  "wired qi g env w cenv \<longleftrightarrow>
     parse_transport env = read_transport qi \<and> parse_require env = read_require qi \<and>
     parse_mkn_options env = read_mkn_options qi \<and> uri_file_name env = read_uri_file_name qi \<and>
     (\<forall>t s. transport_gen g t = Some s \<longrightarrow> generate_transport env t = s) \<and>
     (\<forall>s rq. read_request qi s = (Some rq, []) \<longrightarrow> parse_request w s = (Some rq, [])) \<and>
     decimal_gen w = dec_gen g \<and>
     parse_url cenv = read_url qi \<and>
     (\<exists>partial. parse_response cenv = read_response qi partial) \<and> parse_cseq cenv = read_cseq qi \<and>
     parse_server_transport cenv = read_server_transport qi \<and>
     generate_transport_header cenv = transport_gen g \<and>
     generate_mkn_options cenv = (\<lambda>opt. Some (mkn_gen g opt)) \<and>
     request_dec cenv = dec_gen g \<and> client_lower cenv = to_lower env"

lemma wired_request:
  assumes "message_codec qi g" and "wired qi g env w cenv" and "wf_request rq"
  shows "parse_request w (generate_request (decimal_gen w) rq) = (Some rq, [])"
  using message_codec.request_here [OF assms(1,3)] assms(2) by (simp add: wired_def)

lemma wired_response:
  assumes "message_codec qi g" and "wired qi g env w cenv" and "wf_response r"
  shows "parse_response cenv (generate_response (decimal_gen w) r) = (True, r)"
  using message_codec.response_here [OF assms(1,3)] assms(2) by (auto simp: wired_def)

text \<open>The texts of the SETUP dialog.\<close>

lemma header_names:
  "token_text ''CSeq''" "token_text ''Transport''" "token_text ''Session''" "token_text ''SETUP''"
  "token_text ''RTP''" "token_text ''AVP''" "token_text ''UDP''" "token_text ''unicast''"
  by (simp_all add: token_text_def token_char_def tspecial_chars_def control_chars)

lemma decimal_value: "value_text (decimal n)"
  unfolding decimal_def by (rule numeral_value_text) (rule numeral_decimal)

lemma my_transport_texts:
  "\<forall>spec\<in>set (my_transport port). wf_transport_spec spec"
  "\<forall>spec\<in>set (my_transport port). printable_spec spec"
  by (simp_all add: my_transport_def wf_transport_spec_def printable_spec_def header_names)

lemma offered_transport_text: "\<forall>spec\<in>set [offered_transport c port]. printable_spec spec"
  by (simp add: printable_spec_def header_names)

lemma transport_text: "t \<noteq> [] \<Longrightarrow> \<exists>s. transport_gen g t = Some s"
  by (simp add: transport_gen_def)

text \<open>
  A SETUP over the grammars: the server is asked and answers, and the client gets the text of the
  answer, in which it reads the SSRC if that has eight digits.
\<close>

lemma setup_over_text:
  assumes "message_codec qi g" and "wired qi g env w cenv"
    and "to_lower env ''CSeq'' = ''cseq''" and "to_lower env ''Transport'' = ''transport''"
    and "to_lower env ''Session'' = ''session''"
    and "server_reach env sp up st" and "sessions st (drawn_uuid c) = None" and "socket_bound c"
    and "value_text (drawn_uuid c)"
    and "get_jpeg_stream env (original_url (settings cl)) = Some source"
    and "original_url (settings cl) \<noteq> []" and "\<forall>x\<in>set (original_url (settings cl)). \<not> is_space x"
    and "client_state cl = Init" and "mkn_option cl = None" and "is_open cl"
    and "last_response_string conn = []" and "socket_open conn"
  obtains sent answer conn' st' s rtp ts where
    "client_request cenv (Setup port) cl = (Inr (Some sent), cl\<lparr>next_cseq := next_cseq cl + 1,
       outstanding_requests := (outstanding_requests cl)(next_cseq cl \<mapsto> Setup port)\<rparr>)"
    "header_read env w c None now (conn\<lparr>in_streambuf := sent\<rparr>) st = (Inr (Some answer), conn', st')"
    "reading conn'" "sessions st' (drawn_uuid c) = Some s" "state_of s = Ready"
    "session_identifier s = drawn_uuid c" "rtp_session s = Some rtp"
    "rtp_destination_address rtp = remote_address conn" "rtp_destination_port rtp = port"
    "rtp_sys rtp = new_sender_sys (setup_sender c source)"
    "parse_cseq cenv (decimal (next_cseq cl)) = Some (next_cseq cl)"
    "parse_response cenv answer = (True, setup_answer env c (next_cseq cl) port)"
    "parse_server_transport cenv (generate_transport env [offered_transport c port]) = Some ts"
    "process_server_transport ts =
      (if 2 ^ 28 \<le> unat (drawn_ssrc c) then Inr (port, drawn_ssrc c)
       else Inl (Runtime_error ''No ssrc parameter found in server transport specification''))"
proof -
  let ?k = "next_cseq cl"
  have hc: "header_codec qi g" using assms(1) by (rule message_codec.axioms(1))
  then have ng: "number_generators g" by (rule header_codec.axioms(2))
  note w = assms(2) [unfolded wired_def]
  obtain t where t: "transport_gen g (my_transport port) = Some t"
    using transport_text [of "my_transport port"] by (auto simp: my_transport_def)
  obtain o' where o: "transport_gen g [offered_transport c port] = Some o'"
    using transport_text [of "[offered_transport c port]"] by auto
  from chosen_transport_read [OF hc client_transport_accepted [of 0 "drawn_ssrc c" port]] o
  obtain ts where ts: "read_server_transport qi o' = Some ts" "process_server_transport ts =
      (if 2 ^ 28 \<le> unat (drawn_ssrc c) then Inr (port, drawn_ssrc c)
       else Inl (Runtime_error ''No ssrc parameter found in server transport specification''))"
    by auto
  let ?rq = "plain_request ''SETUP'' cl [(''CSeq'', decimal ?k), (''Transport'', t)]"
  have rq: "wf_request ?rq"
    using assms(11,12) number_generators.transport_value [OF ng my_transport_texts(2) t]
    by (simp add: wf_request_def wf_headers_def header_names decimal_value)
  have r: "wf_response (setup_answer env c ?k port)"
    using w o assms(9) number_generators.transport_value [OF ng offered_transport_text o]
    by (simp add: wf_response_def setup_answer_def wf_headers_def header_names decimal_value is_space_def)
  have cseq: "parse_cseq cenv (decimal ?k) = Some ?k"
    using w message_codec.cseq_here [OF assms(1) numeral_decimal] by (simp add: decimal_def)
  let ?sent = "generate_request (decimal_gen w) ?rq"
  have sent: "client_request cenv (Setup port) cl = (Inr (Some ?sent),
      cl\<lparr>next_cseq := ?k + 1, outstanding_requests := (outstanding_requests cl)(?k \<mapsto> Setup port)\<rparr>)"
    using assms(13-15) t w
    by (simp add: client_request_def call_guard_def send_call_def call_request_def setup_request_def
        send_request_def plain_request_def Let_def)
  have "parse_transport env t = (my_transport port, [])"
    using w read_transport_text(1) [OF hc my_transport_texts(1) t] by simp
  from setup_served [where conn = "conn\<lparr>in_streambuf := ?sent\<rparr>" and now = now and w = w,
      OF assms(6-8,10,3,4) this] wired_request [OF assms(1,2) rq] assms(16,17)
  show ?thesis
    using that [OF sent _ _ _ _ _ _ _ _ _ cseq wired_response [OF assms(1,2) r] _ ts(2)] w o ts(1)
    by fastforce
qed

text \<open>The whole dialog, when the client can read the SSRC.\<close>

lemma setup_dialog:
  assumes "message_codec qi g" and "wired qi g env w cenv"
    and "to_lower env ''CSeq'' = ''cseq''" and "to_lower env ''Transport'' = ''transport''"
    and "to_lower env ''Session'' = ''session''"
    and "server_reach env sp up st" and "sessions st (drawn_uuid c) = None" and "socket_bound c"
    and "value_text (drawn_uuid c)"
    and "get_jpeg_stream env (original_url (settings cl)) = Some source"
    and "original_url (settings cl) \<noteq> []" and "\<forall>x\<in>set (original_url (settings cl)). \<not> is_space x"
    and "client_state cl = Init" and "mkn_option cl = None" and "is_open cl"
    and "last_response_string conn = []" and "socket_open conn" and "2 ^ 28 \<le> unat (drawn_ssrc c)"
  shows "\<exists>sent cl1 answer conn' st' cl2 s rtp receiver.
    client_request cenv (Setup port) cl = (Inr (Some sent), cl1) \<and>
    header_read env w c None now (conn\<lparr>in_streambuf := sent\<rparr>) st = (Inr (Some answer), conn', st') \<and>
    reading conn' \<and>
    client_header_read cenv True None (length answer) (cl1\<lparr>client_streambuf := answer\<rparr>) =
      (Inr (), cl2) \<and> client_reading cl2 \<and>
    sessions st' (drawn_uuid c) = Some s \<and> state_of s = Ready \<and> client_state cl2 = Ready \<and>
    client_identifier cl2 = session_identifier s \<and>
    rtp_session s = Some rtp \<and> rtp_destination_address rtp = remote_address conn \<and>
    rtp_sys rtp = new_sender_sys (setup_sender c source) \<and>
    rtp_receiver cl2 = Some (rtp_destination_port rtp, receiver) \<and> rx_ssrc receiver = drawn_ssrc c"
proof (rule setup_over_text [OF assms(1-17), of port now])
  fix sent answer conn' st' s rtp ts
  let ?cl1 = "cl\<lparr>next_cseq := next_cseq cl + 1,
    outstanding_requests := (outstanding_requests cl)(next_cseq cl \<mapsto> Setup port)\<rparr>"
  assume dialog:
    "client_request cenv (Setup port) cl = (Inr (Some sent), ?cl1)"
    "header_read env w c None now (conn\<lparr>in_streambuf := sent\<rparr>) st = (Inr (Some answer), conn', st')"
    "reading conn'" "sessions st' (drawn_uuid c) = Some s" "state_of s = Ready"
    "session_identifier s = drawn_uuid c" "rtp_session s = Some rtp"
    "rtp_destination_address rtp = remote_address conn" "rtp_destination_port rtp = port"
    "rtp_sys rtp = new_sender_sys (setup_sender c source)"
    "parse_cseq cenv (decimal (next_cseq cl)) = Some (next_cseq cl)"
    "parse_response cenv answer = (True, setup_answer env c (next_cseq cl) port)"
    "parse_server_transport cenv (generate_transport env [offered_transport c port]) = Some ts"
    "process_server_transport ts =
      (if 2 ^ 28 \<le> unat (drawn_ssrc c) then Inr (port, drawn_ssrc c)
       else Inl (Runtime_error ''No ssrc parameter found in server transport specification''))"
  have "client_lower cenv = to_lower env" using assms(2) by (simp add: wired_def)
  from setup_received [OF this assms(3-5) dialog(11,12) _ _ dialog(13),
      of "?cl1\<lparr>client_streambuf := answer\<rparr>" port] assms(18) dialog(14)
  obtain cl2 receiver where
    "client_header_read cenv True None (length answer) (?cl1\<lparr>client_streambuf := answer\<rparr>) = (Inr (), cl2)"
    "client_reading cl2" "client_state cl2 = Ready" "client_identifier cl2 = drawn_uuid c"
    "rtp_receiver cl2 = Some (port, receiver)" "rx_ssrc receiver = drawn_ssrc c"
    by auto
  then show ?thesis
    using dialog(1-10)
    by (intro exI [of _ sent] exI [of _ ?cl1] exI [of _ answer] exI [of _ conn'] exI [of _ st']
        exI [of _ cl2] exI [of _ s] exI [of _ rtp] exI [of _ receiver]) simp
qed

text \<open>An instance: the parsers that run the grammars, and the printed digits.\<close>

definition text_env :: rtsp_env where
  "text_env = sample_env\<lparr>parse_transport := read_transport message_run,
     parse_require := read_require message_run, parse_mkn_options := read_mkn_options message_run,
     uri_file_name := read_uri_file_name message_run,
     generate_transport := (\<lambda>t. case transport_gen number_texts t of None \<Rightarrow> [] | Some s \<Rightarrow> s)\<rparr>"

definition text_wire :: wire where
  "text_wire = \<lparr>parse_request = read_request message_run, decimal_gen = decimal\<rparr>"

definition text_client_env :: client_env where
  "text_client_env = \<lparr>client_lower = to_lower text_env, parse_url = read_url message_run,
     parse_response = read_response message_run (\<lambda>_. refused_setup),
     parse_cseq = read_cseq message_run, parse_server_transport = read_server_transport message_run,
     generate_transport_header = transport_gen number_texts,
     generate_mkn_options = (\<lambda>opt. Some (mkn_gen number_texts opt)), request_dec = decimal\<rparr>"

definition text_client :: rtsp_client where
  "text_client = (sample_client Option_call)\<lparr>outstanding_requests := Map.empty, client_streambuf := []\<rparr>"

lemma texts_wired: "wired message_run number_texts text_env text_wire text_client_env"
  by (auto simp: wired_def text_env_def text_wire_def text_client_env_def number_texts_def)

lemma text_lower [simp]:
  "to_lower text_env ''CSeq'' = ''cseq''" "to_lower text_env ''Transport'' = ''transport''"
  "to_lower text_env ''Session'' = ''session''"
  by (simp_all add: text_env_def)

lemma text_resource:
  "get_jpeg_stream text_env (original_url (settings text_client)) = Some (ascii_digits 1 @ [9])"
proof -
  have "read_uri_file_name message_run (url_text number_texts ''h'' None ''m'') = Some ''m''"
    by (rule header_codec.uri_file_name_here [OF message.header_codec_axioms])
      (simp_all add: host_text_def path_text_def is_alnum_def is_print_def)
  then show ?thesis
    by (simp add: get_jpeg_stream_def text_env_def sample_env_def text_client_def sample_client_def url_text_def)
qed

lemma text_conditions:
  "sessions new_server_state u = None" "value_text ''u1''"
  "get_jpeg_stream text_env (original_url (settings text_client)) = Some (ascii_digits 1 @ [9])"
  "original_url (settings text_client) \<noteq> []"
  "\<forall>x\<in>set (original_url (settings text_client)). \<not> is_space x"
  "client_state text_client = Init" "mkn_option text_client = None" "is_open text_client"
  "last_response_string sample_connection = []" "socket_open sample_connection" "resolving text_client = []" "connecting text_client = []"
  using text_resource
  by (simp_all add: new_server_state_def value_text_def control_chars
      text_client_def sample_client_def sample_connection_def is_space_def)

subsection \<open>Properties\<close>

text \<open>
  C2 (functional): SETUP end to end. Client and server run the grammars and generators of the code.
  A client in its initial state with an open connection sends SETUP, for a resource that exists,
  to a server in any reachable state that draws a new identifier and an SSRC of eight hexadecimal
  digits. Then the server reads the client's text and answers; afterwards both sides
  are ready, under the same identifier, the server's sender goes to the port the client listens
  on, with the SSRC the client's receiver accepts, and the client reads on.
\<close>

theorem setup_end_to_end:
  assumes "message_codec qi g" and "wired qi g env w cenv"
    and "to_lower env ''CSeq'' = ''cseq''" and "to_lower env ''Transport'' = ''transport''"
    and "to_lower env ''Session'' = ''session''"
    and "server_reach env sp up st" and "sessions st (drawn_uuid c) = None" and "socket_bound c"
    and "value_text (drawn_uuid c)"
    and "get_jpeg_stream env (original_url (settings cl)) = Some source"
    and "original_url (settings cl) \<noteq> []" and "\<forall>x\<in>set (original_url (settings cl)). \<not> is_space x"
    and "client_state cl = Init" and "mkn_option cl = None" and "is_open cl"
    and "last_response_string conn = []" and "socket_open conn" and "2 ^ 28 \<le> unat (drawn_ssrc c)"
  shows "\<exists>sent cl1 answer conn' st' cl2 s rtp s0 receiver.
    client_request cenv (Setup port) cl = (Inr (Some sent), cl1) \<and>
    header_read env w c None now (conn\<lparr>in_streambuf := sent\<rparr>) st = (Inr (Some answer), conn', st') \<and>
    reading conn' \<and>
    client_header_read cenv True None (length answer) (cl1\<lparr>client_streambuf := answer\<rparr>) =
      (Inr (), cl2) \<and> client_reading cl2 \<and>
    sessions st' (drawn_uuid c) = Some s \<and> state_of s = Ready \<and> client_state cl2 = Ready \<and>
    client_identifier cl2 = session_identifier s \<and>
    rtp_session s = Some rtp \<and> rtp_destination_address rtp = remote_address conn \<and>
    rtp_sys rtp = new_sender_sys s0 \<and> jpeg_source s0 = source \<and>
    rtp_receiver cl2 = Some (rtp_destination_port rtp, receiver) \<and> rx_ssrc receiver = tx_ssrc s0"
  using setup_dialog [OF assms, of port now] by (fastforce simp: new_jpeg_sender_def)

theorem setup_end_to_end_witness:
  "\<exists>sent cl1 answer conn' st' cl2.
     client_request text_client_env (Setup 50000) text_client = (Inr (Some sent), cl1) \<and>
     header_read text_env text_wire (sample_choices\<lparr>drawn_ssrc := 3735928559\<rparr>) None 1
       (sample_connection\<lparr>in_streambuf := sent\<rparr>) new_server_state = (Inr (Some answer), conn', st') \<and>
     client_header_read text_client_env True None (length answer)
       (cl1\<lparr>client_streambuf := answer\<rparr>) = (Inr (), cl2) \<and> client_state cl2 = Ready"
  using setup_end_to_end [OF message.message_codec_axioms texts_wired text_lower server_reach.start
      text_conditions(1), of "sample_choices\<lparr>drawn_ssrc := 3735928559\<rparr>" text_client _
      sample_connection 50000 1, OF _ _ text_conditions(3-10)] text_conditions(2)
  by (simp add: sample_choices_def) blast

text \<open>
  C13 (error): one SSRC in sixteen breaks the client. In the same dialog, when the SSRC the server
  draws is below 2^28, it is printed with less than eight digits: the server has answered 200 and its
  session is ready, but the client throws because it finds no SSRC, stays in its initial state,
  and, whatever is called and whatever arrives, never reads a response again.
\<close>

theorem short_ssrc_silences_client:
  assumes "message_codec qi g" and "wired qi g env w cenv"
    and "to_lower env ''CSeq'' = ''cseq''" and "to_lower env ''Transport'' = ''transport''"
    and "to_lower env ''Session'' = ''session''"
    and "server_reach env sp up st" and "sessions st (drawn_uuid c) = None" and "socket_bound c"
    and "value_text (drawn_uuid c)"
    and "get_jpeg_stream env (original_url (settings cl)) = Some source"
    and "original_url (settings cl) \<noteq> []" and "\<forall>x\<in>set (original_url (settings cl)). \<not> is_space x"
    and "client_state cl = Init" and "mkn_option cl = None" and "is_open cl"
    and "last_response_string conn = []" and "socket_open conn" and "unat (drawn_ssrc c) < 2 ^ 28"
    and "resolving cl = []" and "connecting cl = []"
  shows "\<exists>sent cl1 answer conn' st' cl2 s.
    client_request cenv (Setup port) cl = (Inr (Some sent), cl1) \<and>
    header_read env w c None now (conn\<lparr>in_streambuf := sent\<rparr>) st = (Inr (Some answer), conn', st') \<and>
    sessions st' (drawn_uuid c) = Some s \<and> state_of s = Ready \<and>
    client_header_read cenv True None (length answer) (cl1\<lparr>client_streambuf := answer\<rparr>) =
      (Inl (Runtime_error ''No ssrc parameter found in server transport specification''), cl2) \<and>
    (\<forall>events. \<not> client_reading (client_run cenv events cl2) \<and>
       client_state (client_run cenv events cl2) = Init)"
proof (rule setup_over_text [OF assms(1-17), of port now])
  fix sent answer conn' st' s rtp ts
  let ?cl1 = "cl\<lparr>next_cseq := next_cseq cl + 1,
    outstanding_requests := (outstanding_requests cl)(next_cseq cl \<mapsto> Setup port)\<rparr>"
  assume dialog:
    "client_request cenv (Setup port) cl = (Inr (Some sent), ?cl1)"
    "header_read env w c None now (conn\<lparr>in_streambuf := sent\<rparr>) st = (Inr (Some answer), conn', st')"
    "sessions st' (drawn_uuid c) = Some s" "state_of s = Ready"
    "parse_cseq cenv (decimal (next_cseq cl)) = Some (next_cseq cl)"
    "parse_response cenv answer = (True, setup_answer env c (next_cseq cl) port)"
    "parse_server_transport cenv (generate_transport env [offered_transport c port]) = Some ts"
    "process_server_transport ts =
      (if 2 ^ 28 \<le> unat (drawn_ssrc c) then Inr (port, drawn_ssrc c)
       else Inl (Runtime_error ''No ssrc parameter found in server transport specification''))"
  let ?cl2 = "?cl1\<lparr>client_reading := False, client_streambuf := [], client_identifier := drawn_uuid c\<rparr>"
  have "client_lower cenv = to_lower env" using assms(2) by (simp add: wired_def)
  from setup_received [OF this assms(3-5) dialog(5,6) _ _ dialog(7),
      of "?cl1\<lparr>client_streambuf := answer\<rparr>" port] assms(18) dialog(8)
  have "client_header_read cenv True None (length answer) (?cl1\<lparr>client_streambuf := answer\<rparr>) =
      (Inl (Runtime_error ''No ssrc parameter found in server transport specification''), ?cl2)"
    by simp
  moreover have deaf: "deaf ?cl2" using assms(15,19,20) by (simp add: deaf_def)
  ultimately show ?thesis
    using dialog(1-4) deaf_run [OF deaf, of cenv] assms(13) by (fastforce simp: deaf_def)
qed

theorem short_ssrc_silences_client_witness:
  "\<exists>sent cl1 answer conn' st' cl2.
     client_request text_client_env (Setup 50000) text_client = (Inr (Some sent), cl1) \<and>
     header_read text_env text_wire sample_choices None 1
       (sample_connection\<lparr>in_streambuf := sent\<rparr>) new_server_state = (Inr (Some answer), conn', st') \<and>
     client_header_read text_client_env True None (length answer) (cl1\<lparr>client_streambuf := answer\<rparr>) =
       (Inl (Runtime_error ''No ssrc parameter found in server transport specification''), cl2) \<and>
     \<not> client_reading (client_run text_client_env [Call Play, Data ''x''] cl2)"
  using short_ssrc_silences_client [OF message.message_codec_axioms texts_wired text_lower
      server_reach.start text_conditions(1), of sample_choices text_client _ sample_connection 50000 1,
      OF _ _ text_conditions(3-10) _ text_conditions(11,12)] text_conditions(2)
  by (simp add: sample_choices_def del: client_run.simps) blast

text \<open>
  C30 (error): pipelined requests are merged. When two requests have arrived before the server
  reads, the grammar takes the blank line between them for a folded header: the second request
  line becomes part of the last header of the first request, and the headers of the second
  become headers of the first. The server handles the first method once, with the merged headers, and
  sends one answer; the second request is gone.
\<close>

theorem pipelined_requests_merge:
  assumes "message_codec qi g" and "wired qi g env w cenv" and "wf_request r1" and "wf_request r2"
    and "\<forall>x\<in>set (uri r2). \<not> is_control x" and "request_headers r1 = hs @ [(name, v)]"
    and "in_streambuf conn = generate_request (dec_gen g) r1 @ generate_request (dec_gen g) r2"
    and "handle_incoming_request env c st (r1\<lparr>request_headers :=
      hs @ (name, v @ request_line (dec_gen g) r2) # request_headers r2\<rparr>) (remote_address conn) =
      (Inr r, st')"
    and "socket_open conn"
  shows "\<exists>conn'. header_read env w c None now conn st =
      (Inr (Some (last_response_string conn @ generate_response (dec_gen g) r)), conn', st') \<and>
    in_streambuf conn' = [] \<and> reading conn'"
proof -
  have "parse_request w (in_streambuf conn) = (Some (r1\<lparr>request_headers :=
      hs @ (name, v @ request_line (dec_gen g) r2) # request_headers r2\<rparr>), [])"
    using message_codec.merged_here [OF assms(1,3-6)] assms(2,7) by (simp add: wired_def)
  from header_read_answer [OF this assms(8,9), of now] assms(2) show ?thesis
    by (simp add: wired_def Let_def)
qed

theorem pipelined_requests_merge_witness:
  "\<exists>conn'. header_read text_env text_wire sample_choices None 1
     (sample_connection\<lparr>in_streambuf := generate_request decimal (sample_request ''OPTIONS'' []) @
        generate_request decimal (sample_request ''PLAY'' [])\<rparr>) new_server_state =
     (Inr (Some (generate_response decimal (refusal 200 ''OK'' [(''CSeq'', ''1PLAY m RTSP/1.0,1''),
        (''Public'', ''SETUP, TEARDOWN, PLAY, PAUSE'')]))), conn', new_server_state)"
proof -
  let ?q = "sample_request ''OPTIONS'' []" and ?p = "sample_request ''PLAY'' []"
  have g: "dec_gen number_texts = decimal" by (simp add: number_texts_def)
  have line: "request_line decimal ?p = ''PLAY m RTSP/1.0''"
    by (simp add: request_line_def sample_request_def decimal_def decimal_digits.simps char_of_def bit_0)
  have "handle_incoming_request text_env sample_choices new_server_state
      (?q\<lparr>request_headers := [] @ (''CSeq'', ''1'' @ request_line (dec_gen number_texts) ?p) #
        request_headers ?p\<rparr>) ''10.0.0.1'' =
      (Inr (refusal 200 ''OK'' [(''CSeq'', ''1PLAY m RTSP/1.0,1''),
        (''Public'', ''SETUP, TEARDOWN, PLAY, PAUSE'')]), new_server_state)"
    by (simp add: g line [unfolded sample_request_def] text_env_def server_eval server_options_def refusal_def)
  moreover have "wf_request ?q" "wf_request ?p"
    by (simp_all add: wf_request_def sample_request_def wf_headers_def token_text_def token_char_def
        tspecial_chars_def control_chars value_text_def is_space_def)
  moreover have "\<forall>x\<in>set (uri ?p). \<not> is_control x" "request_headers ?q = [] @ [(''CSeq'', ''1'')]"
    by (simp_all add: sample_request_def control_chars)
  ultimately show ?thesis
    using pipelined_requests_merge [OF message.message_codec_axioms texts_wired, of ?q ?p "[]" "''CSeq''"
        "''1''" "sample_connection\<lparr>in_streambuf := generate_request decimal ?q @
        generate_request decimal ?p\<rparr>" sample_choices new_server_state _ new_server_state 1]
    by (auto simp: g sample_connection_def)
qed

end
