(* ===== verification/Rtsp_Framing.thy ===== *)
theory Rtsp_Framing
  imports Rtsp_Parsed Rtsp_Dialog
begin

section \<open>Answers on the wire\<close>

text \<open>
  What a client sends reaches the answer of the server in many places: the sequence number, names
  of options, rests of headers, the URI and the method. This theory shows that no request over TCP
  can make the answer look like two messages, and that a datagram can.
\<close>

subsection \<open>Lines\<close>

lemma printable_one_line: "printable s \<Longrightarrow> one_line s"
  by (auto simp: printable_def one_line_def control_chars)

lemma no_space_one_line: "\<forall>c\<in>set s. \<not> is_space c \<Longrightarrow> one_line s"
proof (unfold one_line_def, rule notI)
  assume "\<forall>c\<in>set s. \<not> is_space c" and "CHR 0x0D \<in> set s"
  then have "\<not> is_space (CHR 0x0D)" by blast
  then show False by (simp add: is_space_def)
qed

definition line_headers :: "raw_headers \<Rightarrow> bool" where
  "line_headers hs \<longleftrightarrow> (\<forall>h\<in>set hs. one_line (fst h) \<and> one_line (snd h))"

lemma line_headers_simps [simp]:
  "line_headers []"
  "line_headers (h # hs) \<longleftrightarrow> one_line (fst h) \<and> one_line (snd h) \<and> line_headers hs"
  "line_headers (hs @ hs') \<longleftrightarrow> line_headers hs \<and> line_headers hs'"
  "line_headers (map (Pair k) vs) \<longleftrightarrow> vs = [] \<or> one_line k \<and> (\<forall>v\<in>set vs. one_line v)"
  by (cases vs; auto simp: line_headers_def)+

definition line_response :: "response \<Rightarrow> bool" where
  "line_response r \<longleftrightarrow> one_line (reason_phrase r) \<and> line_headers (response_headers r)"

lemma line_response_read:
  assumes "line_response r" and "\<forall>n. one_line (dec n)"
  shows "read_until_blank_line (generate_response dec r @ rest) = Some (generate_response dec r, rest)"
  using assms
    read_message [of "''RTSP/'' @ dec (response_version_major r) @ ''.'' @
      dec (response_version_minor r) @ '' '' @ dec (status_code r) @ '' '' @ reason_phrase r"
      "response_headers r" rest]
  by (simp add: line_response_def line_headers_def generate_response_def)

definition printable_fields :: "normalized_headers \<Rightarrow> bool" where
  "printable_fields h \<longleftrightarrow> (\<forall>k v. h k = Some v \<longrightarrow> printable v)"

lemma printable_fieldsD: "printable_fields h \<Longrightarrow> h k = Some v \<Longrightarrow> printable v"
  by (simp add: printable_fields_def)

lemma normalized_printable:
  "\<forall>h\<in>set raw. printable (snd h) \<Longrightarrow> printable_fields (normalize_headers lower raw)"
proof (induction raw rule: rev_induct)
  case Nil
  then show ?case by (simp add: normalize_headers_def printable_fields_def)
next
  case (snoc h raw)
  then show ?case
    by (auto simp: normalize_headers_snoc add_header_def printable_fields_def Let_def control_chars
        split: option.splits)
qed

subsection \<open>The interface to the parsers\<close>

text \<open>
  What the method handlers need of the functions in their environment: printable input leaves a
  printable rest and printable tags, and the transport they choose is printed printably.
\<close>

locale printable_env =
  fixes env :: rtsp_env
  assumes require_rest: "printable s \<Longrightarrow> printable (snd (parse_require env s))"
    and require_tags: "tag \<in> set (fst (parse_require env s)) \<Longrightarrow> printable tag"
    and mkn_rest: "printable s \<Longrightarrow> printable (snd (parse_mkn_options env s))"
    and transport_rest: "printable s \<Longrightarrow> printable (snd (parse_transport env s))"
    and transport_printed: "printable (generate_transport env [agreed_transport cp own numbers])"
begin

lemma setup_options_line:
  assumes "setup_options env h response = Inl r" and "printable_fields h" and "line_response response"
  shows "line_response r"
proof (cases "h ''require''")
  case None
  then show ?thesis using assms(1) by (simp add: setup_options_def)
next
  case (Some require)
  obtain tags rest where p: "parse_require env require = (tags, rest)" by force
  have "printable rest" "\<forall>tag\<in>set tags. printable tag"
    using p require_rest [of require] require_tags [of _ require] printable_fieldsD [OF assms(2) Some]
    by auto
  moreover have "printable (snd (parse_mkn_options env mkn))" if "h mkn_option_header = Some mkn" for mkn
    using that mkn_rest printable_fieldsD [OF assms(2)] by blast
  ultimately show ?thesis
    using assms(1,3) Some p
    by (auto simp: setup_options_def line_response_def mkn_option_header_def Let_def printable_one_line
        split: option.splits if_splits prod.splits)
qed

lemma skeleton_line:
  assumes "common_response_sekeleton s rq = Inr r" and "printable_fields (snd rq)"
    and "one_line (session_identifier s)"
  shows "line_response r"
  using assms printable_one_line [OF printable_fieldsD [OF assms(2)]]
  by (auto simp: common_response_sekeleton_def rbind_eq_Inr map_at_def line_response_def split: option.splits)

lemma methods_setup_line:
  assumes run: "methods_setup env c s rq = (Inr r, s')" and h: "printable_fields (snd rq)"
    and "one_line (session_identifier s)" and "one_line (uri (fst rq))"
  shows "line_response r"
proof -
  obtain r0 where r0: "common_response_sekeleton s rq = Inr r0"
    using run by (cases "common_response_sekeleton s rq") (auto simp: methods_setup_def)
  have l0: "line_response r0" by (rule skeleton_line [OF r0 h assms(3)])
  have rest: "one_line (snd (requested_transport env (snd rq)))"
    using transport_rest printable_one_line printable_fieldsD [OF h]
    by (auto simp: requested_transport_def split: option.splits)
  show ?thesis
  proof (cases "setup_options env (snd rq) r0")
    case (Inl r1)
    then show ?thesis
      using setup_options_line [OF Inl h l0] run r0 by (simp add: methods_setup_def)
  next
    case (Inr options)
    show ?thesis
    proof (cases rule: acceptable_transport_cases [where dp = "drawn_client_port c" and
          ds = "drawn_ssrc c" and requested = "fst (requested_transport env (snd rq))"])
      case none
      then show ?thesis
        using run r0 Inr l0 rest
        by (auto simp: methods_setup_def line_response_def split: prod.splits if_splits)
    next
      case (some cp own numbers spec)
      then show ?thesis
        using run r0 Inr l0 rest assms(4) printable_one_line [OF transport_printed [of cp own numbers]]
        by (auto simp: methods_setup_def line_response_def
            split: prod.splits if_splits option.splits sum.splits)
    qed
  qed
qed

text \<open>The other handlers keep the headers of the skeleton and choose the reason themselves.\<close>

lemma other_methods_line:
  assumes "run \<in> {teardown, play, pause}" and "run s rq = (Inr r, s')" and "printable_fields (snd rq)"
    and "one_line (session_identifier s)"
  shows "line_response r"
proof -
  obtain r0 where r0: "common_response_sekeleton s rq = Inr r0"
    and r: "r = r0 \<or> r = r0\<lparr>status_code := 455, reason_phrase := ''Method Not Valid in This State''\<rparr>"
    using assms(1,2)
    by (cases "common_response_sekeleton s rq")
       (auto simp: teardown_def play_def pause_def split: if_splits sum.splits)
  from r show ?thesis
    using skeleton_line [OF r0 assms(3,4)] by (elim disjE) (simp_all add: line_response_def one_line_def)
qed

text \<open>The handlers as the server calls them.\<close>

lemma handled_request_line:
  assumes inv: "server_inv sp up st" and run: "handle_incoming_request env c st rq requester = (Inr r, st')"
    and h: "printable_fields (request_fields env rq)" and m: "one_line (method_or_extension rq)"
    and u: "one_line (uri rq)" and ids: "\<forall>k. sessions st k \<noteq> None \<longrightarrow> one_line k" and "one_line (drawn_uuid c)"
  shows "line_response r" and "\<forall>k. sessions st' k \<noteq> None \<longrightarrow> one_line k"
proof -
  let ?rq = "(rq, request_fields env rq)"
  have "line_response r \<and> (\<forall>k. sessions st' k \<noteq> None \<longrightarrow> one_line k)"
    using run
  proof (cases rule: handle_request_cases)
    case no_cseq
    then show ?thesis using ids by (auto simp: refusal_def line_response_def)
  next
    case (stateless v r')
    have "one_line v" using stateless(1) printable_fieldsD [OF h] printable_one_line by blast
    then have "line_response r"
      using run stateless m
      by (auto simp: handle_incoming_request_def Let_def refusal_def not_implemented_def line_response_def
          server_methods_dom session_methods_def split: if_splits option.splits)
    then show ?thesis using stateless ids by simp
  next
    case (new_session v)
    let ?s = "session_for_setup c requester st"
    obtain s' where m: "methods_setup env c ?s ?rq = (Inr r, s')"
        "st' = \<lparr>sessions = (sessions st)(drawn_uuid c \<mapsto> s'),
           sessions_by_host = sessions_by_host st @ [(requester, drawn_uuid c)]\<rparr>"
      using new_session setup_new_session_eq [OF inv]
      by (metis fst_conv prod.inject prod.exhaust)
    show ?thesis
      using methods_setup_line [OF m(1)] m(2) h u ids assms(7) session_for_setup_ok(2) [OF inv, of c requester]
      by simp
  next
    case (in_session v k s res' s')
    let ?s = "s\<lparr>last_seen_request_address := requester\<rparr>"
    have "one_line (session_identifier ?s)"
      using server_invD(1) [OF inv in_session(5)] ids in_session(5) by simp
    moreover have "the (server_methods env c (method_or_extension rq)) \<in> {teardown, play, pause}"
      using in_session(3) by (auto simp: session_methods_def)
    moreover have "the (server_methods env c (method_or_extension rq)) ?s ?rq = (Inr r, s')"
      using in_session(6,7) by simp
    moreover have "printable_fields (snd ?rq)" using h by simp
    ultimately have "line_response r" using other_methods_line by blast
    then show ?thesis using in_session ids by (auto simp: delete_session_def)
  qed
  then show "line_response r" "\<forall>k. sessions st' k \<noteq> None \<longrightarrow> one_line k" by blast+
qed

end

subsection \<open>The grammars provide it\<close>

lemma codec_decimals:
  assumes "message_codec qi g"
  shows "one_line (dec_gen g n)"
proof -
  have "numeral_of 10 (unat n) (dec_gen g n)"
    using assms by (simp add: message_codec_def header_codec_def number_generators.dec)
  then have "printable (dec_gen g n)"
    using numeral_value_text by (auto simp: value_text_def printable_def)
  then show ?thesis by (rule printable_one_line)
qed

lemma wired_printable:
  assumes "advancing_codec qi g" and "wired qi g env w cenv"
  shows "printable_env env"
proof
  have ng: "number_generators g"
    using assms(1) by (auto simp: advancing_codec_def message_codec_def header_codec_def)
  note w = assms(2) [unfolded wired_def]
  fix s tag cp own numbers
  show "printable s \<Longrightarrow> printable (snd (parse_require env s))"
    "printable s \<Longrightarrow> printable (snd (parse_mkn_options env s))"
    "printable s \<Longrightarrow> printable (snd (parse_transport env s))"
    using advancing_codec.rest_printable [OF assms(1)] w by simp_all
  show "tag \<in> set (fst (parse_require env s)) \<Longrightarrow> printable tag"
    using advancing_codec.tags_are_tokens [OF assms(1)] w token_printable by simp
  have "\<forall>spec\<in>set [agreed_transport cp own numbers]. printable_spec spec"
    by (simp add: printable_spec_def header_names)
  from number_generators.transport_value [OF ng this]
    transport_text [of "[agreed_transport cp own numbers]" g] w
  show "printable (generate_transport env [agreed_transport cp own numbers])"
    by (auto simp: value_text_def printable_def)
qed

interpretation grammars: printable_env text_env
  by (rule wired_printable [OF advancing.advancing_codec_axioms texts_wired])

subsection \<open>Properties\<close>



text \<open>
  C39 (error): a datagram can split the answer. The answer to a datagram that is no request
  quotes what the grammar did not consume. A datagram whose first line starts with a separator
  such as a slash, and that goes on after a blank line, is quoted as a whole: who reads the answer finds
  a message that ends inside the quotation, and then a text the sender of the datagram has chosen.
\<close>

theorem datagram_splits_answer:
  assumes "message_codec qi g" and "parse_request w = read_request qi" and "decimal_gen w = dec_gen g"
    and "one_line (x # line)" and "\<not> token_char x" and "\<not> is_space x"
  shows "\<exists>answer message. handle_new_incoming_message env w c (x # line @ crlf @ crlf @ forged) host st =
       (Inr answer, st) \<and>
     read_until_blank_line answer = Some (message, forged @ [CHR 0x22] @ crlf @ crlf)"
proof -
  let ?text = "x # line @ crlf @ crlf @ forged"
  let ?line = "''RTSP/'' @ decimal_gen w 1 @ ''.'' @ decimal_gen w 0 @ '' '' @ decimal_gen w 400 @
    '' Bad Request, could not parse after '' @ [CHR 0x22] @ x # line"
  have qi: "header_codec qi g" "spirit_qi qi"
    using assms(1) by (simp_all add: message_codec_def header_codec_def)
  have "qi token ?text = None"
    using header_codec.token_stop [OF qi(1), of ?text] assms(5) by (simp add: stops_def)
  then have "qi request_grammar ?text = None"
    by (simp add: request_grammar_def spirit_qi.qi_seq_Cons [OF qi(2)] spirit_qi.qi_plus [OF qi(2)])
  then have "parse_request w ?text = (None, ?text)"
    using assms(2,6) by (simp add: read_request_def phrase_parse_def skip_space_def)
  then have "handle_new_incoming_message env w c ?text host st =
      (Inr (?line @ crlf @ crlf @ forged @ [CHR 0x22] @ crlf @ crlf), st)"
    by (simp add: handle_new_incoming_message_def refusal_def generate_response_def generate_headers_def)
  moreover have "one_line ?line"
    using assms(3,4) codec_decimals [OF assms(1)] by simp
  from read_line [OF this, of "crlf @ crlf @ forged @ [CHR 0x22] @ crlf @ crlf"]
  have "read_until_blank_line (?line @ crlf @ crlf @ forged @ [CHR 0x22] @ crlf @ crlf) =
      Some (?line @ crlf @ crlf, forged @ [CHR 0x22] @ crlf @ crlf)"
    using read_end by simp
  ultimately show ?thesis by blast
qed

theorem datagram_splits_answer_witness:
  "\<exists>answer message. handle_new_incoming_message text_env text_wire sample_choices
       (''/'' @ crlf @ crlf @ ''RTSP/1.0 200 OK'') ''10.0.0.1'' new_server_state = (Inr answer, new_server_state) \<and>
     read_until_blank_line answer = Some (message, ''RTSP/1.0 200 OK'' @ [CHR 0x22] @ crlf @ crlf)"
  using datagram_splits_answer [OF message.message_codec_axioms, of text_wire "CHR ''/''" "[]" text_env
      sample_choices "''RTSP/1.0 200 OK''" "''10.0.0.1''" new_server_state]
  by (simp add: text_wire_def number_texts_def token_char_def tspecial_chars_def is_space_def)

end
