(* ===== verification/Process.thy ===== *)
theory Process
  imports Prelude
begin

section \<open>Processes driven by events\<close>

text \<open>
  The server process and the receiver are driven by events: a datagram comes, a timer expires, a
  thread runs a handler. Each has a step function of its own, partial because an
  event may be impossible in a state. This theory holds what such processes share, as locales: how
  sequences of events compose, that the runs from fresh states are these sequences, that an
  invariant of the steps holds in every run, and that a run stays within the histories of a
  component of the process. Both processes are instances, in their own theories.
\<close>

locale event_steps =
  fixes step :: "'e \<Rightarrow> 's \<Rightarrow> 's option"
    and steps :: "'e list \<Rightarrow> 's \<Rightarrow> 's option"
  assumes steps_Nil: "steps [] s = Some s"
    and steps_Cons: "steps (e # es) s = (case step e s of None \<Rightarrow> None | Some t \<Rightarrow> steps es t)"
begin

lemma steps_append:
  "steps (es @ es') s = (case steps es s of None \<Rightarrow> None | Some t \<Rightarrow> steps es' t)"
  by (induction es arbitrary: s) (auto simp: steps_Nil steps_Cons split: option.splits)

lemma steps_ConsE:
  assumes "steps (e # es) s = Some t"
  obtains u where "step e s = Some u" "steps es u = Some t"
  using assms by (auto simp: steps_Cons split: option.splits)

text \<open>Induction over the steps from a state, the last step first.\<close>

lemma steps_induct [consumes 1, case_names none event]:
  assumes "steps es s = Some t" and "P [] s"
    and "\<And>es u e v. steps es s = Some u \<Longrightarrow> P es u \<Longrightarrow> step e u = Some v \<Longrightarrow> P (es @ [e]) v"
  shows "P es t"
  using assms(1)
proof (induction es arbitrary: t rule: rev_induct)
  case (snoc e es)
  then obtain u where "steps es s = Some u" "step e u = Some t"
    by (auto simp: steps_append steps_Nil steps_Cons split: option.splits)
  then show ?case using assms(3) snoc.IH by blast
qed (simp add: steps_Nil assms(2))

end

text \<open>Runs start in a fresh state; there are no others.\<close>

locale event_process = event_steps step steps
  for step :: "'e \<Rightarrow> 's \<Rightarrow> 's option" and steps :: "'e list \<Rightarrow> 's \<Rightarrow> 's option" +
  fixes fresh :: "'s \<Rightarrow> bool" and run :: "'e list \<Rightarrow> 's \<Rightarrow> bool"
  assumes run_fresh: "fresh s \<Longrightarrow> run [] s"
    and run_event: "run es s \<Longrightarrow> step e s = Some t \<Longrightarrow> run (es @ [e]) t"
    and run_only: "run es s \<Longrightarrow> (\<And>s. fresh s \<Longrightarrow> P [] s) \<Longrightarrow>
      (\<And>es s e t. run es s \<Longrightarrow> P es s \<Longrightarrow> step e s = Some t \<Longrightarrow> P (es @ [e]) t) \<Longrightarrow> P es s"
begin

lemma run_steps:
  assumes "run es s" and "steps later s = Some t"
  shows "run (es @ later) t"
  using assms(2)
proof (induction rule: steps_induct)
  case (event es' u e v)
  then show ?case using run_event [of "es @ es'" u e v] by simp
qed (simp add: assms(1))

theorem run_iff_steps: "run es t \<longleftrightarrow> (\<exists>s. fresh s \<and> steps es s = Some t)"
proof
  assume "run es t"
  then show "\<exists>s. fresh s \<and> steps es s = Some t"
    by (rule run_only) (auto simp: steps_append steps_Nil steps_Cons)
next
  assume "\<exists>s. fresh s \<and> steps es s = Some t"
  then show "run es t" using run_steps [OF run_fresh] by auto
qed

lemma run_induct [consumes 1, case_names fresh event]:
  assumes "run es s" and "\<And>s. fresh s \<Longrightarrow> P [] s"
    and "\<And>es s e t. run es s \<Longrightarrow> P es s \<Longrightarrow> step e s = Some t \<Longrightarrow> P (es @ [e]) t"
  shows "P es s"
  using assms by (rule run_only)

end

text \<open>An invariant: it holds in fresh states, and every step keeps it.\<close>

locale process_invariant = event_process step steps fresh run
  for step :: "'e \<Rightarrow> 's \<Rightarrow> 's option" and steps fresh and run :: "'e list \<Rightarrow> 's \<Rightarrow> bool" +
  fixes inv :: "'s \<Rightarrow> bool"
  assumes inv_fresh: "fresh s \<Longrightarrow> inv s"
    and inv_step: "inv s \<Longrightarrow> step e s = Some t \<Longrightarrow> inv t"
begin

lemma inv_steps: "inv s \<Longrightarrow> steps es s = Some t \<Longrightarrow> inv t"
  by (induction es arbitrary: s) (auto simp: steps_Nil elim!: steps_ConsE intro: inv_step)

lemma inv_run: "run es s \<Longrightarrow> inv s"
  by (induction rule: run_induct) (auto intro: inv_fresh inv_step)

text \<open>A relation that each step keeps from invariant states on is kept by all of them.\<close>

lemma inv_steps_keep:
  assumes "inv s" and "steps es s = Some t" and "Q s"
    and "\<And>s e t. inv s \<Longrightarrow> Q s \<Longrightarrow> step e s = Some t \<Longrightarrow> Q t"
  shows "Q t"
  using assms(2,1,3)
proof (induction es arbitrary: s)
  case (Cons e es)
  then obtain u where "step e s = Some u" "steps es u = Some t" by (elim steps_ConsE)
  then show ?case using Cons inv_step assms(4) by blast
qed (simp add: steps_Nil)

end

text \<open>
  A component of the state whose own histories are given: if it starts as one of them, and every
  step of the process is one of its steps or leaves it alone, it is always one of them.
\<close>

locale process_component = event_process step steps fresh run
  for step :: "'e \<Rightarrow> 's \<Rightarrow> 's option" and steps fresh and run :: "'e list \<Rightarrow> 's \<Rightarrow> bool" +
  fixes component :: "'s \<Rightarrow> 'c" and reach :: "'c \<Rightarrow> bool"
  assumes component_fresh: "fresh s \<Longrightarrow> reach (component s)"
    and component_step: "step e s = Some t \<Longrightarrow> reach (component s) \<Longrightarrow> reach (component t)"

sublocale process_component \<subseteq> process_invariant step steps fresh run "\<lambda>s. reach (component s)"
  by unfold_locales (auto intro: component_fresh component_step)

end
