(* ===== verification/Rtsp_Listener.thy ===== *)
theory Rtsp_Listener
  imports Rtsp_Connection Process "HOL-Library.Multiset"
begin

section \<open>The server process\<close>

text \<open>
  \<open>rtsp_server\<close> of \<open>rtsp_server.cpp\<close> as a process: the constructor, the listening sockets, the
  handlers the threads of the \<open>io_context\<close> run, and the graceful shutdown. Boost.Asio is
  modelled by its contract: an asynchronous operation that has been started completes at most
  once, its completion puts the handler with its arguments among the ready ones, and a thread
  in \<open>run()\<close> takes any ready handler. Handlers are atomic steps.
\<close>

subsection \<open>Operations, handlers and state\<close>

datatype listener = Udp_v4 | Udp_v6 | Tcp_v4 | Tcp_v6

text \<open>
  The outstanding operations: a datagram or a connection to receive, a datagram to send (to an
  address), and of the connection with a number the next request header, the send of its
  response buffer and its idle timer.
\<close>

datatype operation =
    Receive listener
  | Send_datagram listener string string
  | Read_header nat
  | Send_response nat
  | Wait_timeout nat

text \<open>
  The handlers with the arguments they are bound to. \<open>Header_read\<close> carries the octets that the read
  has put into the stream buffer.
\<close>

datatype handler =
    Udp_traffic listener "string option" nat
  | Incoming_message listener string string
  | Datagram_sent "string option" nat string
  | New_connection listener "string option" string
  | Header_read nat "asio_error option" string
  | Response_sent nat "string option" nat
  | Timeout_check nat
  | Close_socket listener

text \<open>
  The members of the server, with what Asio keeps for it; the connections are numbered in the
  order they were accepted. \<open>reported\<close> are the exceptions given to the error handler.
\<close>

record rtsp_server =
  the_state :: server_state
  work_guard :: bool
  open_listeners :: "listener set"
  udp_buffer :: "listener \<Rightarrow> string"
  udp_endpoint :: "listener \<Rightarrow> string"
  tcp_connections :: "tcp_connection list"
  operations :: "operation multiset"
  ready :: "handler multiset"
  io_threads :: nat
  reported :: "exn list"
  clock :: int

definition is_udp :: "listener \<Rightarrow> bool" where
  "is_udp l \<longleftrightarrow> l = Udp_v4 \<or> l = Udp_v6"

lemma is_udp_simps [simp]:
  "is_udp Udp_v4" "is_udp Udp_v6" "\<not> is_udp Tcp_v4" "\<not> is_udp Tcp_v6"
  by (simp_all add: is_udp_def)

text \<open>Starting an operation and \<open>boost::asio::post\<close>.\<close>

definition async :: "operation \<Rightarrow> rtsp_server \<Rightarrow> rtsp_server" where
  "async opn s = s\<lparr>operations := add_mset opn (operations s)\<rparr>"

definition post :: "handler \<Rightarrow> rtsp_server \<Rightarrow> rtsp_server" where
  "post h s = s\<lparr>ready := add_mset h (ready s)\<rparr>"

definition start_async_receive :: "listener \<Rightarrow> rtsp_server \<Rightarrow> rtsp_server" where
  "start_async_receive l = async (Receive l)"

definition start_async_send_to :: "listener \<Rightarrow> string \<Rightarrow> string \<Rightarrow> rtsp_server \<Rightarrow> rtsp_server" where
  "start_async_send_to l to_endpoint message = async (Send_datagram l to_endpoint message)"

subsection \<open>The constructor\<close>

text \<open>
  What the constructor finds: the resource root, the number of hardware threads, and which of
  the sockets can be opened and bound. It ends with a server, with an exception, or, when an
  exception leaves it while its threads are joinable, with \<open>std::terminate\<close>.
\<close>

record surroundings =
  root_exists :: bool
  root_is_directory :: bool
  hardware_concurrency :: nat
  can_bind :: "listener \<Rightarrow> bool"

datatype construction = Constructed rtsp_server | Throws exn | Terminates

text \<open>An exception destroys the members, among them the threads that run already.\<close>

definition leave_constructor :: "nat \<Rightarrow> exn \<Rightarrow> construction" where
  "leave_constructor joinable_threads e = (if joinable_threads > 0 then Terminates else Throws e)"

definition rtsp_server_new :: "surroundings \<Rightarrow> int \<Rightarrow> construction" where
  "rtsp_server_new around now =
     (if \<not> root_exists around \<or> \<not> root_is_directory around
      then leave_constructor 0 (Runtime_error ''Ressource root not existing or not a directory'')
      else
      let thread_count = max (hardware_concurrency around) 1
      in if \<not> can_bind around Tcp_v4 then leave_constructor thread_count System_error
         else Constructed
           (fold start_async_receive [Udp_v4, Udp_v6, Tcp_v4, Tcp_v6]
             \<lparr>the_state = new_server_state, work_guard = True,
              open_listeners = set (filter (can_bind around) [Udp_v4, Udp_v6, Tcp_v4, Tcp_v6]),
              udp_buffer = (\<lambda>_. []), udp_endpoint = (\<lambda>_. []), tcp_connections = [],
              operations = {#}, ready = {#}, io_threads = thread_count, reported = [],
              clock = now\<rparr>))"

subsection \<open>The handlers\<close>

definition new_tcp_connection :: "string \<Rightarrow> tcp_connection" where
  "new_tcp_connection address =
     \<lparr>in_streambuf = [], last_response_string = [], last_request_time_point = 0,
      timer_expiry = 0, reading = False, socket_open = True, remote_address = address\<rparr>"

definition handle_incoming_udp_traffic ::
    "listener \<Rightarrow> string option \<Rightarrow> nat \<Rightarrow> rtsp_server \<Rightarrow> unit result \<times> rtsp_server" where
  "handle_incoming_udp_traffic l error received_bytes s =
     (case error of
        Some msg \<Rightarrow> (Inl (Runtime_error msg), s)
      | None \<Rightarrow>
          (let data = take received_bytes (udp_buffer s l);
               received_from = udp_endpoint s l
           in (Inr (), start_async_receive l (post (Incoming_message l data received_from) s))))"

definition handle_new_tcp_connection ::
    "listener \<Rightarrow> string option \<Rightarrow> string \<Rightarrow> rtsp_server \<Rightarrow> unit result \<times> rtsp_server" where
  "handle_new_tcp_connection l error address s =
     (case error of
        Some msg \<Rightarrow> (Inl (Runtime_error msg), s)
      | None \<Rightarrow>
          (let n = length (tcp_connections s);
               new_connection = tcp_start (clock s) (new_tcp_connection address);
               s = async (Wait_timeout n) (async (Read_header n)
                     (s\<lparr>tcp_connections := tcp_connections s @ [new_connection]\<rparr>))
           in (Inr (), start_async_receive l s)))"

definition serve_message ::
    "rtsp_env \<Rightarrow> wire \<Rightarrow> choices \<Rightarrow> listener \<Rightarrow> string \<Rightarrow> string \<Rightarrow> rtsp_server \<Rightarrow>
       unit result \<times> rtsp_server" where
  "serve_message env w c l message received_from s =
     (let (res, st) = handle_new_incoming_message env w c message received_from (the_state s);
          s = s\<lparr>the_state := st\<rparr>
      in case res of
           Inl e \<Rightarrow> (Inl e, s)
         | Inr response_string \<Rightarrow> (Inr (), start_async_send_to l received_from response_string s))"

definition run_header_read ::
    "rtsp_env \<Rightarrow> wire \<Rightarrow> choices \<Rightarrow> nat \<Rightarrow> asio_error option \<Rightarrow> string \<Rightarrow> rtsp_server \<Rightarrow>
       unit result \<times> rtsp_server" where
  "run_header_read env w c n error input s =
     (let conn = tcp_connections s ! n;
          (res, conn, st) = header_read env w c error (clock s)
            (conn\<lparr>in_streambuf := in_streambuf conn @ input\<rparr>) (the_state s);
          s = s\<lparr>the_state := st, tcp_connections := (tcp_connections s)[n := conn]\<rparr>
      in case res of
           Inl e \<Rightarrow> (Inl e, s)
         | Inr None \<Rightarrow> (Inr (), s)
         | Inr (Some sent) \<Rightarrow> (Inr (), async (Read_header n) (async (Send_response n) s)))"

definition run_response_sent ::
    "nat \<Rightarrow> string option \<Rightarrow> nat \<Rightarrow> rtsp_server \<Rightarrow> unit result \<times> rtsp_server" where
  "run_response_sent n error bytes_transferred s =
     (let (res, conn) = response_sent error bytes_transferred (tcp_connections s ! n)
      in (res, s\<lparr>tcp_connections := (tcp_connections s)[n := conn]\<rparr>))"

definition run_timeout_check :: "nat \<Rightarrow> rtsp_server \<Rightarrow> unit result \<times> rtsp_server" where
  "run_timeout_check n s =
     (let (res, conn, st) = timeout_check None (clock s) (tcp_connections s ! n) (the_state s);
          s = s\<lparr>the_state := st, tcp_connections := (tcp_connections s)[n := conn]\<rparr>
      in case res of
           Inl e \<Rightarrow> (Inl e, s)
         | Inr rearm \<Rightarrow> (Inr (), if rearm then async (Wait_timeout n) s else s))"

fun run_handler ::
    "rtsp_env \<Rightarrow> wire \<Rightarrow> choices \<Rightarrow> handler \<Rightarrow> rtsp_server \<Rightarrow> unit result \<times> rtsp_server" where
  "run_handler env w c (Udp_traffic l error n) s = handle_incoming_udp_traffic l error n s"
| "run_handler env w c (Incoming_message l message from) s = serve_message env w c l message from s"
| "run_handler env w c (Datagram_sent error n message) s = (udp_sent error n message, s)"
| "run_handler env w c (New_connection l error address) s =
     handle_new_tcp_connection l error address s"
| "run_handler env w c (Header_read n error input) s = run_header_read env w c n error input s"
| "run_handler env w c (Response_sent n error bytes) s = run_response_sent n error bytes s"
| "run_handler env w c (Timeout_check n) s = run_timeout_check n s"
| "run_handler env w c (Close_socket l) s =
     (Inr (), s\<lparr>open_listeners := open_listeners s - {l}\<rparr>)"

text \<open>
  One turn of \<open>io_run_loop\<close>: an exception of a handler goes to the error handler, and the thread
  calls \<open>run()\<close> again.
\<close>

definition io_run_turn :: "rtsp_env \<Rightarrow> wire \<Rightarrow> choices \<Rightarrow> handler \<Rightarrow> rtsp_server \<Rightarrow> rtsp_server" where
  "io_run_turn env w c h s =
     (case run_handler env w c h (s\<lparr>ready := ready s - {#h#}\<rparr>) of
        (Inl e, s) \<Rightarrow> s\<lparr>reported := reported s @ [e]\<rparr>
      | (Inr _, s) \<Rightarrow> s)"

subsection \<open>Shutting down\<close>

text \<open>
  \<open>graceful_shutdown\<close> up to the point where it joins the threads. The acceptors are closed at once,
  the UDP sockets by handlers on their strands.
\<close>

definition graceful_shutdown :: "rtsp_server \<Rightarrow> rtsp_server" where
  "graceful_shutdown s =
     post (Close_socket Udp_v6) (post (Close_socket Udp_v4)
       (s\<lparr>work_guard := False, open_listeners := open_listeners s - {Tcp_v4, Tcp_v6}\<rparr>))"

text \<open>
  \<open>run()\<close> returns when the context is out of work: no guard, no operation, no ready handler, and no
  sender of a session with a closure or wait of its timer. The loop ends then, and with the
  last thread the shutdown.
\<close>

definition sender_idle :: "server_session \<Rightarrow> bool" where
  "sender_idle s = (case rtp_session s of
     None \<Rightarrow> True
   | Some rtp \<Rightarrow> strand_tasks (rtp_sys rtp) = [] \<and> timer_waits (rtp_sys rtp) = 0 \<and>
       completed_waits (rtp_sys rtp) = [])"

definition out_of_work :: "rtsp_server \<Rightarrow> bool" where
  "out_of_work s \<longleftrightarrow> \<not> work_guard s \<and> operations s = {#} \<and> ready s = {#} \<and>
     (\<forall>(host, k)\<in>set (sessions_by_host (the_state s)).
        case sessions (the_state s) k of None \<Rightarrow> True | Some sess \<Rightarrow> sender_idle sess)"

text \<open>
  The destructor stops the context and joins the threads; then it destroys the members, among
  them the sessions with their senders. The destructor of a sender stops it and waits in a loop
  for its flag, which only a handler clears; no thread is left to run one, so that the loop
  sees the same state again. \<open>None\<close> is a destructor that does not return.
\<close>

partial_function (option) wait_until_stopped :: "sender_sys \<Rightarrow> unit option" where
  "wait_until_stopped y = (if running (the_sender y) then wait_until_stopped y else Some ())"

definition sender_destructor :: "sender_sys \<Rightarrow> unit option" where
  "sender_destructor y = wait_until_stopped (sender_stop y)"

fun destroy_sessions :: "server_session option list \<Rightarrow> unit option" where
  "destroy_sessions [] = Some ()"
| "destroy_sessions (None # rest) = destroy_sessions rest"
| "destroy_sessions (Some sess # rest) =
     (case rtp_session sess of
        None \<Rightarrow> destroy_sessions rest
      | Some rtp \<Rightarrow>
          (case sender_destructor (rtp_sys rtp) of
             None \<Rightarrow> None | Some _ \<Rightarrow> destroy_sessions rest))"

definition rtsp_server_destructor :: "rtsp_server \<Rightarrow> unit option" where
  "rtsp_server_destructor s =
     destroy_sessions (map (sessions (the_state s)) (remdups (map snd (sessions_by_host (the_state s)))))"

subsection \<open>Events and runs\<close>

text \<open>
  What happens to the process. The first group is the world: time passes, a datagram or a
  connection arrives, an operation completes or fails, a sender of a session makes a step. Then a
  thread runs a ready handler, the owner shuts down, a thread returns.
\<close>

datatype process_event =
    Time_passes int
  | Datagram listener string string
  | Connection listener string
  | Receive_fails listener string
  | Header_arrives nat "asio_error option" string
  | Response_leaves nat "string option" nat
  | Datagram_leaves listener string string "string option" nat
  | Timer_expires nat
  | Sender_moves string sender_event
  | Thread_runs choices handler
  | Shut_down
  | Thread_returns

text \<open>The completion of an operation that is outstanding.\<close>

definition complete :: "operation \<Rightarrow> handler \<Rightarrow> rtsp_server \<Rightarrow> rtsp_server option" where
  "complete opn h s =
     (if opn \<in># operations s
      then Some (post h (s\<lparr>operations := operations s - {#opn#}\<rparr>)) else None)"

definition receive_failure :: "listener \<Rightarrow> string \<Rightarrow> handler" where
  "receive_failure l msg =
     (if is_udp l then Udp_traffic l (Some msg) 0 else New_connection l (Some msg) [])"

definition sender_moves ::
    "spirit \<Rightarrow> uint_parser \<Rightarrow> string \<Rightarrow> sender_event \<Rightarrow> rtsp_server \<Rightarrow> rtsp_server option" where
  "sender_moves sp up k event s =
     (case sessions (the_state s) k of
        None \<Rightarrow> None
      | Some sess \<Rightarrow>
     case rtp_session sess of
        None \<Rightarrow> None
      | Some rtp \<Rightarrow>
     if event = Start \<or> event = Stop then None
     else case sender_step sp up event (rtp_sys rtp) of
        None \<Rightarrow> None
      | Some (out, y) \<Rightarrow>
          Some (s\<lparr>the_state := update_sender k sess rtp y (the_state s),
                  reported := reported s @ (case out of Inl e \<Rightarrow> [e] | Inr _ \<Rightarrow> [])\<rparr>))"

fun process_step ::
    "rtsp_env \<Rightarrow> wire \<Rightarrow> spirit \<Rightarrow> uint_parser \<Rightarrow> process_event \<Rightarrow> rtsp_server \<Rightarrow>
       rtsp_server option" where
  "process_step env w sp up (Time_passes d) s =
     (if 0 \<le> d then Some (s\<lparr>clock := clock s + d\<rparr>) else None)"
| "process_step env w sp up (Datagram l message from) s =
     (let data = take 65535 message
      in if is_udp l \<and> l \<in> open_listeners s then
           complete (Receive l) (Udp_traffic l None (length data))
             (s\<lparr>udp_buffer := (udp_buffer s)(l := data), udp_endpoint := (udp_endpoint s)(l := from)\<rparr>)
         else None)"
| "process_step env w sp up (Connection l address) s =
     (if \<not> is_udp l \<and> l \<in> open_listeners s
      then complete (Receive l) (New_connection l None address) s else None)"
| "process_step env w sp up (Receive_fails l msg) s =
     complete (Receive l) (receive_failure l msg) s"
| "process_step env w sp up (Header_arrives n error input) s =
     complete (Read_header n) (Header_read n error input) s"
| "process_step env w sp up (Response_leaves n error bytes) s =
     complete (Send_response n) (Response_sent n error bytes) s"
| "process_step env w sp up (Datagram_leaves l to message error bytes) s =
     complete (Send_datagram l to message) (Datagram_sent error bytes message) s"
| "process_step env w sp up (Timer_expires n) s =
     (if timer_expiry (tcp_connections s ! n) \<le> clock s
      then complete (Wait_timeout n) (Timeout_check n) s else None)"
| "process_step env w sp up (Sender_moves k event) s = sender_moves sp up k event s"
| "process_step env w sp up (Thread_runs c h) s =
     (if h \<in># ready s \<and> io_threads s > 0 then Some (io_run_turn env w c h s) else None)"
| "process_step env w sp up Shut_down s =
     (if work_guard s then Some (graceful_shutdown s) else None)"
| "process_step env w sp up Thread_returns s =
     (if out_of_work s \<and> io_threads s > 0
      then Some (s\<lparr>io_threads := io_threads s - 1\<rparr>) else None)"

text \<open>The runs of a server that was constructed, with the events so far.\<close>

inductive process_run ::
    "rtsp_env \<Rightarrow> wire \<Rightarrow> spirit \<Rightarrow> uint_parser \<Rightarrow> process_event list \<Rightarrow> rtsp_server \<Rightarrow> bool"
  for env w sp up where
  constructed: "rtsp_server_new around now = Constructed s \<Longrightarrow> process_run env w sp up [] s"
| step: "process_run env w sp up events s \<Longrightarrow> process_step env w sp up event s = Some s' \<Longrightarrow>
    process_run env w sp up (events @ [event]) s'"

text \<open>Going on from a state.\<close>

fun process_steps ::
    "rtsp_env \<Rightarrow> wire \<Rightarrow> spirit \<Rightarrow> uint_parser \<Rightarrow> process_event list \<Rightarrow> rtsp_server \<Rightarrow>
       rtsp_server option" where
  "process_steps env w sp up [] s = Some s"
| "process_steps env w sp up (event # later) s =
     (case process_step env w sp up event s of
        None \<Rightarrow> None | Some s \<Rightarrow> process_steps env w sp up later s)"

definition fresh_server :: "rtsp_server \<Rightarrow> bool" where
  "fresh_server s \<longleftrightarrow> (\<exists>around now. rtsp_server_new around now = Constructed s)"

interpretation server:
  event_process "process_step env w sp up" "process_steps env w sp up" fresh_server
    "process_run env w sp up"
  for env w sp up
proof
  fix es s and P :: "process_event list \<Rightarrow> rtsp_server \<Rightarrow> bool"
  assume "process_run env w sp up es s" and "\<And>s. fresh_server s \<Longrightarrow> P [] s"
    and "\<And>es s e t. process_run env w sp up es s \<Longrightarrow> P es s \<Longrightarrow> process_step env w sp up e s = Some t \<Longrightarrow>
      P (es @ [e]) t"
  then show "P es s"
    by (induction rule: process_run.induct) (auto simp: fresh_server_def)
qed (auto simp: fresh_server_def intro: process_run.intros split: option.split)

subsection \<open>What is under way\<close>

text \<open>
  The number of operations with a property that are outstanding, together with the handlers that
  wait for a thread after such an operation.
\<close>

definition in_flight :: "(operation \<Rightarrow> bool) \<Rightarrow> (handler \<Rightarrow> bool) \<Rightarrow> rtsp_server \<Rightarrow> nat" where
  "in_flight p q s = size (filter_mset p (operations s)) + size (filter_mset q (ready s))"

lemma in_flight_simps [simp]:
  "in_flight p q (async opn s) = (if p opn then 1 else 0) + in_flight p q s"
  "in_flight p q (post h s) = (if q h then 1 else 0) + in_flight p q s"
  "in_flight p q (s\<lparr>the_state := a\<rparr>) = in_flight p q s"
  "in_flight p q (s\<lparr>work_guard := b\<rparr>) = in_flight p q s"
  "in_flight p q (s\<lparr>open_listeners := ls\<rparr>) = in_flight p q s"
  "in_flight p q (s\<lparr>udp_buffer := u\<rparr>) = in_flight p q s"
  "in_flight p q (s\<lparr>udp_endpoint := u\<rparr>) = in_flight p q s"
  "in_flight p q (s\<lparr>tcp_connections := cs\<rparr>) = in_flight p q s"
  "in_flight p q (s\<lparr>io_threads := n\<rparr>) = in_flight p q s"
  "in_flight p q (s\<lparr>reported := es\<rparr>) = in_flight p q s"
  "in_flight p q (s\<lparr>clock := t\<rparr>) = in_flight p q s"
  by (simp_all add: in_flight_def async_def post_def)

lemma started_fields [simp]:
  "tcp_connections (async opn s) = tcp_connections s" "tcp_connections (post h s) = tcp_connections s"
  "the_state (async opn s) = the_state s" "the_state (post h s) = the_state s"
  "clock (async opn s) = clock s" "clock (post h s) = clock s"
  "ready (async opn s) = ready s" "ready (post h s) = add_mset h (ready s)"
  "operations (async opn s) = add_mset opn (operations s)" "operations (post h s) = operations s"
  "udp_buffer (async opn s) = udp_buffer s" "udp_buffer (post h s) = udp_buffer s"
  "udp_endpoint (async opn s) = udp_endpoint s" "udp_endpoint (post h s) = udp_endpoint s"
  by (simp_all add: async_def post_def)

lemma in_flight_complete:
  assumes "complete opn h s = Some s'" and "p opn = q h"
  shows "in_flight p q s' = in_flight p q s"
proof -
  obtain ops where "operations s = add_mset opn ops"
    using assms(1) by (auto simp: complete_def dest: multi_member_split split: if_splits)
  then show ?thesis using assms by (auto simp: complete_def in_flight_def post_def)
qed

lemma in_flight_take:
  assumes "h \<in># ready s"
  shows "in_flight p q s = (if q h then 1 else 0) + in_flight p q (s\<lparr>ready := ready s - {#h#}\<rparr>)"
proof -
  obtain hs where "ready s = add_mset h hs" using assms by (auto dest: multi_member_split)
  then show ?thesis by (simp add: in_flight_def)
qed

lemma in_flight_0:
  "in_flight p q s = 0 \<longleftrightarrow> (\<forall>opn. opn \<in># operations s \<longrightarrow> \<not> p opn) \<and> (\<forall>h. h \<in># ready s \<longrightarrow> \<not> q h)"
  by (auto simp: in_flight_def filter_mset_eq_conv filter_mset_eq_mempty_iff)

text \<open>A receive of a listener, a read of a connection, and the wait of its timer.\<close>

fun receives :: "listener \<Rightarrow> handler \<Rightarrow> bool" where
  "receives l (Udp_traffic l' error n) = (l' = l)"
| "receives l (New_connection l' error address) = (l' = l)"
| "receives l _ = False"

fun reads :: "nat \<Rightarrow> handler \<Rightarrow> bool" where
  "reads n (Header_read m error input) = (m = n)"
| "reads n _ = False"

abbreviation receiving :: "listener \<Rightarrow> rtsp_server \<Rightarrow> nat" where
  "receiving l \<equiv> in_flight (\<lambda>opn. opn = Receive l) (receives l)"

abbreviation headers_under_way :: "nat \<Rightarrow> rtsp_server \<Rightarrow> nat" where
  "headers_under_way n \<equiv> in_flight (\<lambda>opn. opn = Read_header n) (reads n)"

abbreviation timers_under_way :: "nat \<Rightarrow> rtsp_server \<Rightarrow> nat" where
  "timers_under_way n \<equiv> in_flight (\<lambda>opn. opn = Wait_timeout n) (\<lambda>h. h = Timeout_check n)"

lemmas handler_defs = handle_incoming_udp_traffic_def handle_new_tcp_connection_def
  serve_message_def run_header_read_def run_response_sent_def run_timeout_check_def
  start_async_receive_def start_async_send_to_def Let_def

lemma thread_step:
  assumes "process_step env w sp up (Thread_runs c h) s = Some s'"
  obtains res t es where "h \<in># ready s"
    "run_handler env w c h (s\<lparr>ready := ready s - {#h#}\<rparr>) = (res, t)" "s' = t\<lparr>reported := es\<rparr>"
proof -
  obtain res t where run: "run_handler env w c h (s\<lparr>ready := ready s - {#h#}\<rparr>) = (res, t)" by force
  have "\<exists>es. io_run_turn env w c h s = t\<lparr>reported := es\<rparr>"
  proof (cases res)
    case (Inr u)
    then show ?thesis using run by (intro exI [of _ "reported t"]) (simp add: io_run_turn_def)
  qed (use run in \<open>auto simp: io_run_turn_def\<close>)
  then obtain es where "io_run_turn env w c h s = t\<lparr>reported := es\<rparr>" by auto
  with assms have "h \<in># ready s" "s' = t\<lparr>reported := es\<rparr>" by (simp_all split: if_splits)
  with run show ?thesis using that by blast
qed

subsection \<open>The listeners\<close>

text \<open>The thread runs the handler of a receive that has failed.\<close>

fun gives_up :: "listener \<Rightarrow> process_event \<Rightarrow> bool" where
  "gives_up l (Thread_runs c (Udp_traffic l' (Some msg) n)) = (l' = l)"
| "gives_up l (Thread_runs c (New_connection l' (Some msg) address)) = (l' = l)"
| "gives_up l _ = False"

lemma handler_receiving:
  "run_handler env w c h s = (res, s') \<Longrightarrow>
   receiving l s' = (if receives l h \<and> \<not> gives_up l (Thread_runs c h) then 1 else 0) + receiving l s"
  by (cases h) (auto simp: handler_defs split: option.splits prod.splits sum.splits if_splits)

lemma step_receiving:
  assumes "process_step env w sp up event s = Some s'"
  shows "receiving l s = (if gives_up l event then 1 else 0) + receiving l s'"
proof (cases event)
  case (Thread_runs c h)
  with assms obtain res t es where h: "h \<in># ready s"
      "run_handler env w c h (s\<lparr>ready := ready s - {#h#}\<rparr>) = (res, t)" "s' = t\<lparr>reported := es\<rparr>"
    by (auto elim: thread_step simp del: process_step.simps)
  moreover have "gives_up l event \<longrightarrow> receives l h"
    using Thread_runs by (cases "(l, event)" rule: gives_up.cases) auto
  ultimately show ?thesis
    using handler_receiving [OF h(2), of l] in_flight_take [OF h(1), of _ "receives l"] Thread_runs by auto
next
  case (Sender_moves k e)
  then show ?thesis using assms by (auto simp: sender_moves_def split: option.splits if_splits)
next
  case (Datagram l' message sender)
  then show ?thesis
    using assms in_flight_complete [of "Receive l'" _ _ s' "\<lambda>opn. opn = Receive l" "receives l"]
    by (auto simp: Let_def split: if_splits)
next
  case (Receive_fails l' msg)
  then show ?thesis
    using assms in_flight_complete [of "Receive l'" _ s s' "\<lambda>opn. opn = Receive l" "receives l"]
    by (auto simp: receive_failure_def split: if_splits)
next
  case (Connection l' address)
  then show ?thesis
    using assms in_flight_complete [of "Receive l'" _ s s' "\<lambda>opn. opn = Receive l" "receives l"]
    by (auto split: if_splits)
qed (use assms in \<open>auto simp: graceful_shutdown_def intro: in_flight_complete [symmetric]
  split: if_splits\<close>)

lemma constructed_server:
  assumes "rtsp_server_new around now = Constructed s"
  shows "operations s = {#Receive Udp_v4, Receive Udp_v6, Receive Tcp_v4, Receive Tcp_v6#}"
    and "ready s = {#}" and "tcp_connections s = []" and "the_state s = new_server_state"
  using assms
  by (auto simp: rtsp_server_new_def leave_constructor_def Let_def start_async_receive_def
      split: if_splits)

lemma constructed_receiving:
  "rtsp_server_new around now = Constructed s \<Longrightarrow> receiving l s = 1"
  by (cases l) (simp_all add: constructed_server in_flight_def)

lemma run_receiving:
  "process_run env w sp up events s \<Longrightarrow>
   receiving l s = (if \<exists>e\<in>set events. gives_up l e then 0 else 1)"
proof (induction rule: server.run_induct)
  case (fresh s)
  then show ?case by (auto simp: fresh_server_def constructed_receiving)
next
  case (event es s e t)
  then show ?case using step_receiving [OF event.hyps(2), of l] by (auto split: if_splits)
qed

subsection \<open>The server state\<close>

text \<open>Every step of the process is one of the server state, or leaves it alone.\<close>

lemma header_read_state:
  assumes "server_reach env sp up st" and "header_read env w c error now conn st = (res, conn', st')"
  shows "server_reach env sp up st'"
  using assms server_reach.request [OF assms(1)]
  by (auto simp: header_read_def Let_def split: option.splits asio_error.splits prod.splits
      sum.splits if_splits)

lemma handler_state:
  assumes "server_reach env sp up (the_state s)" and "run_handler env w c h s = (res, s')"
  shows "server_reach env sp up (the_state s')"
proof (cases h)
  case (Incoming_message l message sender)
  then show ?thesis
    using assms server_reach.request [OF assms(1)]
    by (auto simp: serve_message_def handle_new_incoming_message_def start_async_send_to_def Let_def
        split: prod.splits sum.splits option.splits)
next
  case (Header_read n error input)
  then show ?thesis
    using assms header_read_state [OF assms(1)]
    by (auto simp: run_header_read_def Let_def split: prod.splits sum.splits option.splits)
next
  case (Timeout_check n)
  then show ?thesis
    using assms server_reach.timeout [OF assms(1)]
    by (auto simp: run_timeout_check_def timeout_check_def Let_def split: prod.splits sum.splits if_splits)
qed (use assms in \<open>auto simp: handler_defs split: option.splits prod.splits\<close>)

lemma complete_fields:
  assumes "complete opn h s = Some s'"
  shows "the_state s' = the_state s" "tcp_connections s' = tcp_connections s" "clock s' = clock s"
    "opn \<in># operations s" "ready s' = add_mset h (ready s)"
    "operations s' = operations s - {#opn#}"
  using assms by (auto simp: complete_def split: if_splits)

lemma step_state:
  assumes "process_step env w sp up event s = Some s'" and "server_reach env sp up (the_state s)"
  shows "server_reach env sp up (the_state s')"
proof (cases event)
  case (Thread_runs c h)
  with assms(1) obtain res t es where h:
      "run_handler env w c h (s\<lparr>ready := ready s - {#h#}\<rparr>) = (res, t)" "s' = t\<lparr>reported := es\<rparr>"
    by (auto elim: thread_step simp del: process_step.simps)
  have "server_reach env sp up (the_state t)"
    by (rule handler_state [OF _ h(1)]) (simp add: assms(2))
  then show ?thesis using h(2) by simp
next
  case (Sender_moves k e)
  then show ?thesis
    using assms(1) server_reach.sender [OF assms(2)]
    by (auto simp: sender_moves_def split: option.splits if_splits prod.splits)
qed (use assms in \<open>auto simp: graceful_shutdown_def Let_def complete_fields split: if_splits\<close>)

interpretation states: process_component "process_step env w sp up" "process_steps env w sp up" fresh_server
    "process_run env w sp up" the_state "server_reach env sp up"
  for env w sp up
  by unfold_locales (auto simp: fresh_server_def constructed_server server_reach.start intro: step_state)

subsection \<open>The destructor\<close>

lemma wait_until_stopped_iff: "wait_until_stopped y = Some u \<longleftrightarrow> \<not> running (the_sender y)"
proof
  show "\<not> running (the_sender y)" if "wait_until_stopped y = Some u"
    by (rule wait_until_stopped.raw_induct [where P = "\<lambda>y u. \<not> running (the_sender y)", OF _ that])
      (auto split: if_splits)
  show "wait_until_stopped y = Some u" if "\<not> running (the_sender y)"
    using that by (simp add: wait_until_stopped.simps [of y])
qed

lemma sender_destructor_iff: "sender_destructor y = Some u \<longleftrightarrow> \<not> running (the_sender y)"
  by (simp add: sender_destructor_def wait_until_stopped_iff sender_stop_def)

lemma destroy_sessions_iff:
  "destroy_sessions ss = Some u \<longleftrightarrow>
     (\<forall>sess rtp. Some sess \<in> set ss \<longrightarrow> rtp_session sess = Some rtp \<longrightarrow> \<not> running (the_sender (rtp_sys rtp)))"
proof (induction ss rule: destroy_sessions.induct)
  case (3 sess rest)
  show ?case
  proof (cases "rtp_session sess")
    case None
    then show ?thesis using 3 by auto
  next
    case (Some rtp)
    then show ?thesis
      using 3(2) [OF Some] sender_destructor_iff [of "rtp_sys rtp" "()"]
      by (cases "sender_destructor (rtp_sys rtp)") auto
  qed
qed auto

subsection \<open>The datagrams\<close>

text \<open>
  The datagrams that arrived and the messages that were handled in a run, and the message a
  ready handler stands for: that of a receive still lies in the buffer of the socket.
\<close>

definition arrived_datagrams :: "process_event list \<Rightarrow> (listener \<times> string \<times> string) list" where
  "arrived_datagrams events =
     concat (map (\<lambda>e. case e of Datagram l m a \<Rightarrow> [(l, take 65535 m, a)] | _ \<Rightarrow> []) events)"

definition handled_messages :: "process_event list \<Rightarrow> (listener \<times> string \<times> string) list" where
  "handled_messages events =
     concat (map (\<lambda>e. case e of Thread_runs c (Incoming_message l m a) \<Rightarrow> [(l, m, a)] | _ \<Rightarrow> []) events)"

fun message_of :: "rtsp_server \<Rightarrow> handler \<Rightarrow> (listener \<times> string \<times> string) list" where
  "message_of s (Udp_traffic l None n) = [(l, take n (udp_buffer s l), udp_endpoint s l)]"
| "message_of s (Incoming_message l m a) = [(l, m, a)]"
| "message_of s _ = []"

definition waiting_messages :: "rtsp_server \<Rightarrow> (listener \<times> string \<times> string) multiset" where
  "waiting_messages s = sum_mset (image_mset (mset \<circ> message_of s) (ready s))"

lemma message_of_simps [simp]:
  "message_of (s\<lparr>ready := hs\<rparr>) h = message_of s h"
  "message_of (s\<lparr>the_state := a\<rparr>) h = message_of s h"
  "message_of (s\<lparr>work_guard := b\<rparr>) h = message_of s h"
  "message_of (s\<lparr>open_listeners := ls\<rparr>) h = message_of s h"
  "message_of (s\<lparr>tcp_connections := cs\<rparr>) h = message_of s h"
  "message_of (s\<lparr>operations := ops\<rparr>) h = message_of s h"
  "message_of (s\<lparr>io_threads := n\<rparr>) h = message_of s h"
  "message_of (s\<lparr>reported := es\<rparr>) h = message_of s h"
  "message_of (s\<lparr>clock := t\<rparr>) h = message_of s h"
  by (cases "(s, h)" rule: message_of.cases; simp)+

lemma waiting_simps [simp]:
  "waiting_messages (async opn s) = waiting_messages s"
  "waiting_messages (post h s) = mset (message_of s h) + waiting_messages s"
  "waiting_messages (s\<lparr>the_state := a\<rparr>) = waiting_messages s"
  "waiting_messages (s\<lparr>work_guard := b\<rparr>) = waiting_messages s"
  "waiting_messages (s\<lparr>open_listeners := ls\<rparr>) = waiting_messages s"
  "waiting_messages (s\<lparr>tcp_connections := cs\<rparr>) = waiting_messages s"
  "waiting_messages (s\<lparr>operations := ops\<rparr>) = waiting_messages s"
  "waiting_messages (s\<lparr>io_threads := n\<rparr>) = waiting_messages s"
  "waiting_messages (s\<lparr>reported := es\<rparr>) = waiting_messages s"
  "waiting_messages (s\<lparr>clock := t\<rparr>) = waiting_messages s"
  by (simp_all add: waiting_messages_def async_def post_def comp_def)

lemma waiting_take:
  assumes "h \<in># ready s"
  shows "waiting_messages s =
    mset (message_of s h) + waiting_messages (s\<lparr>ready := ready s - {#h#}\<rparr>)"
proof -
  obtain hs where "ready s = add_mset h hs" using assms by (auto dest: multi_member_split)
  then show ?thesis by (simp add: waiting_messages_def comp_def)
qed

lemma waiting_complete:
  "complete opn h s = Some s' \<Longrightarrow> waiting_messages s' = mset (message_of s h) + waiting_messages s"
  by (auto simp: complete_def split: if_splits)

text \<open>The buffer of a socket is not written while a handler is to read it.\<close>

lemma waiting_buffer:
  assumes "\<forall>h. h \<in># ready s \<longrightarrow> \<not> receives l h"
  shows "waiting_messages (s\<lparr>udp_buffer := (udp_buffer s)(l := m), udp_endpoint := (udp_endpoint s)(l := a)\<rparr>) =
    waiting_messages s"
proof -
  have "message_of (s\<lparr>udp_buffer := (udp_buffer s)(l := m), udp_endpoint := (udp_endpoint s)(l := a)\<rparr>) h =
      message_of s h" if "h \<in># ready s" for h
    using assms that by (cases "(s, h)" rule: message_of.cases) auto
  then show ?thesis by (auto simp: waiting_messages_def intro!: arg_cong [where f = sum_mset] image_mset_cong)
qed

lemma handler_waiting:
  "run_handler env w c h s = (res, s') \<Longrightarrow>
   waiting_messages s' + mset (handled_messages [Thread_runs c h]) =
     mset (message_of s h) + waiting_messages s"
  by (cases h) (auto simp: handler_defs handled_messages_def split: option.splits prod.splits sum.splits)

lemma step_messages:
  assumes run: "process_run env w sp up events s"
    and stp: "process_step env w sp up event s = Some s'"
  shows "waiting_messages s' + mset (handled_messages [event]) =
    mset (arrived_datagrams [event]) + waiting_messages s"
proof (cases event)
  case (Thread_runs c h)
  with stp obtain res t es where h: "h \<in># ready s"
      "run_handler env w c h (s\<lparr>ready := ready s - {#h#}\<rparr>) = (res, t)" "s' = t\<lparr>reported := es\<rparr>"
    by (auto elim: thread_step simp del: process_step.simps)
  show ?thesis
    using handler_waiting [OF h(2)] waiting_take [OF h(1)] h(3) Thread_runs
    by (simp add: arrived_datagrams_def)
next
  case (Datagram l m a)
  let ?s = "s\<lparr>udp_buffer := (udp_buffer s)(l := take 65535 m), udp_endpoint := (udp_endpoint s)(l := a)\<rparr>"
  have c: "complete (Receive l) (Udp_traffic l None (length (take 65535 m))) ?s = Some s'"
    using stp Datagram by (simp add: Let_def split: if_splits)
  have "receiving l s \<le> 1" using run_receiving [OF run, of l] by simp
  moreover have "Receive l \<in># operations s" using complete_fields(4) [OF c] by simp
  ultimately have "\<forall>h. h \<in># ready s \<longrightarrow> \<not> receives l h"
    by (auto simp: in_flight_def dest!: multi_member_split)
  from waiting_buffer [OF this] waiting_complete [OF c] Datagram show ?thesis
    by (simp add: arrived_datagrams_def handled_messages_def flip: take_take)
next
  case (Receive_fails l msg)
  then show ?thesis
    using stp waiting_complete
    by (fastforce simp: receive_failure_def arrived_datagrams_def handled_messages_def)
next
  case (Sender_moves k e)
  then show ?thesis
    using stp by (auto simp: sender_moves_def arrived_datagrams_def handled_messages_def
        split: option.splits if_splits)
qed (use stp in \<open>auto simp: graceful_shutdown_def arrived_datagrams_def handled_messages_def
  dest: waiting_complete split: if_splits\<close>)

lemma trace_append [simp]:
  "arrived_datagrams (xs @ ys) = arrived_datagrams xs @ arrived_datagrams ys"
  "handled_messages (xs @ ys) = handled_messages xs @ handled_messages ys"
  by (simp_all add: arrived_datagrams_def handled_messages_def)

lemma run_messages:
  "process_run env w sp up events s \<Longrightarrow>
   mset (arrived_datagrams events) = mset (handled_messages events) + waiting_messages s"
proof (induction rule: server.run_induct)
  case (fresh s)
  then show ?case
    by (auto simp: fresh_server_def constructed_server arrived_datagrams_def handled_messages_def
        waiting_messages_def)
next
  case (event es s e t)
  then show ?case using step_messages [OF event.hyps(1,2)] by (simp add: ac_simps)
qed

subsection \<open>The connections\<close>

text \<open>The connection an operation or a handler belongs to.\<close>

fun operation_owner :: "operation \<Rightarrow> nat option" where
  "operation_owner (Read_header n) = Some n"
| "operation_owner (Send_response n) = Some n"
| "operation_owner (Wait_timeout n) = Some n"
| "operation_owner _ = None"

fun handler_owner :: "handler \<Rightarrow> nat option" where
  "handler_owner (Header_read n error input) = Some n"
| "handler_owner (Response_sent n error bytes) = Some n"
| "handler_owner (Timeout_check n) = Some n"
| "handler_owner _ = None"

definition owners_ok :: "rtsp_server \<Rightarrow> bool" where
  "owners_ok s \<longleftrightarrow>
     (\<forall>opn n. opn \<in># operations s \<longrightarrow> operation_owner opn = Some n \<longrightarrow> n < length (tcp_connections s)) \<and>
     (\<forall>h n. h \<in># ready s \<longrightarrow> handler_owner h = Some n \<longrightarrow> n < length (tcp_connections s))"

text \<open>
  A connection in a run: its reads and timer waits match its flags, and while its socket is open it
  is one of the histories of \<open>tcp_timeline\<close>.
\<close>

definition connection_ok :: "rtsp_env \<Rightarrow> wire \<Rightarrow> rtsp_server \<Rightarrow> nat \<Rightarrow> bool" where
  "connection_ok env w s n \<longleftrightarrow>
     (let conn = tcp_connections s ! n
      in headers_under_way n s = (if reading conn then 1 else 0) \<and>
         timers_under_way n s = (if socket_open conn then 1 else 0) \<and>
         last_request_time_point conn \<le> clock s \<and>
         (Timeout_check n \<in># ready s \<longrightarrow> timer_expiry conn \<le> clock s) \<and>
         (socket_open conn \<longrightarrow> tcp_timeline env w conn))"

definition connections_ok :: "rtsp_env \<Rightarrow> wire \<Rightarrow> rtsp_server \<Rightarrow> bool" where
  "connections_ok env w s \<longleftrightarrow> owners_ok s \<and>
     (\<forall>n<length (tcp_connections s). connection_ok env w s n)"

lemma connection_ok_frame:
  assumes "connection_ok env w s n"
    and "headers_under_way n t = headers_under_way n s" and "timers_under_way n t = timers_under_way n s"
    and "tcp_connections t ! n = tcp_connections s ! n" and "clock s \<le> clock t"
    and "Timeout_check n \<in># ready t \<Longrightarrow> Timeout_check n \<in># ready s"
  shows "connection_ok env w t n"
  using assms by (auto simp: connection_ok_def Let_def)

lemma connections_ok_frame:
  assumes "connections_ok env w s" and "tcp_connections t = tcp_connections s" and "clock s \<le> clock t"
    and "operations t = operations s" and "ready t = ready s"
  shows "connections_ok env w t"
  using assms
  by (auto simp: connections_ok_def owners_ok_def in_flight_def intro!: connection_ok_frame [of env w s _ t])

lemma owners_take:
  "owners_ok s \<Longrightarrow> owners_ok (s\<lparr>ready := ready s - {#h#}\<rparr>)"
  by (auto simp: owners_ok_def dest: in_diffD)

lemma complete_keeps_connections:
  assumes ok: "connections_ok env w s" and c: "complete opn h s = Some s'"
    and "operation_owner opn = handler_owner h"
    and "\<And>n. (opn = Read_header n) = reads n h" and "\<And>n. (opn = Wait_timeout n) = (h = Timeout_check n)"
    and "\<And>n. h = Timeout_check n \<Longrightarrow> timer_expiry (tcp_connections s ! n) \<le> clock s"
  shows "connections_ok env w s'"
proof -
  have "connection_ok env w s' n" if "n < length (tcp_connections s)" for n
    using that ok complete_fields [OF c] assms(6) in_flight_complete [OF c, of "\<lambda>opn. opn = Read_header n" "reads n"]
      in_flight_complete [OF c, of "\<lambda>opn. opn = Wait_timeout n" "\<lambda>h. h = Timeout_check n"] assms(4,5)
    by (auto simp: connections_ok_def connection_ok_def Let_def)
  moreover have "owners_ok s'"
    using ok complete_fields [OF c] assms(3)
    by (auto simp: connections_ok_def owners_ok_def dest: in_diffD)
  ultimately show ?thesis using complete_fields(2) [OF c] by (simp add: connections_ok_def)
qed

lemma header_read_flags:
  assumes "header_read env w c error now conn st = (res, conn', st')"
  shows "reading conn' = (\<exists>sent. res = Inr (Some sent))" and "socket_open conn' = socket_open conn"
  using assms
  by (auto simp: header_read_def Let_def split: option.splits asio_error.splits prod.splits sum.splits)

lemma response_sent_flags:
  assumes "response_sent error n conn = (res, conn')"
  shows "reading conn' = reading conn" and "socket_open conn' = socket_open conn"
  using assms by (auto simp: response_sent_def split: option.splits if_splits)

text \<open>A handler of one connection leaves the others alone.\<close>

lemma owned_handler_ok:
  assumes ok: "connections_ok env w s" and h: "h \<in># ready s" "handler_owner h = Some n"
    and t: "tcp_connections t = (tcp_connections s)[n := conn]" "clock t = clock s"
      "ready t = ready s - {#h#}" "operations t = operations s + ops"
      "\<forall>opn. opn \<in># ops \<longrightarrow> operation_owner opn = Some n"
    and own: "n < length (tcp_connections s) \<Longrightarrow> connection_ok env w t n"
  shows "connections_ok env w t"
proof -
  have n: "n < length (tcp_connections s)"
    using ok h by (auto simp: connections_ok_def owners_ok_def)
  have "connection_ok env w t m" if "m < length (tcp_connections s)" for m
  proof (cases "m = n")
    case True
    then show ?thesis using own n by simp
  next
    case False
    from h(2) False have "\<not> reads m h" "h \<noteq> Timeout_check m"
      by (cases h; simp)+
    moreover have "filter_mset (\<lambda>opn. opn = Read_header m) ops = {#}"
        "filter_mset (\<lambda>opn. opn = Wait_timeout m) ops = {#}"
      using t(5) False by (auto simp: filter_mset_eq_mempty_iff)
    ultimately show ?thesis
      using that ok t False in_flight_take [OF h(1), of "\<lambda>opn. opn = Read_header m" "reads m"]
        in_flight_take [OF h(1), of "\<lambda>opn. opn = Wait_timeout m" "\<lambda>h. h = Timeout_check m"]
      by (intro connection_ok_frame [of env w s m t])
        (auto simp: connections_ok_def in_flight_def dest: in_diffD)
  qed
  moreover have "owners_ok t"
    using ok t n by (auto simp: connections_ok_def owners_ok_def dest: in_diffD)
  ultimately show ?thesis using t(1) by (simp add: connections_ok_def)
qed

text \<open>The counts of a connection after its own handler has been taken.\<close>

lemma own_counts:
  assumes "connections_ok env w s" and "h \<in># ready s" and "handler_owner h = Some n"
  shows "n < length (tcp_connections s)" "connection_ok env w s n"
    "headers_under_way n s = (if reads n h then 1 else 0) + headers_under_way n (s\<lparr>ready := ready s - {#h#}\<rparr>)"
    "timers_under_way n s = (if h = Timeout_check n then 1 else 0) +
       timers_under_way n (s\<lparr>ready := ready s - {#h#}\<rparr>)"
    "Timeout_check n \<in># ready s - {#h#} \<Longrightarrow> Timeout_check n \<in># ready s"
  using assms in_flight_take [OF assms(2)]
  by (auto simp: connections_ok_def owners_ok_def dest: in_diffD)

lemma header_handler_ok:
  assumes ok: "connections_ok env w s" and h: "Header_read n error input \<in># ready s"
    and run: "run_header_read env w c n error input
      (s\<lparr>ready := ready s - {#Header_read n error input#}\<rparr>) = (res, t)"
  shows "connections_ok env w t"
proof -
  let ?h = "Header_read n error input"
  let ?s = "s\<lparr>ready := ready s - {#?h#}\<rparr>" and ?conn = "tcp_connections s ! n"
  let ?in = "?conn\<lparr>in_streambuf := in_streambuf ?conn @ input\<rparr>"
  obtain r conn st where read: "header_read env w c error (clock s) ?in (the_state s) = (r, conn, st)"
    by (cases "header_read env w c error (clock s) ?in (the_state s)") auto
  define go where "go \<longleftrightarrow> (\<exists>sent. r = Inr (Some sent))"
  have t: "t = (if go then async (Read_header n) (async (Send_response n)
      (?s\<lparr>the_state := st, tcp_connections := (tcp_connections s)[n := conn]\<rparr>))
    else ?s\<lparr>the_state := st, tcp_connections := (tcp_connections s)[n := conn]\<rparr>)"
    using run read by (auto simp: run_header_read_def go_def Let_def split: sum.splits option.splits)
  note counts = own_counts [OF ok h, of n]
  note flags = header_read_flags [OF read] header_read_timer [OF read]
  show ?thesis
  proof (rule owned_handler_ok [OF ok h])
    show "handler_owner ?h = Some n" by simp
    show "tcp_connections t = (tcp_connections s)[n := conn]" "clock t = clock s"
        "ready t = ready s - {#?h#}"
        "operations t = operations s + (if go then {#Read_header n, Send_response n#} else {#})"
        "\<forall>opn. opn \<in># (if go then {#Read_header n, Send_response n#} else {#}) \<longrightarrow>
          operation_owner opn = Some n"
      using t by auto
    have "headers_under_way n t = (if go then 1 else 0)" "timers_under_way n t = timers_under_way n s"
      using counts t by (auto simp: connection_ok_def Let_def split: if_splits)
    moreover have "tcp_timeline env w conn" if "socket_open conn"
      using counts(1,2) flags that
      by (intro tcp_timeline.read [OF _ _ read]) (auto simp: connection_ok_def Let_def)
    ultimately show "connection_ok env w t n" if "n < length (tcp_connections s)"
      using that counts(2,5) flags t by (auto simp: connection_ok_def Let_def go_def)
  qed
qed

lemma sent_handler_ok:
  assumes ok: "connections_ok env w s" and h: "Response_sent n error bytes \<in># ready s"
    and run: "run_response_sent n error bytes
      (s\<lparr>ready := ready s - {#Response_sent n error bytes#}\<rparr>) = (res, t)"
  shows "connections_ok env w t"
proof -
  let ?h = "Response_sent n error bytes"
  obtain r conn where sent: "response_sent error bytes (tcp_connections s ! n) = (r, conn)" by force
  have t: "t = s\<lparr>ready := ready s - {#?h#}, tcp_connections := (tcp_connections s)[n := conn]\<rparr>"
    using run sent by (auto simp: run_response_sent_def Let_def)
  note counts = own_counts [OF ok h, of n]
  note flags = response_sent_flags [OF sent] response_sent_timer [OF sent]
  show ?thesis
  proof (rule owned_handler_ok [OF ok h, where ops = "{#}"])
    have "tcp_timeline env w conn" if "socket_open conn"
      using counts(1,2) flags that
      by (intro tcp_timeline.sent [OF _ sent]) (auto simp: connection_ok_def Let_def)
    then show "connection_ok env w t n" if "n < length (tcp_connections s)"
      using that counts flags t by (auto simp: connection_ok_def Let_def)
  qed (use t in auto)
qed

lemma timeout_handler_ok:
  assumes ok: "connections_ok env w s" and h: "Timeout_check n \<in># ready s"
    and run: "run_timeout_check n (s\<lparr>ready := ready s - {#Timeout_check n#}\<rparr>) = (res, t)"
  shows "connections_ok env w t"
proof -
  let ?h = "Timeout_check n" and ?conn = "tcp_connections s ! n"
  let ?s = "s\<lparr>ready := ready s - {#?h#}\<rparr>"
  note counts = own_counts [OF ok h, of n]
  have "filter_mset (\<lambda>h. h = Timeout_check n) (ready s) \<noteq> {#}"
    using h by (auto simp: filter_mset_eq_mempty_iff)
  then have op: "socket_open ?conn" "timer_expiry ?conn \<le> clock s" "tcp_timeline env w ?conn"
    using counts(1,2) h by (auto simp: connection_ok_def Let_def in_flight_def split: if_splits)
  obtain rearm conn st where check: "timeout_check None (clock s) ?conn (the_state s) = (Inr rearm, conn, st)"
    by (cases "timeout_period < clock s - last_request_time_point ?conn") (auto simp: timeout_check_def)
  have t: "t = (if rearm then async (Wait_timeout n)
      (?s\<lparr>the_state := st, tcp_connections := (tcp_connections s)[n := conn]\<rparr>)
    else ?s\<lparr>the_state := st, tcp_connections := (tcp_connections s)[n := conn]\<rparr>)"
    using run check by (auto simp: run_timeout_check_def Let_def)
  have same: "reading conn = reading ?conn" "socket_open conn = rearm"
      "last_request_time_point conn = last_request_time_point ?conn"
    using check op(1) by (auto simp: timeout_check_def split: if_splits)
  have zero: "timers_under_way n ?s = 0"
    using counts(2,4) op(1) by (simp add: connection_ok_def Let_def)
  then have none: "Timeout_check n \<notin># ready s - {#?h#}" by (auto simp: in_flight_0)
  show ?thesis
  proof (rule owned_handler_ok [OF ok h, where ops = "if rearm then {#Wait_timeout n#} else {#}"])
    have "tcp_timeline env w conn" if "rearm"
      using that check by (intro tcp_timeline.checked [OF op(3,2)]) simp
    moreover have "timers_under_way n t = (if rearm then 1 else 0)" using zero t by simp
    moreover have "headers_under_way n t = headers_under_way n s" using counts(3) t by simp
    moreover have "ready t = ready s - {#?h#}" "clock t = clock s"
        "tcp_connections t = (tcp_connections s)[n := conn]"
      using t by simp_all
    ultimately show "connection_ok env w t n" if "n < length (tcp_connections s)"
      using that counts(2) none same by (simp add: connection_ok_def Let_def)
  qed (use t in auto)
qed

lemma new_connection_ok:
  assumes ok: "connections_ok env w s"
    and run: "handle_new_tcp_connection l error address s = (res, t)"
  shows "connections_ok env w t"
proof (cases error)
  case (Some msg)
  then show ?thesis using assms by (simp add: handle_new_tcp_connection_def)
next
  case None
  let ?n = "length (tcp_connections s)"
  have t: "t = async (Receive l) (async (Wait_timeout ?n) (async (Read_header ?n)
      (s\<lparr>tcp_connections := tcp_connections s @ [tcp_start (clock s) (new_tcp_connection address)]\<rparr>)))"
    using run None by (auto simp: handle_new_tcp_connection_def start_async_receive_def Let_def)
  have old: "connection_ok env w t n" if "n < ?n" for n
    using that ok t by (intro connection_ok_frame [of env w s n t]) (auto simp: connections_ok_def nth_append)
  have ow: "owners_ok s" using ok by (simp add: connections_ok_def)
  have "headers_under_way ?n s = 0" "timers_under_way ?n s = 0"
    using ow by (force simp: in_flight_0 owners_ok_def elim!: reads.elims)+
  moreover have "Timeout_check ?n \<notin># ready s"
    using ow by (force simp: owners_ok_def)
  ultimately have "connection_ok env w t ?n"
    using t tcp_timeline.started [of env w "clock s" "new_tcp_connection address"]
    by (simp add: connection_ok_def tcp_start_def new_tcp_connection_def)
  moreover have "owners_ok t"
    using ow t by (auto simp: owners_ok_def less_Suc_eq)
  ultimately show ?thesis
    using old t by (auto simp: connections_ok_def less_Suc_eq)
qed

lemma unowned_take:
  assumes ok: "connections_ok env w s" and h: "h \<in># ready s" and "handler_owner h = None"
  shows "connections_ok env w (s\<lparr>ready := ready s - {#h#}\<rparr>)"
proof -
  have "connection_ok env w (s\<lparr>ready := ready s - {#h#}\<rparr>) n" if "n < length (tcp_connections s)" for n
  proof (rule connection_ok_frame [of env w s])
    show "connection_ok env w s n" using ok that by (simp add: connections_ok_def)
    have "\<not> reads n h" "h \<noteq> Timeout_check n" using assms(3) by (cases h; simp)+
    then show "headers_under_way n (s\<lparr>ready := ready s - {#h#}\<rparr>) = headers_under_way n s"
        "timers_under_way n (s\<lparr>ready := ready s - {#h#}\<rparr>) = timers_under_way n s"
      using in_flight_take [OF h] by auto
  qed (auto dest: in_diffD)
  then show ?thesis using ok owners_take [of s h] by (simp add: connections_ok_def)
qed

lemma connections_ok_start [simp]:
  assumes ok: "connections_ok env w s"
  shows "operation_owner opn = None \<Longrightarrow> connections_ok env w (async opn s)"
    and "handler_owner h = None \<Longrightarrow> connections_ok env w (post h s)"
proof -
  have c: "connection_ok env w s n" if "n < length (tcp_connections s)" for n
    using ok that by (simp add: connections_ok_def)
  have ow: "owners_ok s" using ok by (simp add: connections_ok_def)
  show "connections_ok env w (async opn s)" if o: "operation_owner opn = None"
  proof -
    have "opn \<noteq> Read_header n" "opn \<noteq> Wait_timeout n" for n using o by auto
    then have "connection_ok env w (async opn s) n" if "n < length (tcp_connections s)" for n
      by (intro connection_ok_frame [OF c [OF that]]) simp_all
    then show ?thesis using ow o by (auto simp: connections_ok_def owners_ok_def)
  qed
  show "connections_ok env w (post h s)" if o: "handler_owner h = None"
  proof -
    have "\<not> reads n h" "h \<noteq> Timeout_check n" for n using o by (cases h; simp)+
    then have "connection_ok env w (post h s) n" if "n < length (tcp_connections s)" for n
      by (intro connection_ok_frame [OF c [OF that]]) auto
    then show ?thesis using ow o by (auto simp: connections_ok_def owners_ok_def)
  qed
qed

lemma handler_connections:
  assumes ok: "connections_ok env w s" and h: "h \<in># ready s"
    and run: "run_handler env w c h (s\<lparr>ready := ready s - {#h#}\<rparr>) = (res, t)"
  shows "connections_ok env w t"
proof (cases h)
  case (Header_read n error input)
  then show ?thesis using header_handler_ok [OF ok] h run by simp
next
  case (Response_sent n error bytes)
  then show ?thesis using sent_handler_ok [OF ok] h run by simp
next
  case (Timeout_check n)
  then show ?thesis using timeout_handler_ok [OF ok] h run by simp
next
  case (New_connection l error address)
  then show ?thesis using new_connection_ok [OF unowned_take [OF ok h]] run by simp
next
  case (Udp_traffic l error n)
  then show ?thesis
    using unowned_take [OF ok h] run
    by (auto simp: handle_incoming_udp_traffic_def start_async_receive_def Let_def split: option.splits)
next
  case (Incoming_message l m a)
  have "connections_ok env w (s\<lparr>ready := ready s - {#h#}, the_state := st\<rparr>)" for st
    by (rule connections_ok_frame [OF unowned_take [OF ok h]]) (use Incoming_message in auto)
  then show ?thesis
    using run Incoming_message
    by (auto simp: serve_message_def start_async_send_to_def Let_def split: prod.splits sum.splits)
next
  case (Datagram_sent error n m)
  then show ?thesis using unowned_take [OF ok h] run by auto
next
  case (Close_socket l)
  then show ?thesis
    using run by (intro connections_ok_frame [OF unowned_take [OF ok h]]) auto
qed

lemma step_connections:
  assumes ok: "connections_ok env w s" and stp: "process_step env w sp up event s = Some s'"
  shows "connections_ok env w s'"
proof (cases event)
  case (Thread_runs c h)
  with stp obtain res t es where h: "h \<in># ready s"
      "run_handler env w c h (s\<lparr>ready := ready s - {#h#}\<rparr>) = (res, t)" "s' = t\<lparr>reported := es\<rparr>"
    by (auto elim: thread_step simp del: process_step.simps)
  show ?thesis
    by (rule connections_ok_frame [OF handler_connections [OF ok h(1,2)]]) (simp_all add: h(3))
next
  case (Sender_moves k e)
  then show ?thesis
    using stp by (intro connections_ok_frame [OF ok])
      (auto simp: sender_moves_def split: option.splits if_splits)
next
  case (Datagram l m a)
  let ?s = "s\<lparr>udp_buffer := (udp_buffer s)(l := take 65535 m), udp_endpoint := (udp_endpoint s)(l := a)\<rparr>"
  have c: "complete (Receive l) (Udp_traffic l None (length (take 65535 m))) ?s = Some s'"
    using stp Datagram by (simp add: Let_def split: if_splits)
  have "connections_ok env w ?s" by (rule connections_ok_frame [OF ok]) simp_all
  from complete_keeps_connections [OF this c] show ?thesis by simp
next
  case (Connection l a)
  then show ?thesis using stp by (auto split: if_splits elim!: complete_keeps_connections [OF ok])
next
  case (Receive_fails l msg)
  have "complete (Receive l) (receive_failure l msg) s = Some s'" using stp Receive_fails by simp
  then show ?thesis by (rule complete_keeps_connections [OF ok]) (auto simp: receive_failure_def split: if_splits)
next
  case (Header_arrives n e input)
  then show ?thesis using stp by (auto elim!: complete_keeps_connections [OF ok])
next
  case (Response_leaves n e bytes)
  then show ?thesis using stp by (auto elim!: complete_keeps_connections [OF ok])
next
  case (Datagram_leaves l to m e bytes)
  then show ?thesis using stp by (auto elim!: complete_keeps_connections [OF ok])
next
  case (Timer_expires n)
  then show ?thesis using stp by (auto elim!: complete_keeps_connections [OF ok] split: if_splits)
next
  case Shut_down
  have "connections_ok env w (s\<lparr>work_guard := False, open_listeners := open_listeners s - {Tcp_v4, Tcp_v6}\<rparr>)"
    by (rule connections_ok_frame [OF ok]) simp_all
  then show ?thesis using stp Shut_down by (auto simp: graceful_shutdown_def split: if_splits)
qed (use stp in \<open>auto intro!: connections_ok_frame [OF ok] split: if_splits\<close>)

interpretation connections: process_invariant "process_step env w sp up" "process_steps env w sp up"
    fresh_server "process_run env w sp up" "connections_ok env w"
  for env w sp up
proof
  show "connections_ok env w s" if "fresh_server s" for s
    using that by (auto simp: fresh_server_def constructed_server connections_ok_def owners_ok_def)
qed (rule step_connections)

text \<open>What a step does to one connection: a socket is closed only after 240 idle seconds.\<close>

lemma nth_updated: "n < length xs \<Longrightarrow> xs[m := x] ! n = (if m = n then x else xs ! n)"
  by (cases "m = n") auto

lemma handler_connection:
  assumes "run_handler env w c h s = (res, t)" and "n < length (tcp_connections s)"
    and "\<forall>m. handler_owner h = Some m \<longrightarrow> last_request_time_point (tcp_connections s ! m) \<le> clock s"
  shows "n < length (tcp_connections t) \<and> clock t = clock s \<and>
    (let conn = tcp_connections s ! n; conn' = tcp_connections t ! n
     in (socket_open conn' \<longrightarrow> socket_open conn \<and>
           last_request_time_point conn \<le> last_request_time_point conn') \<and>
        (socket_open conn \<and> \<not> socket_open conn' \<longrightarrow> last_request_time_point conn + 240 < clock s))"
proof (cases h)
  case (Header_read m error input)
  let ?conn = "tcp_connections s ! m"
  obtain r conn st where read: "header_read env w c error (clock s)
      (?conn\<lparr>in_streambuf := in_streambuf ?conn @ input\<rparr>) (the_state s) = (r, conn, st)"
    by (metis prod_cases3)
  then show ?thesis
    using assms Header_read header_read_flags [OF read] header_read_timer [OF read]
    by (auto simp: run_header_read_def Let_def nth_updated split: sum.splits option.splits if_splits)
next
  case (Response_sent m error bytes)
  then show ?thesis
    using assms
    by (auto simp: run_response_sent_def response_sent_def Let_def nth_updated
        split: option.splits if_splits)
next
  case (Timeout_check m)
  then show ?thesis
    using assms
    by (auto simp: run_timeout_check_def timeout_check_def timeout_period_def Let_def nth_updated
        split: if_splits)
qed (use assms in \<open>auto simp: handler_defs nth_append split: option.splits prod.splits sum.splits\<close>)

lemma step_connection:
  assumes ok: "connections_ok env w s" and stp: "process_step env w sp up event s = Some s'"
    and n: "n < length (tcp_connections s)"
  shows "n < length (tcp_connections s') \<and> clock s \<le> clock s' \<and>
    (let conn = tcp_connections s ! n; conn' = tcp_connections s' ! n
     in (socket_open conn' \<longrightarrow> socket_open conn \<and>
           last_request_time_point conn \<le> last_request_time_point conn') \<and>
        (socket_open conn \<and> \<not> socket_open conn' \<longrightarrow> last_request_time_point conn + 240 < clock s'))"
proof (cases event)
  case (Thread_runs c h)
  with stp obtain res t es where h: "h \<in># ready s"
      "run_handler env w c h (s\<lparr>ready := ready s - {#h#}\<rparr>) = (res, t)" "s' = t\<lparr>reported := es\<rparr>"
    by (auto elim: thread_step simp del: process_step.simps)
  have "\<forall>m. handler_owner h = Some m \<longrightarrow> last_request_time_point (tcp_connections s ! m) \<le> clock s"
    using ok h(1) by (auto simp: connections_ok_def owners_ok_def connection_ok_def Let_def)
  with handler_connection [OF h(2), of n] n h(3) show ?thesis by (simp add: Let_def)
qed (use stp n in \<open>auto simp: graceful_shutdown_def sender_moves_def Let_def complete_fields
  split: option.splits if_splits\<close>)

lemma steps_connection:
  assumes "connections_ok env w s" and "process_steps env w sp up later s = Some s'"
    and "n < length (tcp_connections s)"
    and "if socket_open (tcp_connections s ! n) then t \<le> last_request_time_point (tcp_connections s ! n)
      else t + 240 < clock s"
  shows "n < length (tcp_connections s') \<and>
    (if socket_open (tcp_connections s' ! n) then t \<le> last_request_time_point (tcp_connections s' ! n)
     else t + 240 < clock s')"
proof (rule connections.inv_steps_keep [OF assms(1,2)])
  fix s e u
  assume ok: "connections_ok env w s" and stp: "process_step env w sp up e s = Some u"
    and "n < length (tcp_connections s) \<and>
      (if socket_open (tcp_connections s ! n) then t \<le> last_request_time_point (tcp_connections s ! n)
       else t + 240 < clock s)"
  then show "n < length (tcp_connections u) \<and>
      (if socket_open (tcp_connections u ! n) then t \<le> last_request_time_point (tcp_connections u ! n)
       else t + 240 < clock u)"
    using step_connection [OF ok stp, of n] by (auto simp: Let_def split: if_splits)
qed (use assms in simp)

subsection \<open>Exceptions\<close>

lemma request_throws:
  assumes reach: "server_reach env sp up st"
    and run: "handle_incoming_request env c st rq requester = (Inl e, st')"
  shows "e = Bad_get \<or> e = System_error"
  using run
proof (cases rule: handle_request_cases)
  case (new_session v)
  note inv = server_reach_inv [OF reach]
  let ?s = "session_for_setup c requester st" and ?rq = "(rq, request_fields env rq)"
  obtain res' s' where m: "methods_setup env c ?s ?rq = (res', s')" by force
  have wf: "wf_session ?s" using session_for_setup_ok(1) [OF inv] by (rule session_okD)
  have "res' = Inl e" using setup_new_session_eq [OF inv _ m] new_session(3,5) by simp
  then show ?thesis using methods_setup.throws [OF _ wf, of ?rq v env c] m new_session(1) by simp
next
  case (in_session v k s res' s')
  have "wf_session (s\<lparr>last_seen_request_address := requester\<rparr>)"
    using server_invD(2) [OF server_reach_inv [OF reach] in_session(5)]
    by (simp add: session_ok_def wf_session_def)
  from handler_table [OF _ this in_session(3,6)] in_session(1,7) show ?thesis by auto
qed simp_all

text \<open>The exceptions of the handlers are those of sockets and of a SETUP.\<close>

lemma handler_throws:
  assumes "server_reach env sp up (the_state s)" and "run_handler env w c h s = (Inl e, t)"
  shows "e = Bad_get \<or> e = System_error \<or> (\<exists>msg. e = Runtime_error msg)"
proof (cases h)
  case (Incoming_message l m a)
  then show ?thesis
    using assms
    by (auto simp: serve_message_def handle_new_incoming_message_def rbind_def Let_def
        dest!: request_throws [OF assms(1)] split: prod.splits sum.splits option.splits)
next
  case (Header_read n error input)
  then show ?thesis
    using assms
    by (auto simp: run_header_read_def header_read_def Let_def dest!: request_throws [OF assms(1)]
        split: prod.splits sum.splits option.splits asio_error.splits if_splits)
next
  case (Timeout_check n)
  then show ?thesis
    using assms by (auto simp: run_timeout_check_def timeout_check_def Let_def split: if_splits)
qed (use assms in \<open>auto simp: handler_defs response_sent_def udp_sent_def
  split: option.splits prod.splits if_splits\<close>)

subsection \<open>Properties\<close>

text \<open>
  How the construction of a server ends. Without the directory of resources it throws
  the runtime error of the interface. With it, threads run before the sockets are opened: when the
  TCP socket for IPv4 cannot be opened, because the port is in use say, the exception leaves the
  constructor while the threads are joinable, which terminates the program instead of reaching
  the caller. In all other cases there is a server, with at least one thread, that receives on
  all four sockets, those that could not be opened included.
\<close>

theorem construction_outcomes:
  "if root_exists around \<and> root_is_directory around
   then if can_bind around Tcp_v4
     then \<exists>s. rtsp_server_new around now = Constructed s \<and> 0 < io_threads s \<and> work_guard s \<and>
       the_state s = new_server_state \<and> tcp_connections s = [] \<and>
       (\<forall>l. receiving l s = 1 \<and> (l \<in> open_listeners s \<longleftrightarrow> can_bind around l))
     else rtsp_server_new around now = Terminates
   else rtsp_server_new around now =
     Throws (Runtime_error ''Ressource root not existing or not a directory'')"
proof -
  have "\<exists>s. rtsp_server_new around now = Constructed s \<and> 0 < io_threads s \<and> work_guard s \<and>
      the_state s = new_server_state \<and> tcp_connections s = [] \<and>
      (\<forall>l. receiving l s = 1 \<and> (l \<in> open_listeners s \<longleftrightarrow> can_bind around l))"
    if "root_exists around" "root_is_directory around" "can_bind around Tcp_v4"
  proof -
    have fields: "open_listeners (async opn s) = open_listeners s" "io_threads (async opn s) = io_threads s"
        "work_guard (async opn s) = work_guard s" for opn s
      by (simp_all add: async_def)
    have "\<exists>s. rtsp_server_new around now = Constructed s"
      using that by (simp add: rtsp_server_new_def Let_def)
    then obtain s where s: "rtsp_server_new around now = Constructed s" by auto
    have "l \<in> open_listeners s \<longleftrightarrow> can_bind around l" for l
      using s that by (cases l) (auto simp: rtsp_server_new_def start_async_receive_def fields Let_def split: if_splits)
    moreover have "0 < io_threads s" "work_guard s"
      using s that by (auto simp: rtsp_server_new_def start_async_receive_def fields Let_def)
    ultimately show ?thesis
      using s constructed_receiving [OF s] constructed_server(3,4) [OF s] by blast
  qed
  moreover have "rtsp_server_new around now = Terminates"
    if "root_exists around" "root_is_directory around" "\<not> can_bind around Tcp_v4"
    using that by (simp add: rtsp_server_new_def leave_constructor_def Let_def)
  moreover have "rtsp_server_new around now =
      Throws (Runtime_error ''Ressource root not existing or not a directory'')"
    if "\<not> (root_exists around \<and> root_is_directory around)"
    using that by (auto simp: rtsp_server_new_def leave_constructor_def)
  ultimately show ?thesis by simp
qed

definition sample_surroundings :: surroundings where
  "sample_surroundings =
     \<lparr>root_exists = True, root_is_directory = True, hardware_concurrency = 2,
      can_bind = (\<lambda>l. l \<noteq> Udp_v6 \<and> l \<noteq> Tcp_v6)\<rparr>"

definition sample_server_process :: rtsp_server where
  "sample_server_process =
     (case rtsp_server_new sample_surroundings 0 of Constructed s \<Rightarrow> s)"

lemma sample_process:
  "process_run env w sp up [] sample_server_process"
  "sample_server_process =
     \<lparr>the_state = new_server_state, work_guard = True, open_listeners = {Udp_v4, Tcp_v4},
      udp_buffer = (\<lambda>_. []), udp_endpoint = (\<lambda>_. []), tcp_connections = [],
      operations = {#Receive Tcp_v6, Receive Tcp_v4, Receive Udp_v6, Receive Udp_v4#}, ready = {#},
      io_threads = 2, reported = [], clock = 0\<rparr>"
proof -
  have *: "rtsp_server_new sample_surroundings 0 = Constructed sample_server_process"
    by (simp add: sample_server_process_def rtsp_server_new_def sample_surroundings_def Let_def)
  then show "process_run env w sp up [] sample_server_process" by (rule process_run.constructed)
  show "sample_server_process =
     \<lparr>the_state = new_server_state, work_guard = True, open_listeners = {Udp_v4, Tcp_v4},
      udp_buffer = (\<lambda>_. []), udp_endpoint = (\<lambda>_. []), tcp_connections = [],
      operations = {#Receive Tcp_v6, Receive Tcp_v4, Receive Udp_v6, Receive Udp_v4#}, ready = {#},
      io_threads = 2, reported = [], clock = 0\<rparr>"
    by (auto simp: sample_server_process_def rtsp_server_new_def sample_surroundings_def Let_def
        start_async_receive_def async_def)
qed

text \<open>
  C19 (liveness): a socket is received on until its first failure, and never again. In every run and
  for each of the four sockets there is exactly one receive under way, so that no two receives
  share the buffer of a UDP socket, as long as no handler of a failed receive (say, because the
  process has no file descriptor left for a new connection) has run. From the first one on there
  is none: it throws instead of starting the next receive, the error is logged, and no datagram or
  connection reaches the server through this socket any more.
\<close>

theorem receives_until_first_failure:
  assumes "process_run env w sp up events s"
  shows "if \<exists>e\<in>set events. gives_up l e
    then receiving l s = 0 \<and> (\<forall>later s' m a. process_steps env w sp up later s = Some s' \<longrightarrow>
      process_step env w sp up (Datagram l m a) s' = None \<and>
      process_step env w sp up (Connection l a) s' = None)
    else receiving l s = 1"
proof -
  have "process_step env w sp up (Datagram l m a) s' = None \<and>
      process_step env w sp up (Connection l a) s' = None"
    if "\<exists>e\<in>set events. gives_up l e" and "process_steps env w sp up later s = Some s'" for later s' m a
  proof -
    have "receiving l s' = 0"
      using run_receiving [OF server.run_steps [OF assms that(2)], of l] that(1) by auto
    then have "Receive l \<notin># operations s'" by (auto simp: in_flight_0)
    then show ?thesis by (auto simp: complete_def Let_def)
  qed
  then show ?thesis using run_receiving [OF assms, of l] by auto
qed

abbreviation options_request :: request where
  "options_request \<equiv> sample_request ''OPTIONS'' []"

abbreviation sample_steps :: "wire \<Rightarrow> process_event list \<Rightarrow> rtsp_server option" where
  "sample_steps w events \<equiv>
     process_steps sample_env w octet_spirit ascii_uint_parse events sample_server_process"

definition accept_fails :: "process_event list" where
  "accept_fails =
     [Receive_fails Tcp_v4 ''Too many open files'',
      Thread_runs sample_choices (New_connection Tcp_v4 (Some ''Too many open files'') [])]"

theorem receives_until_first_failure_witness:
  "\<exists>s. sample_steps (sample_wire [] options_request) accept_fails = Some s \<and>
     process_step sample_env (sample_wire [] options_request) octet_spirit ascii_uint_parse (Connection Tcp_v4 ''10.0.0.1'') s = None \<and>
     reported s = [Runtime_error ''Too many open files'']"
proof -
  obtain s where s: "sample_steps (sample_wire [] options_request) accept_fails =
      Some s" "reported s = [Runtime_error ''Too many open files'']"
    by (simp add: accept_fails_def sample_process(2) complete_def post_def receive_failure_def
        io_run_turn_def handle_new_tcp_connection_def)
  have "\<exists>e\<in>set accept_fails. gives_up Tcp_v4 e" by (simp add: accept_fails_def)
  with receives_until_first_failure [OF server.run_steps [OF sample_process(1) s(1)], of Tcp_v4] s
  show ?thesis by (metis append_Nil process_steps.simps(1))
qed

text \<open>
  C18 (safety): no datagram is lost, doubled or mixed up between the socket and the handler of its
  message. In every run, the datagrams that arrived, cut to the size of the buffer and with their
  senders, are exactly those whose message has been handled together with those that still
  wait for a thread, either posted or in the buffer of their socket; though all datagrams of a
  socket go through one buffer and one endpoint.
\<close>

theorem datagrams_handled_once:
  assumes "process_run env w sp up events s"
  shows "mset (arrived_datagrams events) = mset (handled_messages events) + waiting_messages s"
  using assms by (rule run_messages)

theorem datagrams_handled_once_witness:
  "\<exists>s. sample_steps (sample_wire [] options_request)
     [Datagram Udp_v4 ''x'' ''10.0.0.1'', Thread_runs sample_choices (Udp_traffic Udp_v4 None 1),
      Datagram Udp_v4 ''y'' ''10.0.0.2''] = Some s \<and>
     waiting_messages s = {#(Udp_v4, ''x'', ''10.0.0.1''), (Udp_v4, ''y'', ''10.0.0.2'')#}"
proof -
  let ?events = "[Datagram Udp_v4 ''x'' ''10.0.0.1'', Thread_runs sample_choices (Udp_traffic Udp_v4 None 1),
      Datagram Udp_v4 ''y'' ''10.0.0.2'']"
  obtain s where s: "sample_steps (sample_wire [] options_request) ?events = Some s"
    by (simp add: sample_process(2) complete_def post_def io_run_turn_def
        handle_incoming_udp_traffic_def start_async_receive_def async_def)
  from datagrams_handled_once [OF server.run_steps [OF sample_process(1) this]] s show ?thesis
    by (simp add: arrived_datagrams_def handled_messages_def)
qed


text \<open>A client connects, sends one request, and its answer is under way.\<close>

definition one_client :: "process_event list" where
  "one_client =
     [Connection Tcp_v4 ''10.0.0.1'', Thread_runs sample_choices (New_connection Tcp_v4 None ''10.0.0.1''),
      Time_passes 5, Header_arrives 0 None ''q'', Thread_runs sample_choices (Header_read 0 None ''q'')]"

lemma sample_options_handled:
  "handle_incoming_request sample_env sample_choices new_server_state (sample_request ''OPTIONS'' []) a =
     (Inr (refusal 200 ''OK'' [(''CSeq'', ''1''), (''Public'', ''SETUP, TEARDOWN, PLAY, PAUSE'')]),
      new_server_state)"
  by (simp add: server_eval server_options_def refusal_def)

lemma one_client_served:
  "\<exists>s answer. process_steps sample_env (sample_wire ''q'' options_request) sp up one_client
      sample_server_process = Some s \<and>
    tcp_connections s = [\<lparr>in_streambuf = [], last_response_string = answer, last_request_time_point = 5,
      timer_expiry = 240, reading = True, socket_open = True, remote_address = ''10.0.0.1''\<rparr>] \<and>
    operations s = {#Read_header 0, Send_response 0, Receive Tcp_v4, Wait_timeout 0, Receive Tcp_v6,
      Receive Udp_v6, Receive Udp_v4#} \<and> ready s = {#} \<and> clock s = 5 \<and>
    the_state s = new_server_state \<and> io_threads s > 0 \<and> work_guard s"
  by (simp add: one_client_def sample_process(2) complete_def io_run_turn_def post_def async_def
      handler_defs tcp_start_def new_tcp_connection_def timeout_period_def header_read_def sample_wire_def
      sample_options_handled)




text \<open>The client reads its answer and goes; the server is shut down and its timer fires twice.\<close>

definition shutting_down :: "nat \<Rightarrow> process_event list" where
  "shutting_down bytes =
     [Response_leaves 0 None bytes, Thread_runs sample_choices (Response_sent 0 None bytes),
      Header_arrives 0 (Some Eof) [], Thread_runs sample_choices (Header_read 0 (Some Eof) []), Shut_down] @
     concat (map (\<lambda>l. [Receive_fails l ''x'', Thread_runs sample_choices (receive_failure l ''x'')])
       [Udp_v4, Udp_v6, Tcp_v4, Tcp_v6]) @
     [Thread_runs sample_choices (Close_socket Udp_v4), Thread_runs sample_choices (Close_socket Udp_v6),
      Time_passes 235, Timer_expires 0, Thread_runs sample_choices (Timeout_check 0),
      Time_passes 240, Timer_expires 0, Thread_runs sample_choices (Timeout_check 0)]"

lemma shut_down_after_480:
  assumes "tcp_connections s = [\<lparr>in_streambuf = [], last_response_string = answer, last_request_time_point = 5,
      timer_expiry = 240, reading = True, socket_open = True, remote_address = a\<rparr>]"
    and "operations s = {#Read_header 0, Send_response 0, Receive Tcp_v4, Wait_timeout 0, Receive Tcp_v6,
      Receive Udp_v6, Receive Udp_v4#}" and "ready s = {#}" and "clock s = 5"
    and "the_state s = new_server_state" and "io_threads s > 0" and "work_guard s"
  shows "\<exists>s'. process_steps env w sp up (shutting_down (length answer)) s = Some s' \<and> out_of_work s' \<and>
    clock s' = 480"
  using assms
  by (simp add: shutting_down_def receive_failure_def complete_def post_def io_run_turn_def async_def
      handler_defs response_sent_def header_read_def timeout_check_def timeout_period_def
      graceful_shutdown_def out_of_work_def handle_timeout_of_host_spec timed_out_def new_server_state_def)




text \<open>A client sets a stream up and plays it.\<close>

definition two_requests :: wire where
  "two_requests =
     \<lparr>parse_request = (\<lambda>s. if s = ''s'' then (Some (sample_request ''SETUP'' [(''Transport'', ''t'')]), [])
        else (Some (sample_request ''PLAY'' [(''Session'', ''u1'')]), [])), decimal_gen = decimal\<rparr>"

definition playing_client :: "process_event list" where
  "playing_client =
     [Connection Tcp_v4 ''10.0.0.1'', Thread_runs sample_choices (New_connection Tcp_v4 None ''10.0.0.1''),
      Header_arrives 0 None ''s'', Thread_runs sample_choices (Header_read 0 None ''s''),
      Header_arrives 0 None ''p'', Thread_runs sample_choices (Header_read 0 None ''p'')]"

lemma playing_client_plays:
  "\<exists>s sess rtp. process_steps sample_env two_requests sp up playing_client sample_server_process = Some s \<and>
     sessions (the_state s) ''u1'' = Some sess \<and> rtp_session sess = Some rtp \<and> running (the_sender (rtp_sys rtp))"
proof -
  obtain r st sess rtp where su: "handle_incoming_request sample_env sample_choices new_server_state
       (sample_request ''SETUP'' [(''Transport'', ''t'')]) ''10.0.0.1'' = (Inr r, st)"
     "sessions st ''u1'' = Some sess" "state_of sess = Ready" "rtp_session sess = Some rtp"
    using sample_setup_handled by blast
  have "\<exists>r' st' sess' rtp'. handle_incoming_request sample_env sample_choices st
      (sample_request ''PLAY'' [(''Session'', ''u1'')]) ''10.0.0.1'' = (Inr r', st') \<and>
    sessions st' ''u1'' = Some sess' \<and> rtp_session sess' = Some rtp' \<and> running (the_sender (rtp_sys rtp'))"
    using su(2-4) by (simp add: handle_incoming_request_def call_method_def map_at_def Let_def play_def
        skeleton_eq on_rtp_session_def sample_request_def normalize_headers_def add_header_def
        sample_env_def sender_start_def)
  then show ?thesis
    using su(1) by (auto simp: playing_client_def sample_process(2) complete_def io_run_turn_def post_def
        async_def handler_defs tcp_start_def new_tcp_connection_def header_read_def two_requests_def)
qed


end
