(* ===== verification/Rtsp_Player.thy ===== *)
theory Rtsp_Player
  imports Rtsp_Client
begin

section \<open>The player\<close>

text \<open>
  The widget of \<open>jpeg_rtsp_player.cpp\<close> with its settings, log and control docks, the client
  behind \<open>rtsp_client_pimpl.cpp\<close>, and the window of \<open>rtsp_gui.cpp\<close>. What Qt draws is left out: a
  widget is the value it shows. The slots run on the GUI thread; a call of the client
  dispatches a closure to the client's strand, which runs the closures in order.
\<close>

subsection \<open>The client behind the pointer\<close>

record client_handle =
  client_object :: rtsp_client
  dispatched :: "client_event list"

definition rtsp_client_pimpl :: "client_env \<Rightarrow> string \<Rightarrow> client_handle result" where
  "rtsp_client_pimpl env url =
     rbind (new_rtsp_client env url) (\<lambda>cl. Inr \<lparr>client_object = cl, dispatched = []\<rparr>)"

definition dispatch :: "client_event \<Rightarrow> client_handle \<Rightarrow> client_handle" where
  "dispatch event h = h\<lparr>dispatched := dispatched h @ [event]\<rparr>"

definition pimpl_set_rtp_statistics_handler :: "client_handle \<Rightarrow> client_handle" where
  "pimpl_set_rtp_statistics_handler = dispatch Set_statistics"

definition pimpl_set_mkn_options :: "bool \<Rightarrow> rat \<Rightarrow> u16 \<Rightarrow> u16 \<Rightarrow> client_handle \<Rightarrow> client_handle" where
  "pimpl_set_mkn_options general_switch p k q = dispatch (Set_options general_switch p k q)"

definition pimpl_call :: "client_call \<Rightarrow> client_handle \<Rightarrow> client_handle" where
  "pimpl_call call = dispatch (Call call)"

text \<open>The client after its strand has run what was dispatched.\<close>

definition settled_client :: "client_env \<Rightarrow> client_handle \<Rightarrow> rtsp_client" where
  "settled_client env h = client_run env (dispatched h) (client_object h)"

subsection \<open>The widget\<close>

text \<open>
  The values of the input fields and labels, the lines of the log, the messages of the status bar
  (\<open>None\<close>: no status bar has been set) with the milliseconds they are shown, the errors shown in
  dialogs, the image, and the client. The progress bar holds the value it was given last.
\<close>

record jpeg_player =
  host_line_edit :: string
  mkn_check_state :: int
  bernoulli_p_dbox :: rat
  fec_k_box :: int
  fec_boxes_enabled :: bool
  received_packet_label :: string
  lost_packet_label :: string
  relative_loss_progressbar :: "int option"
  relative_loss_label :: string
  corrected_packet_label :: string
  uncorrectable_packet_label :: string
  log_lines :: "string list"
  status_bar :: "(string \<times> nat) list option"
  error_messages :: "exn list"
  central_image :: octets
  gui_client :: "client_handle option"

definition new_jpeg_player :: jpeg_player where
  "new_jpeg_player =
     \<lparr>host_line_edit = ''rtsp://localhost:5054/movie.mjpeg'', mkn_check_state = 0,
      bernoulli_p_dbox = 0, fec_k_box = 0, fec_boxes_enabled = False,
      received_packet_label = [], lost_packet_label = [], relative_loss_progressbar = None,
      relative_loss_label = [], corrected_packet_label = [], uncorrectable_packet_label = [],
      log_lines = [], status_bar = None, error_messages = [], central_image = [],
      gui_client = None\<rparr>"

definition set_status_bar :: "jpeg_player \<Rightarrow> jpeg_player" where
  "set_status_bar w = w\<lparr>status_bar := Some []\<rparr>"

definition show_message :: "string \<Rightarrow> nat \<Rightarrow> jpeg_player \<Rightarrow> unit result \<times> jpeg_player" where
  "show_message msg milliseconds w =
     (case status_bar w of
        None \<Rightarrow> (Inl (Undefined_behaviour ''null status_bar_''), w)
      | Some shown \<Rightarrow> (Inr (), w\<lparr>status_bar := Some (shown @ [(msg, milliseconds)])\<rparr>))"

definition fec_options_state_changed :: "int \<Rightarrow> jpeg_player \<Rightarrow> jpeg_player" where
  "fec_options_state_changed state w = w\<lparr>mkn_check_state := state, fec_boxes_enabled := state \<noteq> 0\<rparr>"

definition get_mkn_options :: "jpeg_player \<Rightarrow> bool \<times> rat \<times> u16" where
  "get_mkn_options w = (mkn_check_state w \<noteq> 0, bernoulli_p_dbox w, of_int (fec_k_box w))"

text \<open>
  \<open>update_statistics\<close>: the counts are unsigned 64-bit integers, the percentage is an \<open>int\<close>, and the
  subtraction from 100 may overflow it.
\<close>

definition int_text :: "int \<Rightarrow> string" where
  "int_text i = (if i < 0 then CHR 0x2D # decimal_digits (nat (- i)) else decimal_digits (nat i))"

definition relative_loss_percentage :: "u64 \<Rightarrow> u64 \<Rightarrow> int" where
  "relative_loss_percentage received_count expected_count =
     sint (ucast (if expected_count \<noteq> 0 then received_count * 100 div expected_count else 0) :: 32 word)"

definition update_statistics ::
    "u64 \<Rightarrow> u64 \<Rightarrow> u64 \<Rightarrow> u64 \<Rightarrow> jpeg_player \<Rightarrow> unit result \<times> jpeg_player" where
  "update_statistics received_count expected_count corrected_count uncorrectable_count w =
     (let percentage = relative_loss_percentage received_count expected_count;
          w = w\<lparr>received_packet_label := decimal received_count,
                lost_packet_label := decimal (expected_count - received_count),
                relative_loss_progressbar := Some percentage\<rparr>
      in if 2 ^ 31 \<le> 100 - percentage then (Inl (Undefined_behaviour ''signed overflow''), w)
         else (Inr (), w\<lparr>relative_loss_label := int_text (100 - percentage) @ ''%'',
                         corrected_packet_label := decimal corrected_count,
                         uncorrectable_packet_label := decimal uncorrectable_count\<rparr>))"

definition add_log :: "string \<Rightarrow> jpeg_player \<Rightarrow> jpeg_player" where
  "add_log line w = w\<lparr>log_lines := log_lines w @ [line]\<rparr>"

definition on_new_image :: "octets \<Rightarrow> jpeg_player \<Rightarrow> jpeg_player" where
  "on_new_image frame w = w\<lparr>central_image := frame\<rparr>"

text \<open>The handler of the client's exceptions: the log, and the status bar for three seconds.\<close>

definition on_client_exception :: "string \<Rightarrow> jpeg_player \<Rightarrow> jpeg_player" where
  "on_client_exception what w =
     (let w = add_log what w
      in w\<lparr>status_bar := map_option (\<lambda>shown. shown @ [(what, 3000)]) (status_bar w)\<rparr>)"

subsection \<open>The slots of the buttons\<close>

text \<open>
  \<open>create_new_rtsp_client_\<close>: the new client replaces the old one, which is destroyed, when its
  constructor has returned; an exception is shown in a dialog and the pointer stays as it was.
\<close>

definition create_new_rtsp_client :: "client_env \<Rightarrow> jpeg_player \<Rightarrow> jpeg_player" where
  "create_new_rtsp_client env w =
     (case rtsp_client_pimpl env (host_line_edit w) of
        Inl e \<Rightarrow> w\<lparr>error_messages := error_messages w @ [e]\<rparr>
      | Inr h \<Rightarrow> w\<lparr>gui_client := Some (pimpl_set_rtp_statistics_handler h)\<rparr>)"

definition on_client :: "(client_handle \<Rightarrow> client_handle) \<Rightarrow> jpeg_player \<Rightarrow> unit result \<times> jpeg_player" where
  "on_client f w =
     (case gui_client w of
        None \<Rightarrow> (Inl (Undefined_behaviour ''null rtsp_client_''), w)
      | Some h \<Rightarrow> (Inr (), w\<lparr>gui_client := Some (f h)\<rparr>))"

definition player_setup :: "client_env \<Rightarrow> u16 \<Rightarrow> jpeg_player \<Rightarrow> unit result \<times> jpeg_player" where
  "player_setup env port w =
     (let w = create_new_rtsp_client env w;
          (general_switch, p, k) = get_mkn_options w
      in case (if general_switch then on_client (pimpl_set_mkn_options general_switch p k 1) w
               else (Inr (), w)) of
           (Inl e, w) \<Rightarrow> (Inl e, w)
         | (Inr _, w) \<Rightarrow> on_client (pimpl_call (Setup port)) w)"

definition player_play :: "jpeg_player \<Rightarrow> unit result \<times> jpeg_player" where
  "player_play w =
     (if gui_client w = None then show_message ''Can not play before setup'' 1000 w
      else on_client (pimpl_call Play) w)"

definition player_pause :: "jpeg_player \<Rightarrow> unit result \<times> jpeg_player" where
  "player_pause w =
     (if gui_client w = None then show_message ''Can not pause before setup'' 1000 w
      else on_client (pimpl_call Pause) w)"

definition player_teardown :: "jpeg_player \<Rightarrow> unit result \<times> jpeg_player" where
  "player_teardown w =
     (if gui_client w \<noteq> None then on_client (pimpl_call Teardown) w
      else show_message ''Can not teardown before setup'' 1000 w)"

definition player_option :: "client_env \<Rightarrow> jpeg_player \<Rightarrow> unit result \<times> jpeg_player" where
  "player_option env w = on_client (pimpl_call Option_call) (create_new_rtsp_client env w)"

definition player_describe :: "client_env \<Rightarrow> jpeg_player \<Rightarrow> unit result \<times> jpeg_player" where
  "player_describe env w = on_client (pimpl_call Describe) (create_new_rtsp_client env w)"

text \<open>The buttons of the control dock, connected to the slots.\<close>

datatype control_button =
  Setup_button | Play_button | Pause_button | Teardown_button | Option_button | Describe_button

fun clicked :: "client_env \<Rightarrow> u16 \<Rightarrow> control_button \<Rightarrow> jpeg_player \<Rightarrow> unit result \<times> jpeg_player" where
  "clicked env port Setup_button w = player_setup env port w"
| "clicked env port Play_button w = player_play w"
| "clicked env port Pause_button w = player_pause w"
| "clicked env port Teardown_button w = player_teardown w"
| "clicked env port Option_button w = player_option env w"
| "clicked env port Describe_button w = player_describe env w"

subsection \<open>The window\<close>

datatype application_mode = No_mode | Server_mode | Client_mode

record gui_window =
  player :: jpeg_player
  current_index :: nat
  control_visible :: bool
  settings_visible :: bool

definition show_server_page :: "gui_window \<Rightarrow> gui_window" where
  "show_server_page g = g\<lparr>current_index := 1, control_visible := False, settings_visible := False\<rparr>"

definition show_client_page :: "gui_window \<Rightarrow> gui_window" where
  "show_client_page g = g\<lparr>current_index := 0, control_visible := True, settings_visible := True\<rparr>"

definition rtsp_gui_widget :: "application_mode \<Rightarrow> gui_window" where
  "rtsp_gui_widget preselection =
     (let g = \<lparr>player = set_status_bar new_jpeg_player, current_index = 0, control_visible = False,
               settings_visible = False\<rparr>
      in if preselection = Client_mode then show_client_page g
         else if preselection = Server_mode then show_server_page g
         else show_client_page g)"

text \<open>The mode from the arguments, and whether the usage is printed.\<close>

definition gui_preselection :: "string list \<Rightarrow> application_mode \<times> bool" where
  "gui_preselection argv =
     (if length argv > 1 then
        (let first_flag = argv ! 1
         in if first_flag = ''server'' then (Server_mode, False)
            else if first_flag = ''client'' then (Client_mode, False)
            else (No_mode, True))
      else (No_mode, False))"

definition gui_main :: "string list \<Rightarrow> gui_window" where
  "gui_main argv = rtsp_gui_widget (fst (gui_preselection argv))"

lemmas player_slots = player_setup_def player_option_def player_describe_def player_play_def
  player_pause_def player_teardown_def on_client_def create_new_rtsp_client_def

lemmas pimpl_defs = rtsp_client_pimpl_def dispatch_def pimpl_set_rtp_statistics_handler_def
  pimpl_set_mkn_options_def pimpl_call_def

lemma new_client_fields:
  assumes "new_rtsp_client env url = Inr cl"
  shows "client_state cl = Init" "client_identifier cl = []" "mkn_option cl = None" "\<not> is_open cl"
    "resolving cl = []" "outstanding_requests cl = Map.empty" "rtp_receiver cl = None" "next_cseq cl = 0"
  using assms by (auto simp: new_rtsp_client_def rbind_eq_Inr)

lemma created_client:
  "new_rtsp_client env (host_line_edit w) = Inr cl \<Longrightarrow> create_new_rtsp_client env w =
     w\<lparr>gui_client := Some \<lparr>client_object = cl, dispatched = [Set_statistics]\<rparr>\<rparr>"
  "new_rtsp_client env (host_line_edit w) = Inl e \<Longrightarrow>
     create_new_rtsp_client env w = w\<lparr>error_messages := error_messages w @ [e]\<rparr>"
  by (simp_all add: create_new_rtsp_client_def pimpl_defs)

text \<open>In the window there is a status bar, so Play, Pause and Teardown need no client.\<close>

lemma session_buttons_safe:
  assumes "status_bar w \<noteq> None" and "b \<in> {Play_button, Pause_button, Teardown_button}"
  shows "fst (clicked env port b w) = Inr ()"
  using assms by (auto simp: player_slots show_message_def split: option.splits)

lemma window_has_status_bar: "status_bar (player (gui_main argv)) \<noteq> None"
  by (simp add: gui_main_def rtsp_gui_widget_def show_client_page_def show_server_page_def
      set_status_bar_def Let_def)

lemma status_bar_kept:
  assumes "status_bar w \<noteq> None"
  shows "status_bar (snd (clicked env port b w)) \<noteq> None"
proof -
  have c: "status_bar (create_new_rtsp_client env w) = status_bar w" for w
    by (simp add: create_new_rtsp_client_def split: sum.split)
  have o: "status_bar (snd (on_client f w)) = status_bar w" for f w
    by (simp add: on_client_def split: option.split)
  have m: "status_bar (snd (show_message msg t w)) \<noteq> None" for msg t
    using assms by (auto simp: show_message_def)
  have "status_bar (snd (player_setup env port w)) = status_bar w"
    using c [of w] o by (simp add: player_setup_def Let_def split_def split: sum.split)
  then show ?thesis
    using assms c [of w] o m
    by (cases b) (simp_all add: player_option_def player_describe_def player_play_def player_pause_def
        player_teardown_def)
qed

subsection \<open>Properties\<close>


definition sample_player_env :: client_env where
  "sample_player_env = (sample_client_env refused_setup)\<lparr>parse_url :=
     (\<lambda>url. if url = [] then None else Some (''rtsp:'', ''h'', None, ''m''))\<rparr>"

lemma sample_player_client:
  "\<exists>cl. new_rtsp_client sample_player_env (host_line_edit new_jpeg_player) = Inr cl"
  by (simp add: new_rtsp_client_def process_url_def sample_player_env_def new_jpeg_player_def)


text \<open>
  A mistyped address. When the constructor of the client throws, the error is shown, and
  the button goes on: at the first click it calls a method through a null pointer, which is
  undefined; later its call, and the options of the settings, go to the old client,
  and so to the server of the old address.
\<close>

theorem mistyped_address:
  assumes "new_rtsp_client env (host_line_edit w) = Inl e"
  shows "error_messages (snd (player_setup env port w)) = error_messages w @ [e] \<and>
    (case gui_client w of
       None \<Rightarrow> fst (player_setup env port w) = Inl (Undefined_behaviour ''null rtsp_client_'') \<and>
         fst (player_option env w) = Inl (Undefined_behaviour ''null rtsp_client_'') \<and>
         fst (player_describe env w) = Inl (Undefined_behaviour ''null rtsp_client_'')
     | Some h \<Rightarrow> \<exists>h'. gui_client (snd (player_setup env port w)) = Some h' \<and>
         client_object h' = client_object h \<and>
         dispatched h' = dispatched h @ (if mkn_check_state w = 0 then [] else
           [Set_options True (bernoulli_p_dbox w) (of_int (fec_k_box w)) 1]) @ [Call (Setup port)])"
  by (simp add: player_setup_def player_option_def player_describe_def created_client(2) [OF assms]
      get_mkn_options_def on_client_def pimpl_defs split: option.split)

theorem mistyped_address_witness:
  "fst (player_setup sample_player_env 50000 (new_jpeg_player\<lparr>host_line_edit := []\<rparr>)) =
     Inl (Undefined_behaviour ''null rtsp_client_'')"
proof -
  have "new_rtsp_client sample_player_env (host_line_edit (new_jpeg_player\<lparr>host_line_edit := []\<rparr>)) =
      Inl (Runtime_error (''Could not read URL '' @ [CHR 0x22] @ [] @ [CHR 0x22]))"
    by (simp add: new_rtsp_client_def process_url_def sample_player_env_def)
  from mistyped_address [OF this, of 50000] show ?thesis by (simp add: new_jpeg_player_def)
qed

text \<open>
  Option and Describe give a running session up. With an address the client
  accepts, the button replaces the client, playing or not, by a new one without a session, which
  sends its own request only: no TEARDOWN goes to the server for the old session, and a following
  click on Play or Pause is refused by the new client.
\<close>

theorem option_abandons_session:
  assumes "new_rtsp_client env (host_line_edit w) = Inr cl"
    and "slot = player_option env \<and> call = Option_call \<or> slot = player_describe env \<and> call = Describe"
  shows "\<exists>h. slot w = (Inr (), w\<lparr>gui_client := Some h\<rparr>) \<and>
    (let c = settled_client env h
     in resolving c = [call] \<and> client_state c = Init \<and> client_identifier c = [] \<and> rtp_receiver c = None \<and>
        fst (client_request env Play c) =
          Inl (Runtime_error ''Can request play, not in rtsp ready or playing state'') \<and>
        fst (client_request env Pause c) =
          Inl (Runtime_error ''Can request pause, not in rtsp playing state''))"
  using new_client_fields [OF assms(1)] assms(2)
  by (auto simp: player_option_def player_describe_def created_client(1) [OF assms(1)] on_client_def
      pimpl_defs settled_client_def client_step_def set_rtp_statistics_handler_def
      client_request_def call_guard_def Let_def)

theorem option_abandons_session_witness:
  "\<exists>h. player_option sample_player_env new_jpeg_player = (Inr (), new_jpeg_player\<lparr>gui_client := Some h\<rparr>) \<and>
     resolving (settled_client sample_player_env h) = [Option_call]"
proof -
  obtain cl where "new_rtsp_client sample_player_env (host_line_edit new_jpeg_player) = Inr cl"
    using sample_player_client by blast
  from option_abandons_session [OF this, of "player_option sample_player_env" Option_call] show ?thesis
    by (auto simp: Let_def)
qed

lemma unat_times_100: "unat (x :: u64) * 100 < 2 ^ 64 \<Longrightarrow> unat (x * 100) = unat x * 100"
  by (simp add: unat_mult_lem [THEN iffD1])

text \<open>
  The statistics the player shows. While no more packets were received than expected and
  the count is below 2^64 / 100, the labels show the exact number of lost packets, and the
  percentages of received and lost packets, which add up to 100. After a surplus of n packets
  (duplicates) the label of lost packets shows 2^64 - n.
\<close>

theorem statistics_shown:
  assumes "unat received_count * 100 < 2 ^ 64"
  shows "if received_count \<le> expected_count
    then \<exists>w'. update_statistics received_count expected_count corrected_count uncorrectable_count w =
        (Inr (), w') \<and>
      (let percentage = unat received_count * 100 div unat expected_count
       in percentage \<le> 100 \<and> relative_loss_progressbar w' = Some (int percentage) \<and>
          relative_loss_label w' = decimal_digits (100 - percentage) @ ''%'' \<and>
          lost_packet_label w' = decimal_digits (unat expected_count - unat received_count))
    else lost_packet_label (snd (update_statistics received_count expected_count corrected_count
        uncorrectable_count w)) =
      decimal_digits (2 ^ 64 - (unat received_count - unat expected_count))"
proof (cases "received_count \<le> expected_count")
  case True
  let ?r = "unat received_count" and ?e = "unat expected_count"
  let ?p = "?r * 100 div ?e"
  have le: "?r \<le> ?e" using True by (simp add: word_le_nat_alt)
  have p: "?p \<le> 100"
  proof (cases "?e = 0")
    case False
    have "?r * 100 div ?e \<le> ?e * 100 div ?e" using le by (intro div_le_mono) simp
    then show ?thesis using False by simp
  qed simp
  let ?q = "if expected_count \<noteq> 0 then received_count * 100 div expected_count else 0"
  have "unat ?q = ?p"
    using unat_times_100 [OF assms] by (simp add: unat_div)
  then have "unat (ucast ?q :: 32 word) = ?p"
    using p by (simp add: unsigned_ucast_eq take_bit_eq_mod)
  then have "relative_loss_percentage received_count expected_count = int ?p"
    using p unfolding relative_loss_percentage_def
    by (simp add: sint_uint signed_take_bit_int_eq_self uint_nat)
  moreover have "decimal (expected_count - received_count) = decimal_digits (?e - ?r)"
    using True by (simp add: decimal_def unat_sub)
  ultimately show ?thesis
    using True p by (simp add: update_statistics_def int_text_def Let_def nat_diff_distrib)
next
  case False
  then have less: "unat expected_count < unat received_count" by (simp add: word_le_nat_alt)
  have "unat (expected_count - received_count) = 2 ^ 64 - (unat received_count - unat expected_count)"
    using less unsigned_less [of received_count] by (simp add: unat_sub_if_size word_size)
  then show ?thesis using False by (simp add: update_statistics_def decimal_def Let_def)
qed

theorem statistics_shown_witness:
  "lost_packet_label (snd (update_statistics 8 10 0 0 new_jpeg_player)) = decimal_digits 2 \<and>
   lost_packet_label (snd (update_statistics 11 10 0 0 new_jpeg_player)) = decimal_digits (2 ^ 64 - 1)"
  using statistics_shown [of 8 10 0 0 new_jpeg_player] statistics_shown [of 11 10 0 0 new_jpeg_player]
  by (auto simp: Let_def)

end
