(* ===== verification/Rtsp_Main.thy ===== *)
theory Rtsp_Main
  imports Rtsp_Listener Rtsp_Grammar
begin

section \<open>The stand-alone server\<close>

text \<open>
  The program of \<open>rtsp_server_standalone.cpp\<close>: its arguments, the construction of the server
  behind \<open>rtsp_server_pimpl\<close>, and the loop over the lines of the console.
\<close>

subsection \<open>Arguments\<close>

text \<open>
  \<open>std::stoul\<close> with base ten: white space and a sign are skipped, the rest after the digits is
  ignored, a negative number is the unsigned negation; \<open>Logic_error\<close> stands for
  \<open>invalid_argument\<close>.
\<close>

definition std_stoul :: "string \<Rightarrow> u64 result" where
  "std_stoul s =
     (let s = dropWhile is_space s;
          (negative, s) = (case s of
            [] \<Rightarrow> (False, s)
          | c # t \<Rightarrow> if c = CHR ''-'' then (True, t) else if c = CHR ''+'' then (False, t) else (False, s));
          ds = takeWhile (is_digit 10) s;
          n = number_value 10 ds
      in if ds = [] then Inl (Logic_error ''stoul'')
         else if 2 ^ 64 \<le> n then Inl Out_of_range
         else Inr (if negative then - of_nat n else of_nat n))"

text \<open>
  How the program goes on: with the usage, an exception that leaves \<open>main\<close>, an abort, or a server on
  a port with the resources below a path. \<open>around\<close> is what the constructor finds for them.
\<close>

datatype main_outcome = Usage | Uncaught exn | Aborted | Serving string u16 rtsp_server

text \<open>
  The wrapper \<open>rtsp_server_pimpl.cpp\<close>: it owns a server and forwards its constructor, the shutdown and
  the destruction.
\<close>

definition rtsp_server_pimpl ::
    "(string \<Rightarrow> u16 \<Rightarrow> surroundings) \<Rightarrow> string \<Rightarrow> u16 \<Rightarrow> int \<Rightarrow> construction" where
  "rtsp_server_pimpl around video_file_directory port now =
     rtsp_server_new (around video_file_directory port) now"

definition pimpl_graceful_shutdown :: "rtsp_server \<Rightarrow> rtsp_server" where
  "pimpl_graceful_shutdown = graceful_shutdown"

definition pimpl_destructor :: "rtsp_server \<Rightarrow> unit option" where
  "pimpl_destructor = rtsp_server_destructor"

definition server_main ::
    "(string \<Rightarrow> u16 \<Rightarrow> surroundings) \<Rightarrow> string list \<Rightarrow> int \<Rightarrow> main_outcome" where
  "server_main around argv now =
     (let argc = length argv
      in if argc = 2 \<and> (argv ! 1 = ''-h'' \<or> argv ! 1 = ''-?'') \<or> argc > 3 then Usage
         else
         case (if argc > 1 then rbind (std_stoul (argv ! 1)) (\<lambda>n. Inr (ucast n)) else Inr 554) of
           Inl e \<Rightarrow> Uncaught e
         | Inr port_number \<Rightarrow>
             (let path = (if argc > 2 then argv ! 2 else ''./'')
              in case rtsp_server_pimpl around path port_number now of
                   Constructed s \<Rightarrow> Serving path port_number s
                 | Throws e \<Rightarrow> Uncaught e
                 | Terminates \<Rightarrow> Aborted))"

text \<open>
  The loop over the lines of the input: what is printed, and whether it ends with the graceful
  shutdown. At the end of the input the server is destroyed without one.
\<close>

fun console_loop :: "string list \<Rightarrow> string list \<times> bool" where
  "console_loop [] = ([], False)"
| "console_loop (line # later) =
     (if line = ''quit'' then ([''Quitting''], True)
      else (case console_loop later of (printed, quitted) \<Rightarrow> (''Enter quit to exit'' # printed, quitted)))"

lemma console_loop_quits: "snd (console_loop ls) \<longleftrightarrow> ''quit'' \<in> set ls"
  by (induction ls rule: console_loop.induct) (auto split: prod.splits)

subsection \<open>Properties\<close>

lemma digit_is_no_sign: "is_digit 10 c \<Longrightarrow> c \<noteq> CHR ''-'' \<and> c \<noteq> CHR ''+'' \<and> c \<noteq> CHR ''h'' \<and> \<not> is_space c"
  by (auto simp: is_digit_def digit_value_def is_space_def Let_def split: if_splits)

lemma stoul_digits:
  "std_stoul (decimal_digits n) = (if n < 2 ^ 64 then Inr (of_nat n) else Inl Out_of_range)"
proof -
  let ?ds = "decimal_digits n"
  have d: "numeral_of 10 n ?ds" by (rule numeral_decimal)
  have "takeWhile (is_digit 10) ?ds = ?ds"
    using d by (simp add: numeral_of_def takeWhile_eq_all_conv)
  moreover have "dropWhile is_space ?ds = ?ds"
  proof (rule dropWhile_eq_self_iff [THEN iffD2])
    show "?ds = [] \<or> \<not> is_space (hd ?ds)"
      using d by (cases ?ds) (auto simp: numeral_of_def dest: digit_is_no_sign)
  qed
  moreover obtain c t where "?ds = c # t" "c \<noteq> CHR ''-''" "c \<noteq> CHR ''+''"
      "\<forall>c\<in>set t. is_digit 10 c"
    using d by (cases ?ds) (auto simp: numeral_of_def dest: digit_is_no_sign)
  ultimately show ?thesis
    using d by (simp add: std_stoul_def numeral_of_def takeWhile_eq_all_conv [THEN iffD2] Let_def not_less)
qed

text \<open>
  The port on the command line. Started with a decimal number as port and maybe a path,
  the program serves on the number modulo 65536, without a word when it is too large for a port, unless it
  does not fit sixty-four bits, when the exception of the conversion ends it. A server it serves with
  is one whose runs are those of \<open>process_run\<close>; and when its port is taken the program aborts.
\<close>

theorem port_argument:
  assumes "length paths \<le> 1"
  shows "(if n < 2 ^ 64 then
      (case server_main around (program # decimal_digits n # paths) now of
         Serving path port s \<Rightarrow> unat port = n mod 65536 \<and> process_run env w sp up [] s \<and>
           path = (if paths = [] then ''./'' else hd paths) \<and>
           rtsp_server_new (around path port) now = Constructed s
       | Aborted \<Rightarrow> \<not> can_bind (around (if paths = [] then ''./'' else hd paths) (of_nat n)) Tcp_v4
       | Uncaught e \<Rightarrow> e = Runtime_error ''Ressource root not existing or not a directory'' \<and>
           (let found = around (if paths = [] then ''./'' else hd paths) (of_nat n)
            in \<not> root_exists found \<or> \<not> root_is_directory found)
       | Usage \<Rightarrow> False)
     else server_main around (program # decimal_digits n # paths) now = Uncaught Out_of_range)"
proof -
  have no_flag: "decimal_digits n \<noteq> ''-h''" "decimal_digits n \<noteq> ''-?''"
    using numeral_decimal [of n] digit_is_no_sign by (auto simp: numeral_of_def)
  let ?path = "if paths = [] then ''./'' else hd paths"
  have port: "unat (of_nat n :: u16) = n mod 65536"
    by (simp add: unsigned_of_nat take_bit_eq_mod)
  moreover have "unat (ucast (of_nat n :: u64) :: u16) = n mod 65536"
    by (simp add: unsigned_ucast_eq unsigned_of_nat take_bit_eq_mod mod_mod_cancel)
  ultimately have narrow: "(ucast (of_nat n :: u64) :: u16) = of_nat n" by (simp add: word_unat_eq_iff)
  show ?thesis
  proof (cases "n < 2 ^ 64")
    case False
    then show ?thesis using assms no_flag by (simp add: server_main_def rtsp_server_pimpl_def stoul_digits Let_def)
  next
    case True
    obtain path where path: "?path = path" and "server_main around (program # decimal_digits n # paths) now =
        (case rtsp_server_new (around path (of_nat n)) now of
           Constructed s \<Rightarrow> Serving path (of_nat n) s | Throws e \<Rightarrow> Uncaught e | Terminates \<Rightarrow> Aborted)"
    proof (cases paths)
      case Nil
      then show ?thesis
        using that [of "''./''"] True no_flag narrow by (simp add: server_main_def rtsp_server_pimpl_def stoul_digits Let_def)
    next
      case (Cons a rest)
      then show ?thesis
        using that [of a] True no_flag narrow assms by (simp add: server_main_def rtsp_server_pimpl_def stoul_digits Let_def)
    qed
    then show ?thesis
      using True port process_run.constructed [of "around path (of_nat n)" now] unfolding path
      by (auto simp: rtsp_server_new_def leave_constructor_def Let_def split: if_splits)
  qed
qed

theorem port_argument_witness:
  "\<exists>s. server_main (\<lambda>path port. sample_surroundings) [''server'', decimal_digits 70000] 0 = Serving ''./'' 4464 s"
proof (cases "server_main (\<lambda>path port. sample_surroundings) [''server'', decimal_digits 70000] 0")
  case (Serving path port s)
  have "unat port = 4464" "path = ''./''"
    using port_argument [where paths = "[]" and n = 70000 and around = "\<lambda>path port. sample_surroundings"
        and program = "''server''" and now = 0] Serving
    by simp_all
  then have "port = 4464" "path = ''./''" by (simp_all add: word_unat_eq_iff)
  then show ?thesis using Serving by blast
qed (use port_argument [where paths = "[]" and n = 70000 and around = "\<lambda>path port. sample_surroundings"
      and program = "''server''" and now = 0] in \<open>auto simp: sample_surroundings_def Let_def\<close>)

end
