(* ===== verification/Rtp_Receiving.thy ===== *)
theory Rtp_Receiving
  imports Rtp_Receiver Process
begin

section \<open>The receiver at work\<close>

text \<open>
  \<open>unicast_jpeg_rtp_receiver\<close> of \<open>rtp_endsystem.cpp\<close> as a process: its constructor, the two receive
  loops, the strand all handlers of packets share, and the display timer. Boost.Asio is modelled by
  its contract, as in the server process: an operation that was started completes at any time, a
  strand runs what was given to it in order and one at a time, and \<open>dispatch\<close> runs a function at
  once if the strand is free, else keeps it. An exception of a function that is run at once leaves
  \<open>dispatch\<close>, as in Boost 1.66, the version the build asks for. Times are milliseconds.
\<close>

subsection \<open>State\<close>

datatype family = Family_v4 | Family_v6

text \<open>What waits for the strand.\<close>

datatype strand_task =
    Arm_display
  | Message family octets
  | Display "string option"
  | Set_statistics

text \<open>
  The members of the receiver with what Asio keeps for it. \<open>traffic_ready\<close> is a completed receive, its
  error and its size. A wait of the timer knows if its handler is bound to the strand; the first is not,
  and \<open>unbound_display\<close> is its handler, ready. \<open>datagram_buffer\<close> holds the octets received so far into the
  buffer of a socket; the zeros behind are never read.
\<close>

record rtp_receiving =
  rx_state :: jpeg_receiver
  rx_open :: "family \<Rightarrow> bool"
  datagram_buffer :: "family \<Rightarrow> octets"
  receive_pending :: "family \<Rightarrow> bool"
  traffic_ready :: "family \<Rightarrow> (string option \<times> nat) option"
  strand_queue :: "strand_task list"
  timer_wait :: "bool option"
  unbound_display :: bool
  display_expiry :: int
  shown_frames :: "octets list"
  shown_statistics :: "statistics list"
  rx_reported :: "exn list"
  rx_clock :: int

definition frame_period :: int where "frame_period = 40"

definition start_rtp_receive :: "family \<Rightarrow> rtp_receiving \<Rightarrow> rtp_receiving" where
  "start_rtp_receive fam s = s\<lparr>receive_pending := (receive_pending s)(fam := True)\<rparr>"

subsection \<open>The functions that run on the strand\<close>

definition arm_display :: "rtp_receiving \<Rightarrow> rtp_receiving" where
  "arm_display s = s\<lparr>display_expiry := rx_clock s + 20, timer_wait := Some False\<rparr>"

definition receive_message :: "spirit \<Rightarrow> octets \<Rightarrow> rtp_receiving \<Rightarrow> unit result \<times> rtp_receiving" where
  "receive_message sp message s =
     (let (res, r) = handle_new_incoming_message sp (rx_state s) message;
          s = s\<lparr>rx_state := r\<rparr>
      in case res of
           Inl e \<Rightarrow> (Inl e, s)
         | Inr None \<Rightarrow> (Inr (), s)
         | Inr (Some st) \<Rightarrow> (Inr (), s\<lparr>shown_statistics := shown_statistics s @ [st]\<rparr>))"

definition display_frame :: "string option \<Rightarrow> rtp_receiving \<Rightarrow> unit result \<times> rtp_receiving" where
  "display_frame error s =
     (let (res, r) = display_next_frame_timer_handler (rx_state s) (error \<noteq> None)
      in case res of
           Inl e \<Rightarrow> (Inl e, s)
         | Inr frame \<Rightarrow>
             (Inr (), s\<lparr>rx_state := r,
                shown_frames := shown_frames s @ (case frame of None \<Rightarrow> [] | Some d \<Rightarrow> [d]),
                display_expiry := display_expiry s + frame_period, timer_wait := Some True\<rparr>))"

fun run_task :: "spirit \<Rightarrow> strand_task \<Rightarrow> rtp_receiving \<Rightarrow> unit result \<times> rtp_receiving" where
  "run_task sp Arm_display s = (Inr (), arm_display s)"
| "run_task sp (Message fam message) s = receive_message sp message s"
| "run_task sp (Display error) s = display_frame error s"
| "run_task sp Set_statistics s = (Inr (), s\<lparr>rx_state := set_statistics_handler (rx_state s)\<rparr>)"

text \<open>\<open>boost::asio::dispatch\<close> to the strand; \<open>busy\<close> says that a thread is running a function of the strand.\<close>

definition strand_dispatch ::
    "spirit \<Rightarrow> bool \<Rightarrow> strand_task \<Rightarrow> rtp_receiving \<Rightarrow> unit result \<times> rtp_receiving" where
  "strand_dispatch sp busy task s =
     (if busy \<or> strand_queue s \<noteq> [] then (Inr (), s\<lparr>strand_queue := strand_queue s @ [task]\<rparr>)
      else run_task sp task s)"

subsection \<open>The constructor and the receive loops\<close>

text \<open>
  The socket of IPv4 is opened by a member initialiser, whose exception leaves the constructor; that
  of IPv6 is opened in a \<open>try\<close> block. Both loops are started in any case.
\<close>

definition rtp_receiving_new ::
    "spirit \<Rightarrow> u32 \<Rightarrow> (family \<Rightarrow> bool) \<Rightarrow> bool \<Rightarrow> int \<Rightarrow> rtp_receiving result" where
  "rtp_receiving_new sp own_ssrc can_bind busy now =
     (if \<not> can_bind Family_v4 then Inl System_error
      else
      let s = \<lparr>rx_state = new_jpeg_receiver own_ssrc, rx_open = can_bind, datagram_buffer = (\<lambda>_. []),
               receive_pending = (\<lambda>_. False), traffic_ready = Map.empty, strand_queue = [],
               timer_wait = None, unbound_display = False, display_expiry = 0, shown_frames = [],
               shown_statistics = [], rx_reported = [], rx_clock = now\<rparr>;
          (res, s) = strand_dispatch sp busy Arm_display s
      in rbind res (\<lambda>_. Inr (start_rtp_receive Family_v6 (start_rtp_receive Family_v4 s))))"

text \<open>The next receive is started after the dispatch, hence not when an exception leaves it.\<close>

definition handle_rtp_traffic ::
    "spirit \<Rightarrow> bool \<Rightarrow> family \<Rightarrow> string option \<Rightarrow> nat \<Rightarrow> rtp_receiving \<Rightarrow> unit result \<times> rtp_receiving"
where
  "handle_rtp_traffic sp busy fam error received_bytes s =
     (case error of
        Some msg \<Rightarrow> (Inl (Runtime_error msg), s)
      | None \<Rightarrow>
          (let data = take received_bytes (datagram_buffer s fam)
           in case strand_dispatch sp busy (Message fam data) s of
                (Inl e, s) \<Rightarrow> (Inl e, s)
              | (Inr _, s) \<Rightarrow> (Inr (), start_rtp_receive fam s)))"

subsection \<open>Events\<close>

text \<open>
  A datagram arrives, a receive fails, a thread runs the handler of a receive or the next function of
  the strand, the timer expires, the first display handler runs, the client sets the statistics handler,
  time passes. A flag says if the strand is busy. An exception of a handler goes to the error handler;
  after undefined behaviour there is no next state.
\<close>

datatype rx_event =
    Datagram_arrives family octets
  | Receive_fails family string
  | Traffic_runs family bool
  | Strand_runs
  | Display_timer_expires
  | First_display_runs
  | Statistics_requested bool
  | Milliseconds int

definition after_handler :: "unit result \<times> rtp_receiving \<Rightarrow> rtp_receiving option" where
  "after_handler x =
     (case x of
        (Inr _, s) \<Rightarrow> Some s
      | (Inl (Undefined_behaviour _), s) \<Rightarrow> None
      | (Inl e, s) \<Rightarrow> Some (s\<lparr>rx_reported := rx_reported s @ [e]\<rparr>))"

fun rx_step :: "spirit \<Rightarrow> rx_event \<Rightarrow> rtp_receiving \<Rightarrow> rtp_receiving option" where
  "rx_step sp (Datagram_arrives fam d) s =
     (if receive_pending s fam \<and> rx_open s fam \<and> length d \<le> 65535
      then Some (s\<lparr>receive_pending := (receive_pending s)(fam := False),
             datagram_buffer := (datagram_buffer s)(fam := d @ drop (length d) (datagram_buffer s fam)),
             traffic_ready := (traffic_ready s)(fam \<mapsto> (None, length d))\<rparr>)
      else None)"
| "rx_step sp (Receive_fails fam msg) s =
     (if receive_pending s fam
      then Some (s\<lparr>receive_pending := (receive_pending s)(fam := False),
             traffic_ready := (traffic_ready s)(fam \<mapsto> (Some msg, 0))\<rparr>)
      else None)"
| "rx_step sp (Traffic_runs fam busy) s =
     (case traffic_ready s fam of
        None \<Rightarrow> None
      | Some (error, n) \<Rightarrow>
          after_handler (handle_rtp_traffic sp busy fam error n
            (s\<lparr>traffic_ready := (traffic_ready s)(fam := None)\<rparr>)))"
| "rx_step sp Strand_runs s =
     (case strand_queue s of
        [] \<Rightarrow> None
      | task # queue \<Rightarrow> after_handler (run_task sp task (s\<lparr>strand_queue := queue\<rparr>)))"
| "rx_step sp Display_timer_expires s =
     (case timer_wait s of
        None \<Rightarrow> None
      | Some bound \<Rightarrow>
          if rx_clock s < display_expiry s then None
          else Some ((if bound then s\<lparr>strand_queue := strand_queue s @ [Display None]\<rparr>
                      else s\<lparr>unbound_display := True\<rparr>)\<lparr>timer_wait := None\<rparr>))"
| "rx_step sp First_display_runs s =
     (if unbound_display s then after_handler (display_frame None (s\<lparr>unbound_display := False\<rparr>))
      else None)"
| "rx_step sp (Statistics_requested busy) s = after_handler (strand_dispatch sp busy Set_statistics s)"
| "rx_step sp (Milliseconds d) s = (if 0 \<le> d then Some (s\<lparr>rx_clock := rx_clock s + d\<rparr>) else None)"

fun rx_steps :: "spirit \<Rightarrow> rx_event list \<Rightarrow> rtp_receiving \<Rightarrow> rtp_receiving option" where
  "rx_steps sp [] s = Some s"
| "rx_steps sp (e # es) s = (case rx_step sp e s of None \<Rightarrow> None | Some t \<Rightarrow> rx_steps sp es t)"

text \<open>The runs of a receiver that was created at a time.\<close>

inductive rx_run :: "spirit \<Rightarrow> u32 \<Rightarrow> int \<Rightarrow> rx_event list \<Rightarrow> rtp_receiving \<Rightarrow> bool"
  for sp own_ssrc now where
  constructed: "rtp_receiving_new sp own_ssrc can_bind busy now = Inr s \<Longrightarrow> rx_run sp own_ssrc now [] s"
| happens: "rx_run sp own_ssrc now events s \<Longrightarrow> rx_step sp e s = Some t \<Longrightarrow>
    rx_run sp own_ssrc now (events @ [e]) t"

definition fresh_receiver :: "spirit \<Rightarrow> u32 \<Rightarrow> int \<Rightarrow> rtp_receiving \<Rightarrow> bool" where
  "fresh_receiver sp own_ssrc now s \<longleftrightarrow>
     (\<exists>can_bind busy. rtp_receiving_new sp own_ssrc can_bind busy now = Inr s)"

interpretation receiver:
  event_process "rx_step sp" "rx_steps sp" "fresh_receiver sp own_ssrc now" "rx_run sp own_ssrc now"
  for sp own_ssrc now
proof
  fix es s and P :: "rx_event list \<Rightarrow> rtp_receiving \<Rightarrow> bool"
  assume "rx_run sp own_ssrc now es s"
    and "\<And>s. fresh_receiver sp own_ssrc now s \<Longrightarrow> P [] s"
    and "\<And>es s e t. rx_run sp own_ssrc now es s \<Longrightarrow> P es s \<Longrightarrow> rx_step sp e s = Some t \<Longrightarrow> P (es @ [e]) t"
  then show "P es s"
    by (induction rule: rx_run.induct) (auto simp: fresh_receiver_def)
qed (auto simp: fresh_receiver_def intro: rx_run.intros split: option.split)

lemma after_handlerE:
  assumes "after_handler (res, t) = Some u"
  obtains "res = Inr ()" "u = t" | e where "res = Inl e" "u = t\<lparr>rx_reported := rx_reported t @ [e]\<rparr>"
  using assms by (cases res) (auto simp: after_handler_def split: exn.splits)

lemma run_task_frame:
  assumes "run_task sp task s = (res, t)"
  shows "receive_pending t = receive_pending s" "traffic_ready t = traffic_ready s"
    "strand_queue t = strand_queue s" "datagram_buffer t = datagram_buffer s" "rx_open t = rx_open s"
    "rx_clock t = rx_clock s" "unbound_display t = unbound_display s"
  using assms
  by (cases task; auto simp: arm_display_def receive_message_def display_frame_def Let_def
      split: prod.splits sum.splits option.splits)+

subsection \<open>The strand makes the handlers a sequence\<close>

text \<open>What an event runs, and the sequential receiver that runs the same.\<close>

fun executes :: "rx_event \<Rightarrow> rtp_receiving \<Rightarrow> strand_task list" where
  "executes (Traffic_runs fam busy) s =
     (case traffic_ready s fam of
        Some (None, n) \<Rightarrow>
          if busy \<or> strand_queue s \<noteq> [] then [] else [Message fam (take n (datagram_buffer s fam))]
      | _ \<Rightarrow> [])"
| "executes Strand_runs s = take 1 (strand_queue s)"
| "executes First_display_runs s = [Display None]"
| "executes (Statistics_requested busy) s = (if busy \<or> strand_queue s \<noteq> [] then [] else [Set_statistics])"
| "executes _ s = []"

fun executed :: "spirit \<Rightarrow> rx_event list \<Rightarrow> rtp_receiving \<Rightarrow> strand_task list" where
  "executed sp [] s = []"
| "executed sp (e # es) s =
     executes e s @ (case rx_step sp e s of None \<Rightarrow> [] | Some t \<Rightarrow> executed sp es t)"

fun serial_task :: "spirit \<Rightarrow> strand_task \<Rightarrow> jpeg_receiver \<times> octets list \<Rightarrow> jpeg_receiver \<times> octets list" where
  "serial_task sp Arm_display x = x"
| "serial_task sp (Message fam message) (r, shown) = (snd (handle_new_incoming_message sp r message), shown)"
| "serial_task sp (Display error) (r, shown) =
     (case display_next_frame_timer_handler r (error \<noteq> None) of
        (Inr (Some d), r') \<Rightarrow> (r', shown @ [d])
      | (Inr None, r') \<Rightarrow> (r', shown)
      | (Inl e, r') \<Rightarrow> (r, shown))"
| "serial_task sp Set_statistics (r, shown) = (set_statistics_handler r, shown)"

abbreviation rx_view :: "rtp_receiving \<Rightarrow> jpeg_receiver \<times> octets list" where
  "rx_view s \<equiv> (rx_state s, shown_frames s)"

lemma run_task_serial: "run_task sp task s = (res, t) \<Longrightarrow> rx_view t = serial_task sp task (rx_view s)"
  by (cases task) (auto simp: arm_display_def receive_message_def display_frame_def Let_def
      split: prod.splits sum.splits option.splits)

lemma dispatch_cases:
  assumes "strand_dispatch sp busy task s = (res, t)"
  obtains (queued) "busy \<or> strand_queue s \<noteq> []" "res = Inr ()" "t = s\<lparr>strand_queue := strand_queue s @ [task]\<rparr>"
    | (runs) "\<not> busy" "strand_queue s = []" "run_task sp task s = (res, t)"
  using assms by (auto simp: strand_dispatch_def split: if_splits)

text \<open>The handler of a receive, by outcome.\<close>

lemma traffic_cases:
  assumes "rx_step sp (Traffic_runs fam busy) s = Some u"
  obtains (failed) msg n where "traffic_ready s fam = Some (Some msg, n)"
      "u = s\<lparr>traffic_ready := (traffic_ready s)(fam := None),
             rx_reported := rx_reported s @ [Runtime_error msg]\<rparr>"
    | (queued) n where "traffic_ready s fam = Some (None, n)" "busy \<or> strand_queue s \<noteq> []"
      "u = s\<lparr>traffic_ready := (traffic_ready s)(fam := None),
             strand_queue := strand_queue s @ [Message fam (take n (datagram_buffer s fam))],
             receive_pending := (receive_pending s)(fam := True)\<rparr>"
    | (handled) n t where "traffic_ready s fam = Some (None, n)" "\<not> busy" "strand_queue s = []"
      "receive_message sp (take n (datagram_buffer s fam))
         (s\<lparr>traffic_ready := (traffic_ready s)(fam := None)\<rparr>) = (Inr (), t)"
      "u = start_rtp_receive fam t"
    | (throws) n t e where "traffic_ready s fam = Some (None, n)" "\<not> busy" "strand_queue s = []"
      "receive_message sp (take n (datagram_buffer s fam))
         (s\<lparr>traffic_ready := (traffic_ready s)(fam := None)\<rparr>) = (Inl e, t)"
      "u = t\<lparr>rx_reported := rx_reported t @ [e]\<rparr>"
proof -
  let ?s = "s\<lparr>traffic_ready := (traffic_ready s)(fam := None)\<rparr>"
  obtain error n where ready: "traffic_ready s fam = Some (error, n)"
    and run: "after_handler (handle_rtp_traffic sp busy fam error n ?s) = Some u"
    using assms by (auto split: option.splits prod.splits)
  show ?thesis
  proof (cases error)
    case (Some msg)
    then show ?thesis using ready run failed by (simp add: handle_rtp_traffic_def after_handler_def)
  next
    case None
    let ?d = "take n (datagram_buffer s fam)"
    obtain res t where d: "strand_dispatch sp busy (Message fam ?d) ?s = (res, t)" by force
    from d show ?thesis
    proof (cases rule: dispatch_cases)
      case q: queued
      then show ?thesis
        using ready run None d queued
        by (simp add: handle_rtp_traffic_def after_handler_def start_rtp_receive_def)
    next
      case r: runs
      then show ?thesis
        using ready run None d handled throws
        by (cases res) (auto simp: handle_rtp_traffic_def elim!: after_handlerE)
    qed
  qed
qed

lemma step_serial:
  assumes "rx_step sp e s = Some u"
  shows "rx_view u = fold (serial_task sp) (executes e s) (rx_view s)"
proof (cases e)
  case (Traffic_runs fam busy)
  have message: "rx_view t = (snd (handle_new_incoming_message sp (rx_state s) d), shown_frames s)"
    if "receive_message sp d (s\<lparr>traffic_ready := y\<rparr>) = (res, t)" for d y res t
    using run_task_serial [of sp "Message fam d" "s\<lparr>traffic_ready := y\<rparr>" res t] that by simp
  from assms [unfolded Traffic_runs] show ?thesis
    by (cases rule: traffic_cases) (auto simp: Traffic_runs start_rtp_receive_def dest!: message)
next
  case Strand_runs
  then obtain task queue where q: "strand_queue s = task # queue" using assms by (cases "strand_queue s") auto
  obtain res t where r: "run_task sp task (s\<lparr>strand_queue := queue\<rparr>) = (res, t)" by force
  then show ?thesis using assms Strand_runs q run_task_serial [OF r] by (auto elim!: after_handlerE)
next
  case First_display_runs
  obtain res t where r: "display_frame None (s\<lparr>unbound_display := False\<rparr>) = (res, t)" by force
  then show ?thesis
    using assms First_display_runs run_task_serial [of sp "Display None" "s\<lparr>unbound_display := False\<rparr>" res t]
    by (auto split: if_splits elim!: after_handlerE)
next
  case (Statistics_requested busy)
  obtain res t where d: "strand_dispatch sp busy Set_statistics s = (res, t)" by force
  then show ?thesis using assms Statistics_requested by (auto simp: strand_dispatch_def split: if_splits elim!: after_handlerE)
qed (use assms in \<open>auto split: if_splits option.splits\<close>)

lemma steps_serial:
  "rx_steps sp es s = Some t \<Longrightarrow> rx_view t = fold (serial_task sp) (executed sp es s) (rx_view s)"
  by (induction es arbitrary: s) (auto split: option.splits dest: step_serial)

text \<open>The sequential receiver has the histories of the receiver's own theory.\<close>

lemma serial_reach:
  "rx_reach sp own acc shown n r \<Longrightarrow> fold (serial_task sp) tasks (r, shown) = (r', shown') \<Longrightarrow>
   \<exists>acc' n'. rx_reach sp own acc' shown' n' r'"
proof (induction tasks arbitrary: acc shown n r)
  case (Cons task tasks)
  have "\<exists>acc' n'. rx_reach sp own acc' (snd (serial_task sp task (r, shown))) n' (fst (serial_task sp task (r, shown)))"
  proof (cases task)
    case (Message fam message)
    then show ?thesis using rx_reach.datagram [OF Cons.prems(1) surjective_pairing] by auto
  next
    case (Display error)
    then show ?thesis
      using Cons.prems(1) rx_reach.display [OF Cons.prems(1)]
      by (cases "error = None"; fastforce simp: display_next_frame_timer_handler_def split: list.splits)
  next
    case Set_statistics
    then show ?thesis using rx_reach.observe [OF Cons.prems(1)] by auto
  qed (use Cons.prems(1) in auto)
  then show ?case using Cons.IH Cons.prems(2) by (metis fold_simps(2) prod.collapse)
qed auto

subsection \<open>Datagrams stay in order\<close>

definition messages :: "family \<Rightarrow> strand_task list \<Rightarrow> octets list" where
  "messages fam tasks = concat (map (\<lambda>t. case t of Message f d \<Rightarrow> if f = fam then [d] else [] | _ \<Rightarrow> []) tasks)"

lemma messages_simps [simp]:
  "messages fam [] = []" "messages fam (xs @ ys) = messages fam xs @ messages fam ys"
  "messages fam (Message f d # ts) = (if f = fam then d # messages fam ts else messages fam ts)"
  "messages fam (Arm_display # ts) = messages fam ts" "messages fam (Display err # ts) = messages fam ts"
  "messages fam (Set_statistics # ts) = messages fam ts"
  by (simp_all add: messages_def)

fun arrived :: "family \<Rightarrow> rx_event \<Rightarrow> octets list" where
  "arrived fam (Datagram_arrives f d) = (if f = fam then [d] else [])"
| "arrived fam _ = []"

definition arrivals :: "family \<Rightarrow> rx_event list \<Rightarrow> octets list" where
  "arrivals fam es = concat (map (arrived fam) es)"

fun completed :: "(string option \<times> nat) option \<Rightarrow> octets \<Rightarrow> octets list" where
  "completed (Some (None, n)) buffer = [take n buffer]"
| "completed _ buffer = []"

definition waiting :: "family \<Rightarrow> rtp_receiving \<Rightarrow> octets list" where
  "waiting fam s = messages fam (strand_queue s) @ completed (traffic_ready s fam) (datagram_buffer s fam)"

definition one_receive :: "rtp_receiving \<Rightarrow> bool" where
  "one_receive s \<longleftrightarrow> (\<forall>fam. receive_pending s fam \<longrightarrow> traffic_ready s fam = None)"

lemma receive_message_frame:
  assumes "receive_message sp d s = (res, t)"
  shows "receive_pending t = receive_pending s \<and> traffic_ready t = traffic_ready s \<and>
    strand_queue t = strand_queue s \<and> datagram_buffer t = datagram_buffer s \<and> rx_open t = rx_open s \<and>
    rx_clock t = rx_clock s \<and> unbound_display t = unbound_display s \<and> timer_wait t = timer_wait s \<and>
    display_expiry t = display_expiry s \<and> shown_frames t = shown_frames s \<and>
    (isl res \<longleftrightarrow> isl (fst (handle_new_incoming_message sp (rx_state s) d)))"
  using assms by (auto simp: receive_message_def Let_def split: prod.splits sum.splits option.splits)

text \<open>The events that only run a function, or put it into the queue of the strand.\<close>

lemma quiet_step:
  assumes "rx_step sp e s = Some u"
    and "e \<in> {Strand_runs, Display_timer_expires, First_display_runs} \<union> range Statistics_requested \<union> range Milliseconds"
  shows "receive_pending u = receive_pending s" "traffic_ready u = traffic_ready s"
    "datagram_buffer u = datagram_buffer s"
    "messages fam (strand_queue s) = messages fam (executes e s) @ messages fam (strand_queue u)"
proof -
  have frame: "receive_pending t = receive_pending s' \<and> traffic_ready t = traffic_ready s' \<and>
      datagram_buffer t = datagram_buffer s' \<and> strand_queue t = strand_queue s'"
    if "run_task sp task s' = (res, t)" for task s' res t
    using run_task_frame [OF that] by simp
  have "receive_pending u = receive_pending s \<and> traffic_ready u = traffic_ready s \<and>
    datagram_buffer u = datagram_buffer s \<and>
    messages fam (strand_queue s) = messages fam (executes e s) @ messages fam (strand_queue u)"
  proof (cases e)
    case Strand_runs
    then obtain task queue where q: "strand_queue s = task # queue" using assms(1) by (cases "strand_queue s") auto
    obtain res t where r: "run_task sp task (s\<lparr>strand_queue := queue\<rparr>) = (res, t)" by force
    have "messages fam (task # queue) = messages fam [task] @ messages fam queue"
      by (cases task) simp_all
    then show ?thesis using assms(1) Strand_runs q r frame [OF r] by (auto elim!: after_handlerE)
  next
    case First_display_runs
    obtain res t where r: "run_task sp (Display None) (s\<lparr>unbound_display := False\<rparr>) = (res, t)" by force
    then show ?thesis
      using assms(1) First_display_runs frame [OF r] by (auto split: if_splits elim!: after_handlerE)
  next
    case (Statistics_requested busy)
    obtain res t where "strand_dispatch sp busy Set_statistics s = (res, t)" by force
    then show ?thesis
      using assms(1) Statistics_requested
      by (auto simp: strand_dispatch_def split: if_splits elim!: after_handlerE)
  qed (use assms in \<open>auto split: if_splits option.splits\<close>)
  then show "receive_pending u = receive_pending s" "traffic_ready u = traffic_ready s"
    "datagram_buffer u = datagram_buffer s"
    "messages fam (strand_queue s) = messages fam (executes e s) @ messages fam (strand_queue u)"
    by blast+
qed

lemma step_one_receive:
  assumes "one_receive s" and "rx_step sp e s = Some u"
  shows "one_receive u"
proof (cases e)
  case (Traffic_runs fam busy)
  from assms(2) [unfolded Traffic_runs] show ?thesis
    using assms(1)
    by (cases rule: traffic_cases)
      (auto simp: one_receive_def start_rtp_receive_def dest!: receive_message_frame split: if_splits)
qed (use assms quiet_step(1,2) [OF assms(2)] in \<open>auto simp: one_receive_def split: if_splits\<close>)

lemma step_waiting:
  assumes "one_receive s" and "rx_step sp e s = Some u"
  shows "waiting fam s @ arrived fam e = messages fam (executes e s) @ waiting fam u"
proof (cases e)
  case (Datagram_arrives f d)
  then have "receive_pending s f" using assms(2) by (auto split: if_splits)
  then have "traffic_ready s f = None" using assms(1) by (auto simp: one_receive_def)
  then show ?thesis
    using assms(2) Datagram_arrives by (cases "f = fam") (auto simp: waiting_def split: if_splits)
next
  case (Receive_fails f msg)
  then have "receive_pending s f" using assms(2) by (auto split: if_splits)
  then have "traffic_ready s f = None" using assms(1) by (auto simp: one_receive_def)
  then show ?thesis
    using assms(2) Receive_fails by (cases "f = fam") (auto simp: waiting_def split: if_splits)
next
  case (Traffic_runs f busy)
  from assms(2) [unfolded Traffic_runs] show ?thesis
    using assms(1)
    by (cases rule: traffic_cases)
      (auto simp: Traffic_runs waiting_def start_rtp_receive_def dest!: receive_message_frame)
qed (use assms quiet_step [OF assms(2)] in \<open>auto simp: waiting_def one_receive_def split: if_splits\<close>)

lemma steps_waiting:
  "one_receive s \<Longrightarrow> rx_steps sp es s = Some t \<Longrightarrow>
   waiting fam s @ arrivals fam es = messages fam (executed sp es s) @ waiting fam t"
proof (induction es arbitrary: s)
  case (Cons e es)
  then obtain u where u: "rx_step sp e s = Some u" "rx_steps sp es u = Some t" by (elim receiver.steps_ConsE)
  from Cons.IH [OF step_one_receive [OF Cons.prems(1) u(1)] u(2)] step_waiting [OF Cons.prems(1) u(1), of fam]
  show ?case by (simp add: arrivals_def u(1) flip: append_assoc) (simp add: append_assoc)
qed (simp add: arrivals_def)

subsection \<open>Reception\<close>

text \<open>
  A socket receives while a receive is under way or its handler is ready. It stops when that handler
  throws: for a failed receive, and for a datagram that is handled at once and makes its handler throw.
\<close>

definition receiving :: "family \<Rightarrow> rtp_receiving \<Rightarrow> bool" where
  "receiving fam s \<longleftrightarrow> receive_pending s fam \<or> traffic_ready s fam \<noteq> None"

fun stops :: "spirit \<Rightarrow> family \<Rightarrow> rx_event \<Rightarrow> rtp_receiving \<Rightarrow> bool" where
  "stops sp fam (Traffic_runs f busy) s \<longleftrightarrow> f = fam \<and>
     (case traffic_ready s f of
        None \<Rightarrow> False
      | Some (Some msg, n) \<Rightarrow> True
      | Some (None, n) \<Rightarrow> \<not> busy \<and> strand_queue s = [] \<and>
          isl (fst (handle_new_incoming_message sp (rx_state s) (take n (datagram_buffer s f)))))"
| "stops sp fam _ s \<longleftrightarrow> False"

fun stopped :: "spirit \<Rightarrow> family \<Rightarrow> rx_event list \<Rightarrow> rtp_receiving \<Rightarrow> bool" where
  "stopped sp fam [] s \<longleftrightarrow> False"
| "stopped sp fam (e # es) s \<longleftrightarrow> stops sp fam e s \<or>
     (case rx_step sp e s of None \<Rightarrow> False | Some t \<Rightarrow> stopped sp fam es t)"

lemma step_reception:
  assumes "one_receive s" and "rx_step sp e s = Some u"
  shows "receiving fam u \<longleftrightarrow> receiving fam s \<and> \<not> stops sp fam e s"
proof (cases e)
  case (Traffic_runs f busy)
  from assms(2) [unfolded Traffic_runs] show ?thesis
    using assms(1)
    by (cases rule: traffic_cases)
      (auto simp: Traffic_runs receiving_def one_receive_def start_rtp_receive_def
        dest!: receive_message_frame split: if_splits)
qed (use assms quiet_step(1,2) [OF assms(2)] in \<open>auto simp: receiving_def split: if_splits\<close>)

lemma steps_reception:
  "one_receive s \<Longrightarrow> rx_steps sp es s = Some t \<Longrightarrow>
   receiving fam t \<longleftrightarrow> receiving fam s \<and> \<not> stopped sp fam es s"
proof (induction es arbitrary: s)
  case (Cons e es)
  then obtain u where u: "rx_step sp e s = Some u" "rx_steps sp es u = Some t" by (elim receiver.steps_ConsE)
  from Cons.IH [OF step_one_receive [OF Cons.prems(1) u(1)] u(2)] step_reception [OF Cons.prems(1) u(1), of fam]
  show ?case by (auto simp: u(1))
qed simp

lemma constructed_receiver:
  assumes "rtp_receiving_new sp own can_bind busy now = Inr s"
  shows "one_receive s" "receiving fam s" "waiting fam s = []" "rx_view s = (new_jpeg_receiver own, [])"
    "rx_open s = can_bind" "can_bind Family_v4"
  using assms
  by (cases fam; auto simp: rtp_receiving_new_def strand_dispatch_def arm_display_def start_rtp_receive_def
      one_receive_def receiving_def waiting_def Let_def split: if_splits)+

interpretation sockets: process_invariant "rx_step sp" "rx_steps sp" "fresh_receiver sp own_ssrc now"
    "rx_run sp own_ssrc now" one_receive
  for sp own_ssrc now
  by unfold_locales (auto simp: fresh_receiver_def constructed_receiver step_one_receive)

subsection \<open>The display\<close>

text \<open>
  The timer is always armed once: as a function that waits for the strand, as a wait, or as a
  ready handler. The invariant counts the displays so far.
\<close>

definition display_tasks :: "rtp_receiving \<Rightarrow> strand_task list" where
  "display_tasks s = filter (\<lambda>t. case t of Arm_display \<Rightarrow> True | Display err \<Rightarrow> True | _ \<Rightarrow> False) (strand_queue s)"

definition display_on_time :: "int \<Rightarrow> nat \<Rightarrow> rtp_receiving \<Rightarrow> bool" where
  "display_on_time now k s \<longleftrightarrow> now + 20 + frame_period * int k \<le> display_expiry s \<and>
     (timer_wait s = None \<longrightarrow> display_expiry s \<le> rx_clock s) \<and>
     (0 < k \<longrightarrow> now + frame_period * int k \<le> rx_clock s + 20)"

definition display_inv :: "int \<Rightarrow> nat \<Rightarrow> rtp_receiving \<Rightarrow> bool" where
  "display_inv now k s \<longleftrightarrow> now \<le> rx_clock s \<and> length (shown_frames s) \<le> k \<and>
     (display_tasks s = [Arm_display] \<and> timer_wait s = None \<and> \<not> unbound_display s \<and> k = 0 \<or>
      display_tasks s = [Display None] \<and> timer_wait s = None \<and> \<not> unbound_display s \<and> display_on_time now k s \<or>
      display_tasks s = [] \<and> unbound_display s = (timer_wait s = None) \<and> display_on_time now k s)"

lemma display_tasks_simps [simp]:
  "display_tasks (s\<lparr>strand_queue := task # queue\<rparr>) =
     (case task of Arm_display \<Rightarrow> [task] | Display err \<Rightarrow> [task] | _ \<Rightarrow> []) @ display_tasks (s\<lparr>strand_queue := queue\<rparr>)"
  "display_tasks (s\<lparr>strand_queue := queue @ [task]\<rparr>) = display_tasks (s\<lparr>strand_queue := queue\<rparr>) @
     (case task of Arm_display \<Rightarrow> [task] | Display err \<Rightarrow> [task] | _ \<Rightarrow> [])"
  by (auto simp: display_tasks_def split: strand_task.splits)

lemma display_tasks_cong: "strand_queue t = strand_queue s \<Longrightarrow> display_tasks t = display_tasks s"
  by (simp add: display_tasks_def)

text \<open>Events that leave the timer alone.\<close>

lemma display_inv_cong:
  assumes "display_inv now k s" and "rx_clock t = rx_clock s" and "shown_frames t = shown_frames s"
    and "timer_wait t = timer_wait s" and "unbound_display t = unbound_display s"
    and "display_expiry t = display_expiry s" and "display_tasks t = display_tasks s"
  shows "display_inv now k t"
  using assms by (simp add: display_inv_def display_on_time_def)

text \<open>A display, whose handler was taken from the queue or from the ready handlers.\<close>

lemma display_frame_inv:
  assumes "display_frame None s = (res, t)" and "display_on_time now k s" and "now \<le> rx_clock s"
    and "timer_wait s = None" and "length (shown_frames s) \<le> k" and "display_tasks s = []" and "\<not> unbound_display s"
  shows "res = Inr ()" "display_inv now (Suc k) t"
  using assms
  by (auto simp: display_frame_def display_next_frame_timer_handler_def display_inv_def display_on_time_def
      display_tasks_def frame_period_def split: list.splits)

lemma step_display:
  assumes "display_inv now k s" and "rx_step sp e s = Some u"
  shows "\<exists>k'. display_inv now k' u"
proof (cases e)
  case (Traffic_runs f busy)
  from assms(2) [unfolded Traffic_runs] have "display_inv now k u"
  proof (cases rule: traffic_cases)
    case (queued n)
    then show ?thesis
      by (intro display_inv_cong [OF assms(1)]) (simp_all add: display_tasks_def)
  qed (auto simp: start_rtp_receive_def intro!: display_inv_cong [OF assms(1)] dest!: receive_message_frame
      intro: display_tasks_cong)
  then show ?thesis by blast
next
  case Strand_runs
  then obtain task queue where q: "strand_queue s = task # queue" using assms(2) by (cases "strand_queue s") auto
  let ?s = "s\<lparr>strand_queue := queue\<rparr>"
  have tasks: "display_tasks s = (case task of Arm_display \<Rightarrow> [task] | Display err \<Rightarrow> [task] | _ \<Rightarrow> []) @ display_tasks ?s"
    using q by (auto simp: display_tasks_def split: strand_task.splits)
  obtain res t where r: "run_task sp task ?s = (res, t)" by force
  have u: "u = t \<or> (\<exists>es. u = t\<lparr>rx_reported := es\<rparr>)"
    using assms(2) Strand_runs q r by (auto elim!: after_handlerE)
  have "\<exists>k'. display_inv now k' t"
  proof (cases task)
    case Arm_display
    then show ?thesis
      using assms(1) r tasks
      by (intro exI [of _ 0]) (auto simp: display_inv_def display_on_time_def arm_display_def display_tasks_def)
  next
    case (Message f d)
    then show ?thesis
      using r tasks by (intro exI [of _ k] display_inv_cong [OF assms(1)])
        (auto dest!: receive_message_frame intro: display_tasks_cong)
  next
    case (Display err)
    then have "display_frame None ?s = (res, t)" and d: "display_tasks ?s = []" "err = None"
      "display_on_time now k ?s" "timer_wait ?s = None" "\<not> unbound_display ?s" "now \<le> rx_clock ?s"
      "length (shown_frames ?s) \<le> k"
      using assms(1) r tasks by (auto simp: display_inv_def display_on_time_def)
    from display_frame_inv [OF this(1) d(3,6,4,7,1,5)] show ?thesis by blast
  next
    case Set_statistics
    then show ?thesis
      using r tasks by (intro exI [of _ k] display_inv_cong [OF assms(1)]) (auto intro: display_tasks_cong)
  qed
  then obtain k' where "display_inv now k' t" by blast
  from display_inv_cong [OF this] u display_tasks_cong [of u t] show ?thesis by (intro exI [of _ k']) auto
next
  case Display_timer_expires
  then have "display_inv now k u"
    using assms by (auto simp: display_inv_def display_on_time_def display_tasks_def split: option.splits if_splits)
  then show ?thesis by blast
next
  case First_display_runs
  let ?s = "s\<lparr>unbound_display := False\<rparr>"
  have un: "unbound_display s" using assms(2) First_display_runs by (auto split: if_splits)
  obtain res t where r: "display_frame None ?s = (res, t)" by force
  have "display_tasks ?s = []" "display_on_time now k ?s" "timer_wait ?s = None" "\<not> unbound_display ?s"
    "now \<le> rx_clock ?s" "length (shown_frames ?s) \<le> k"
    using assms(1) un by (auto simp: display_inv_def display_on_time_def display_tasks_def)
  from display_frame_inv [OF r this(2,5,3,6,1,4)] show ?thesis
    using assms(2) First_display_runs un r by (auto simp: after_handler_def)
next
  case (Statistics_requested busy)
  then have "display_inv now k u"
    using assms(2) by (intro display_inv_cong [OF assms(1)])
      (auto simp: strand_dispatch_def after_handler_def display_tasks_def split: if_splits)
  then show ?thesis by blast
next
  case (Milliseconds d)
  then have u: "u = s\<lparr>rx_clock := rx_clock s + d\<rparr>" "0 \<le> d" using assms(2) by (auto split: if_splits)
  then have "display_on_time now k s \<Longrightarrow> display_on_time now k u" by (auto simp: display_on_time_def)
  moreover have "display_tasks u = display_tasks s" by (rule display_tasks_cong) (simp add: u)
  ultimately have "display_inv now k u" using assms(1) u(2) by (auto simp: display_inv_def u(1))
  then show ?thesis by blast
qed (use assms in \<open>auto intro!: exI [of _ k] display_inv_cong [OF assms(1)] simp: display_tasks_def split: if_splits\<close>)

lemma constructed_display:
  "rtp_receiving_new sp own can_bind busy now = Inr s \<Longrightarrow> display_inv now 0 s"
  by (auto simp: rtp_receiving_new_def strand_dispatch_def arm_display_def start_rtp_receive_def Let_def
      display_inv_def display_on_time_def display_tasks_def split: if_splits)

interpretation display: process_invariant "rx_step sp" "rx_steps sp" "fresh_receiver sp own_ssrc now"
    "rx_run sp own_ssrc now" "\<lambda>s. \<exists>k. display_inv now k s"
  for sp own_ssrc now
  by unfold_locales (use constructed_display step_display in \<open>unfold fresh_receiver_def, blast+\<close>)

subsection \<open>Properties\<close>


text \<open>
  Two datagrams of a source: the first is handled at once, the second waits for the strand; the first
  display handler runs outside the strand, in between.
\<close>

definition sample_receiving :: "u32 \<Rightarrow> rtp_receiving" where
  "sample_receiving own = projr (rtp_receiving_new octet_spirit own (\<lambda>_. True) False 0)"

definition two_arrive :: "rx_event list" where
  "two_arrive =
     [Datagram_arrives Family_v4 sample_jpeg_datagram, Traffic_runs Family_v4 False,
      Datagram_arrives Family_v4 second_jpeg_datagram, Traffic_runs Family_v4 True, Milliseconds 20,
      Display_timer_expires, First_display_runs]"

lemma sample_receiving_new:
  "rtp_receiving_new octet_spirit own (\<lambda>_. True) False 0 = Inr (sample_receiving own)"
  by (simp add: sample_receiving_def rtp_receiving_new_def strand_dispatch_def)

lemma sample_receiving_state:
  "sample_receiving own = \<lparr>rx_state = new_jpeg_receiver own, rx_open = (\<lambda>_. True), datagram_buffer = (\<lambda>_. []),
     receive_pending = (\<lambda>_. False)(Family_v4 := True, Family_v6 := True), traffic_ready = Map.empty,
     strand_queue = [], timer_wait = Some False, unbound_display = False, display_expiry = 20,
     shown_frames = [], shown_statistics = [], rx_reported = [], rx_clock = 0\<rparr>"
  by (simp add: sample_receiving_def rtp_receiving_new_def strand_dispatch_def arm_display_def start_rtp_receive_def)

lemma first_datagram:
  "fst (handle_new_incoming_message octet_spirit (new_jpeg_receiver 7) sample_jpeg_datagram) = Inr None"
  "jpeg_packet_frame_buffer
     (snd (handle_new_incoming_message octet_spirit (new_jpeg_receiver 7) sample_jpeg_datagram)) = []"
  by code_simp+

lemma foreign_datagram:
  "fst (handle_new_incoming_message octet_spirit (new_jpeg_receiver 8) sample_jpeg_datagram) =
     Inl (Runtime_error ''Got jpeg rtp packet with wrong ssrc, dropping'')"
  by code_simp

lemma two_arrive_runs:
  "\<exists>s. rx_steps octet_spirit two_arrive (sample_receiving 7) = Some s \<and>
     waiting Family_v4 s = [second_jpeg_datagram] \<and>
     executed octet_spirit two_arrive (sample_receiving 7) =
       [Message Family_v4 sample_jpeg_datagram, Display None]"
proof -
  obtain r where r: "handle_new_incoming_message octet_spirit (new_jpeg_receiver 7) sample_jpeg_datagram = (Inr None, r)"
      "jpeg_packet_frame_buffer r = []"
    using first_datagram by (metis prod.collapse)
  have len: "length sample_jpeg_datagram \<le> 65535" "length second_jpeg_datagram \<le> 65535"
    by (simp_all add: second_jpeg_datagram_def sample_jpeg_datagram_def)
  show ?thesis
    using r len
    by (simp add: two_arrive_def sample_receiving_state handle_rtp_traffic_def strand_dispatch_def after_handler_def
        receive_message_def start_rtp_receive_def display_frame_def display_next_frame_timer_handler_def waiting_def)
qed




text \<open>
  C24 (liveness): when a receiver goes on receiving. A socket of a receiver receives until the
  handler of a receive throws, and that is when the receive has failed, or when its datagram is
  handled at once, because the strand is free, and makes the handler throw, as any JPEG packet of
  another source does; then no datagram arrives on it any more. A datagram that has to
  wait for the strand may throw without that effect.
\<close>

theorem reception_ends:
  assumes "rtp_receiving_new sp own can_bind busy now = Inr s0" and "rx_steps sp events s0 = Some s"
  shows "(receiving fam s \<longleftrightarrow> \<not> stopped sp fam events s0) \<and>
    (\<not> receiving fam s \<longrightarrow> rx_steps sp (later @ [Datagram_arrives fam d]) s = None)"
proof -
  note one = constructed_receiver(1) [OF assms(1)]
  have "receiving fam s \<longleftrightarrow> \<not> stopped sp fam events s0"
    using steps_reception [OF one assms(2), of fam] constructed_receiver(2) [OF assms(1), of fam] by simp
  moreover have "rx_steps sp (later @ [Datagram_arrives fam d]) s = None" if "\<not> receiving fam s"
  proof (cases "rx_steps sp later s")
    case (Some t)
    have "one_receive s" by (rule sockets.inv_steps [OF one assms(2)])
    from steps_reception [OF this Some, of fam] that have "\<not> receive_pending t fam" by (simp add: receiving_def)
    then show ?thesis by (simp add: receiver.steps_append Some)
  qed (simp add: receiver.steps_append)
  ultimately show ?thesis by blast
qed

text \<open>One datagram of another source.\<close>

definition foreign_arrives :: "rx_event list" where
  "foreign_arrives = [Datagram_arrives Family_v4 sample_jpeg_datagram, Traffic_runs Family_v4 False]"

theorem reception_ends_witness:
  "\<exists>s. rx_steps octet_spirit foreign_arrives (sample_receiving 8) = Some s \<and> \<not> receiving Family_v4 s \<and>
     receiving Family_v6 s \<and> rx_steps octet_spirit [Datagram_arrives Family_v4 []] s = None"
proof -
  obtain r e where r: "handle_new_incoming_message octet_spirit (new_jpeg_receiver 8) sample_jpeg_datagram =
      (Inl (Runtime_error e), r)"
    using foreign_datagram by (metis prod.collapse)
  have "length sample_jpeg_datagram \<le> 65535" by (simp add: sample_jpeg_datagram_def)
  with r obtain s where s: "rx_steps octet_spirit foreign_arrives (sample_receiving 8) = Some s"
      "stopped octet_spirit Family_v4 foreign_arrives (sample_receiving 8)"
      "\<not> stopped octet_spirit Family_v6 foreign_arrives (sample_receiving 8)"
    by (simp add: foreign_arrives_def sample_receiving_state handle_rtp_traffic_def strand_dispatch_def
        after_handler_def receive_message_def)
  from reception_ends [OF sample_receiving_new s(1), of Family_v4 "[]" "[]"]
    reception_ends [OF sample_receiving_new s(1), of Family_v6] s
  show ?thesis by auto
qed



end
