(* ===== verification/Rtp_Destruction.thy ===== *)
theory Rtp_Destruction
  imports Rtp_Receiving
begin

section \<open>The end of a receiver\<close>

text \<open>
  The destructor of \<open>unicast_jpeg_rtp_receiver\<close>. A client replaces its receiver inside a handler of a
  SETUP response, while its context goes on, so what the old one has left behind still runs: the
  functions the destructor gives to busy strands, those that waited there, the handlers of completed
  operations, and those of operations that are cancelled when the sockets and the timer are
  destroyed. All hold a pointer to the receiver. (The destructor of the client stops the context and
  joins its threads first; nothing runs then.)
\<close>

subsection \<open>The two families of addresses\<close>

text \<open>They can be listed, so that a quantifier over the sockets of a receiver is executable.\<close>

instantiation family :: enum
begin

definition enum_family :: "family list" where
  "enum_family = [Family_v4, Family_v6]"

definition enum_all_family :: "(family \<Rightarrow> bool) \<Rightarrow> bool" where
  "enum_all_family P \<longleftrightarrow> P Family_v4 \<and> P Family_v6"

definition enum_ex_family :: "(family \<Rightarrow> bool) \<Rightarrow> bool" where
  "enum_ex_family P \<longleftrightarrow> P Family_v4 \<or> P Family_v6"

lemma all_families: "(\<forall>fam. P fam) \<longleftrightarrow> P Family_v4 \<and> P Family_v6"
  by (metis family.exhaust)

lemma some_family: "(\<exists>fam. P fam) \<longleftrightarrow> P Family_v4 \<or> P Family_v6"
  by (metis family.exhaust)

instance
  by standard
    (simp_all add: enum_family_def enum_all_family_def enum_ex_family_def all_families some_family set_eq_iff)

end

lemma card_families: "card {fam. P fam} = length (filter P [Family_v4, Family_v6])"
proof -
  have "{fam. P fam} = set (filter P [Family_v4, Family_v6])" by (auto simp: set_eq_iff all_families)
  then show ?thesis using distinct_card [of "filter P [Family_v4, Family_v6]"] by simp
qed

subsection \<open>The destructor\<close>

datatype left_over =
    Cancel_socket family
  | Cancel_timer
  | Queued strand_task
  | Receive_completed family "string option" nat
  | Display_completed "string option"

text \<open>
  \<open>busy_socket\<close> says for which sockets the strand is in use, \<open>busy\<close> that a thread runs a function of the
  strand of the handlers. The errors of the operations that did not complete are arguments.
  A function that runs at once finds the object intact and leaves nothing.
\<close>

definition rtp_receiver_destructor ::
    "(family \<Rightarrow> bool) \<Rightarrow> bool \<Rightarrow> (family \<Rightarrow> string) \<Rightarrow> string \<Rightarrow> rtp_receiving \<Rightarrow> left_over list" where
  "rtp_receiver_destructor busy_socket busy socket_error timer_error s =
     map Cancel_socket (filter busy_socket [Family_v4, Family_v6]) @
     map Queued (strand_queue s) @ (if busy \<or> strand_queue s \<noteq> [] then [Cancel_timer] else []) @
     concat (map (\<lambda>fam.
       (case traffic_ready s fam of None \<Rightarrow> [] | Some (error, n) \<Rightarrow> [Receive_completed fam error n]) @
       (if receive_pending s fam then [Receive_completed fam (Some (socket_error fam)) 0] else []))
       [Family_v4, Family_v6]) @
     (if unbound_display s then [Display_completed None] else []) @
     (case timer_wait s of None \<Rightarrow> [] | Some bound \<Rightarrow> [Display_completed (Some timer_error)])"

text \<open>
  How each of them ends. The handlers look at their error first and throw it; whatever goes on uses
  the members of an object that is gone.
\<close>

definition dangling :: exn where
  "dangling = Undefined_behaviour ''receiver is destroyed''"

fun run_left_over :: "left_over \<Rightarrow> exn" where
  "run_left_over (Receive_completed fam (Some msg) n) = Runtime_error msg"
| "run_left_over (Display_completed (Some msg)) = Runtime_error msg"
| "run_left_over (Queued (Display (Some msg))) = Runtime_error msg"
| "run_left_over _ = dangling"

subsection \<open>Properties\<close>

text \<open>A receiver at rest: nothing runs or waits on a strand, no datagram and no display is ready.\<close>

fun receive_succeeded :: "(string option \<times> nat) option \<Rightarrow> bool" where
  "receive_succeeded (Some (None, n)) \<longleftrightarrow> True"
| "receive_succeeded _ \<longleftrightarrow> False"

fun_cases receive_succeededE: "receive_succeeded t"

definition at_rest :: "(family \<Rightarrow> bool) \<Rightarrow> bool \<Rightarrow> rtp_receiving \<Rightarrow> bool" where
  "at_rest busy_socket busy s \<longleftrightarrow>
     \<not> (\<exists>fam. busy_socket fam) \<and> \<not> busy \<and> strand_queue s = [] \<and> \<not> unbound_display s \<and>
     (\<forall>fam. \<not> receive_succeeded (traffic_ready s fam))"

text \<open>At rest, the left-overs are the handlers of the receives and of the timer, each with an error.\<close>

lemma rest_left_overs:
  assumes "at_rest busy_socket busy s" and "one_receive s" and "display_inv now k s"
  shows "map run_left_over (rtp_receiver_destructor busy_socket busy socket_error timer_error s) =
    map (\<lambda>fam. Runtime_error (case traffic_ready s fam of Some (Some msg, n) \<Rightarrow> msg | _ \<Rightarrow> socket_error fam))
      (filter (\<lambda>fam. receiving fam s) [Family_v4, Family_v6]) @ [Runtime_error timer_error]"
proof -
  have wait: "\<exists>bound. timer_wait s = Some bound"
    using assms(1,3) by (auto simp: at_rest_def display_inv_def display_tasks_def)
  have traffic: "traffic_ready s fam = None \<or> (\<exists>msg n. traffic_ready s fam = Some (Some msg, n))" for fam
    using assms(1) unfolding at_rest_def by (metis receive_succeeded.simps(1) option.exhaust surj_pair)
  show ?thesis
    using wait traffic [of Family_v4] traffic [of Family_v6] assms(1,2)
    by (auto simp: rtp_receiver_destructor_def at_rest_def receiving_def one_receive_def)
qed

text \<open>Otherwise one of them goes on.\<close>

lemma unrest_left_over:
  assumes "\<not> at_rest busy_socket busy s"
  shows "dangling \<in> set (map run_left_over (rtp_receiver_destructor busy_socket busy socket_error timer_error s))"
proof -
  consider fam where "busy_socket fam" | "busy \<or> strand_queue s \<noteq> []" | "unbound_display s"
    | fam n where "traffic_ready s fam = Some (None, n)"
    using assms by (auto simp: at_rest_def elim!: receive_succeededE)
  then have "\<exists>x\<in>set (rtp_receiver_destructor busy_socket busy socket_error timer_error s).
      run_left_over x = dangling"
  proof cases
    case 1
    then show ?thesis by (cases fam) (auto simp: rtp_receiver_destructor_def)
  next
    case 4
    then show ?thesis by (cases fam) (auto simp: rtp_receiver_destructor_def)
  qed (auto simp: rtp_receiver_destructor_def)
  then show ?thesis by (auto simp: image_iff) metis
qed



end
