(* ===== verification/Rtp_Stream.thy ===== *)
theory Rtp_Stream
  imports Rtp_Receiving Rtp_Sender "HOL-Library.Sublist"
begin

section \<open>From the file to the display\<close>

text \<open>
  Sender, network and receiver together: the frames of a source are sent one datagram each, arrive in
  order at the sockets of a receiver, pass its strand and its two buffers and are shown.
\<close>

subsection \<open>Datagrams of a stream\<close>

text \<open>Datagrams that parse as the packets of frames, with consecutive numbers from a first one.\<close>

fun streams :: "spirit \<Rightarrow> u32 \<Rightarrow> u16 \<Rightarrow> octets list \<Rightarrow> octets list \<Rightarrow> bool" where
  "streams sp own n [] [] \<longleftrightarrow> True"
| "streams sp own n (m # ms) (f # fs) \<longleftrightarrow>
     (\<exists>p. custom_jpeg_parse sp new_jpeg_packet m = (True, p, []) \<and> ssrc (jpeg_header p) = own \<and>
        sequence_number (jpeg_header p) = n \<and> jpeg_data p = f \<and> 2 \<le> length f) \<and>
     streams sp own (n + 1) ms fs"
| "streams sp own n _ _ \<longleftrightarrow> False"

lemma streams_length: "streams sp own n ms fs \<Longrightarrow> length ms = length fs"
  by (induction sp own n ms fs rule: streams.induct) auto

lemma streams_prefix:
  "streams sp own n ms fs \<Longrightarrow> prefix ms' ms \<Longrightarrow> streams sp own n ms' (take (length ms') fs)"
  by (induction sp own n ms fs arbitrary: ms' rule: streams.induct) (auto simp: prefix_Cons)

lemma sender_streams:
  assumes "spirit_octets sp" and "\<forall>f\<in>set fs. 2 \<le> length f"
  shows "streams sp (tx_ssrc s) (current_sequence_number s)
    (map (\<lambda>p. snd (custom_jpeg_generate sp p)) (packets_for s fs)) fs"
  using assms(2)
proof (induction fs arbitrary: s)
  case (Cons f fs)
  have "ssrc (jpeg_header (jpeg_packet_for s f)) = tx_ssrc s"
    "sequence_number (jpeg_header (jpeg_packet_for s f)) = current_sequence_number s"
    by (simp_all add: jpeg_packet_for_def)
  then show ?case
    using Cons.IH [of "s\<lparr>current_sequence_number := current_sequence_number s + 1\<rparr>"] Cons.prems
      spirit_octets.sent_packet_parses [OF assms(1), of s f] jpeg_packet_for_wf(5) [of s f]
    by simp
qed simp

subsection \<open>A receiver in a stream\<close>

text \<open>The sequence utility after a number of packets: two put the source out of probation.\<close>

definition utility_after :: "u16 \<Rightarrow> nat \<Rightarrow> seq_utility option \<Rightarrow> bool" where
  "utility_after n k u \<longleftrightarrow>
     (if k = 0 then u = None
      else \<exists>v. u = Some v \<and> max_seq v = n + of_nat (k - 1) \<and> probation v = (if k = 1 then 1 else 0))"

text \<open>
  What a receiver holds after the frames of a stream: all but the first are shown, wait to be shown, or are
  among the last 49, which wait for later packets.
\<close>

definition in_stream :: "u32 \<Rightarrow> u16 \<Rightarrow> octets list \<Rightarrow> jpeg_receiver \<times> octets list \<Rightarrow> bool" where
  "in_stream own n fs x \<longleftrightarrow> (case x of (r, shown) \<Rightarrow>
     rx_ssrc r = own \<and> utility_after n (length fs) (jpeg_sequence_utility r) \<and>
     length (jpeg_packet_incoming_buffer r) = min (length fs - 1) 49 \<and>
     map (sequence_number \<circ> jpeg_header \<circ> fst) (jpeg_packet_incoming_buffer r) =
       map (\<lambda>i. n + of_nat i) [length fs - min (length fs - 1) 49..<length fs] \<and>
     shown @ map jpeg_data (jpeg_packet_frame_buffer r) @ map (jpeg_data \<circ> fst) (jpeg_packet_incoming_buffer r) =
       tl fs)"

lemma in_stream_start: "in_stream own n [] (new_jpeg_receiver own, [])"
  by (simp add: in_stream_def utility_after_def new_jpeg_receiver_def)

lemma update_seq_first:
  "update_seq (new_seq_utility s) s = (0, (new_seq_utility s)\<lparr>probation := 1, max_seq := s\<rparr>)"
  by (simp add: update_seq_def new_seq_utility_def init_seq_def seq_constants Let_def)

text \<open>The next number of the stream is valid, except the first.\<close>

lemma utility_step:
  assumes "utility_after n k u" and "n \<noteq> 65535"
  obtains v where "update_seq (case u of None \<Rightarrow> new_seq_utility (n + of_nat k) | Some v \<Rightarrow> v) (n + of_nat k) =
      (if k = 0 then 0 else 1, v)" "utility_after n (Suc k) (Some v)"
proof (cases "k = 0")
  case True
  then show ?thesis
    using assms(1) that [of "(new_seq_utility n)\<lparr>probation := 1, max_seq := n\<rparr>"] update_seq_first [of n]
    by (simp add: utility_after_def)
next
  case False
  then obtain v j where v: "u = Some v" "max_seq v = n + of_nat j" "k = Suc j" "probation v = (if j = 0 then 1 else 0)"
    using assms(1) by (cases k) (auto simp: utility_after_def)
  show ?thesis
  proof (cases "j = 0")
    case True
    then show ?thesis
      using v that [of "(init_seq (v\<lparr>probation := 0\<rparr>) (n + 1))\<lparr>received := 1\<rparr>"]
        update_seq_probation [of v "n + 1"] uint_succ_16 [OF assms(2)]
      by (simp add: utility_after_def init_seq_def)
  next
    case False
    have "n + of_nat k - max_seq v = 1" using v by (simp add: algebra_simps)
    then show ?thesis
      using v False that [of "v\<lparr>cycles := (if n + of_nat k < max_seq v then cycles v + 65536 else cycles v),
          max_seq := n + of_nat k, received := received v + 1\<rparr>"] update_seq_in_order [of v "n + of_nat k"]
      by (simp add: utility_after_def)
  qed
qed

lemma uint_succ_le: "uint ((x :: u16) + 1) \<le> uint x + 1"
  by (simp add: uint_word_ariths zmod_le_nonneg_dividend)

text \<open>Consecutive numbers leave no gap, also where they wrap around.\<close>

lemma no_gap:
  assumes "map (sequence_number \<circ> jpeg_header \<circ> fst) buf = map (\<lambda>i. n + of_nat i) [a..<b]" and "Suc i < length buf"
  shows "jpeg_seq (buf ! Suc i) - jpeg_seq (buf ! i) < 2"
proof -
  have len: "length buf = b - a" using arg_cong [OF assms(1), of length] by simp
  have "map (sequence_number \<circ> jpeg_header \<circ> fst) buf ! j = n + of_nat (a + j)" if "j < length buf" for j
    using that len by (simp add: assms(1))
  then have at: "sequence_number (jpeg_header (fst (buf ! j))) = n + of_nat (a + j)" if "j < length buf" for j
    using that by simp
  let ?x = "n + of_nat (a + i) :: u16"
  have "jpeg_seq (buf ! Suc i) = uint (?x + 1)" "jpeg_seq (buf ! i) = uint ?x"
    using at [of "Suc i"] at [of i] assms(2) by (simp_all add: algebra_simps)
  then show ?thesis using uint_succ_le [of ?x] by linarith
qed

lemma advance_in_stream:
  assumes "map (sequence_number \<circ> jpeg_header \<circ> fst) (jpeg_packet_incoming_buffer r) = map (\<lambda>i. n + of_nat i) [a..<b]"
    and "length (jpeg_packet_incoming_buffer r) \<le> 50"
  shows "advance_buffers sp r = (Inr True,
    if length (jpeg_packet_incoming_buffer r) < 50 then r
    else r\<lparr>jpeg_packet_frame_buffer :=
             jpeg_packet_frame_buffer r @ [fst (hd (jpeg_packet_incoming_buffer r))],
           jpeg_packet_incoming_buffer := tl (jpeg_packet_incoming_buffer r)\<rparr>)"
proof (cases "length (jpeg_packet_incoming_buffer r) < 50")
  case True
  then show ?thesis by (simp add: advance_buffers_def receiver_constants)
next
  case False
  then have len: "length (jpeg_packet_incoming_buffer r) = 50" using assms(2) by simp
  have "jpeg_seq (jpeg_packet_incoming_buffer r ! 30) - jpeg_seq (jpeg_packet_incoming_buffer r ! 29) < 2"
    using no_gap [OF assms(1), of 29] len by simp
  then show ?thesis using len by (simp add: advance_buffers_def receiver_constants account_gap_def Let_def)
qed

lemma message_in_stream:
  assumes inv: "in_stream own n fs (r, shown)" and "n \<noteq> 65535"
    and m: "custom_jpeg_parse sp new_jpeg_packet m = (True, p, [])" "ssrc (jpeg_header p) = own"
      "sequence_number (jpeg_header p) = n + of_nat (length fs)" "2 \<le> length (jpeg_data p)"
  shows "in_stream own n (fs @ [jpeg_data p]) (snd (handle_new_incoming_message sp r m), shown)"
proof -
  let ?k = "length fs" and ?buf = "jpeg_packet_incoming_buffer r"
  note inv' = inv [unfolded in_stream_def prod.case]
  obtain v where v: "update_seq (case jpeg_sequence_utility r of
        None \<Rightarrow> new_seq_utility (n + of_nat ?k) | Some v \<Rightarrow> v) (n + of_nat ?k) = (if ?k = 0 then 0 else 1, v)"
      "utility_after n (Suc ?k) (Some v)"
    using utility_step [of n ?k "jpeg_sequence_utility r"] inv' assms(2) by blast
  let ?r = "r\<lparr>jpeg_sequence_utility := Some v\<rparr>"
  let ?b = "?r\<lparr>jpeg_packet_incoming_buffer := ?buf @ [(p, m)]\<rparr>"
  have jpeg: "handle_new_jpeg_packet sp r m = (if ?k = 0 then (Inr True, ?r) else advance_buffers sp ?b)"
    using m(1,2,4) v(1) [folded m(3)] inv' by (simp add: handle_new_jpeg_packet_def)
  show ?thesis
  proof (cases "?k = 0")
    case True
    then show ?thesis
      using jpeg v(2) inv' by (simp add: handle_new_incoming_message_def in_stream_def)
  next
    case False
    have seqs: "map (sequence_number \<circ> jpeg_header \<circ> fst) (jpeg_packet_incoming_buffer ?b) =
        map (\<lambda>i. n + of_nat i) [?k - min (?k - 1) 49..<Suc ?k]"
      using inv' m(3) by simp
    have tl: "tl (fs @ [jpeg_data p]) = tl fs @ [jpeg_data p]" using False by (cases fs) simp_all
    show ?thesis
    proof (cases "?k < 50")
      case True
      then have "length (jpeg_packet_incoming_buffer ?b) < 50" using inv' by simp
      then have "handle_new_jpeg_packet sp r m = (Inr True, ?b)"
        using jpeg False advance_in_stream [OF seqs, of sp] by simp
      moreover have "?k - min (?k - 1) 49 = Suc ?k - min ?k 49" using True False by (cases fs) simp_all
      ultimately show ?thesis
        using inv' v(2) seqs tl True False
        by (simp add: handle_new_incoming_message_def in_stream_def Suc_le_eq)
    next
      case full: False
      then have len: "length ?buf = 49" using inv' by simp
      obtain b bs where bs: "?buf = b # bs" using len by (cases ?buf) auto
      let ?c = "?b\<lparr>jpeg_packet_frame_buffer := jpeg_packet_frame_buffer r @ [fst (hd (?buf @ [(p, m)]))],
          jpeg_packet_incoming_buffer := tl (?buf @ [(p, m)])\<rparr>"
      have "handle_new_jpeg_packet sp r m = (Inr True, ?c)"
        using jpeg False advance_in_stream [OF seqs, of sp] len by simp
      moreover have "map (sequence_number \<circ> jpeg_header \<circ> fst) (tl (?buf @ [(p, m)])) =
          map (\<lambda>i. n + of_nat i) [Suc ?k - 49..<Suc ?k]"
      proof -
        have "[?k - 49..<Suc ?k] = (?k - 49) # [Suc (?k - 49)..<Suc ?k]" by (rule upt_conv_Cons) simp
        moreover have "Suc (?k - 49) = Suc ?k - 49" using full by simp
        ultimately show ?thesis using arg_cong [OF seqs, of tl] full bs by simp
      qed
      ultimately show ?thesis
        using inv' v(2) tl full len bs
        by (simp add: handle_new_incoming_message_def in_stream_def)
    qed
  qed
qed

text \<open>The functions of the strand, in any mixture with those of the timer and the client.\<close>

lemma tasks_in_stream:
  assumes "in_stream own n fs x" and "n \<noteq> 65535"
    and "streams sp own (n + of_nat (length fs)) (messages Family_v4 tasks) more_frames"
    and "messages Family_v6 tasks = []"
  shows "in_stream own n (fs @ more_frames) (fold (serial_task sp) tasks x)"
  using assms(1,3,4)
proof (induction tasks arbitrary: fs more_frames x)
  case Nil
  then show ?case by (cases more_frames) simp_all
next
  case (Cons task tasks)
  obtain r shown where x: "x = (r, shown)" by force
  show ?case
  proof (cases task)
    case (Message fam m)
    then have fam: "fam = Family_v4" using Cons.prems(3) by (cases fam) simp_all
    with Message Cons.prems(2) obtain f fs' where more: "more_frames = f # fs'" by (cases more_frames) auto
    with Cons.prems(2) Message fam obtain p where
      p: "custom_jpeg_parse sp new_jpeg_packet m = (True, p, [])" "ssrc (jpeg_header p) = own"
        "sequence_number (jpeg_header p) = n + of_nat (length fs)" "jpeg_data p = f" "2 \<le> length f"
      and rest: "streams sp own (n + of_nat (length (fs @ [f]))) (messages Family_v4 tasks) fs'"
      by (auto simp: algebra_simps)
    have "in_stream own n (fs @ [f]) (serial_task sp task x)"
      using message_in_stream [OF Cons.prems(1) [unfolded x] assms(2) p(1-3)] p(4,5) Message x by simp
    from Cons.IH [OF this rest] Cons.prems(3) Message more show ?thesis by (simp split: if_splits)
  next
    case (Display err)
    have "in_stream own n fs (serial_task sp task x)"
      using Cons.prems(1)
      by (auto simp: x Display in_stream_def display_next_frame_timer_handler_def split: list.splits)
    from Cons.IH [OF this] Cons.prems(2,3) Display show ?thesis by simp
  next
    case Set_statistics
    have "in_stream own n fs (serial_task sp task x)"
      using Cons.prems(1) by (simp add: x Set_statistics in_stream_def set_statistics_handler_def)
    from Cons.IH [OF this] Cons.prems(2,3) Set_statistics show ?thesis by simp
  next
    case Arm_display
    then show ?thesis using Cons by simp
  qed
qed

text \<open>Sender and receiver, as far as the datagrams have been handled.\<close>

lemma stream_handled:
  assumes "spirit_octets sp" and "decimal_lengths up digits"
    and "\<forall>f\<in>set fs. 2 \<le> length f \<and> length f < 100000"
    and "jpeg_source s = concat (map (decimal_lengths.encode_frame digits) fs)"
    and "tx_fec_generator s = None" and "\<not> channel_failure_distribution s" and "length fs < n"
    and "current_sequence_number s \<noteq> 65535"
    and "rtp_receiving_new sp (tx_ssrc s) can_bind busy now = Inr s0" and "rx_steps sp events s0 = Some t"
    and "prefix (arrivals Family_v4 events) (fst (run_handlers sp up n s))" and "arrivals Family_v6 events = []"
  shows "in_stream (tx_ssrc s) (current_sequence_number s)
      (take (length (messages Family_v4 (executed sp events s0))) fs) (rx_view t)"
    and "length (messages Family_v4 (executed sp events s0)) \<le> length fs"
proof -
  let ?tasks = "executed sp events s0" and ?n = "current_sequence_number s"
  let ?k = "length (messages Family_v4 ?tasks)"
  note new = constructed_receiver [OF assms(9)]
  have handled: "arrivals fam events = messages fam ?tasks @ waiting fam t" for fam
    using steps_waiting [OF new(1) assms(10), of fam] new(3) [of fam] by simp
  have sent: "fst (run_handlers sp up n s) = map (\<lambda>p. snd (custom_jpeg_generate sp p)) (packets_for s fs)"
    using run_handlers_frames [OF assms(2) _ assms(4-7), of sp] assms(3) by (fastforce simp: not_less)
  have "prefix (messages Family_v4 ?tasks) (map (\<lambda>p. snd (custom_jpeg_generate sp p)) (packets_for s fs))"
    using assms(11) unfolding sent handled by (metis append_prefixD)
  with sender_streams [OF assms(1), of fs s] assms(3)
  have "streams sp (tx_ssrc s) ?n (messages Family_v4 ?tasks) (take ?k fs)"
    using streams_prefix by blast
  then show "in_stream (tx_ssrc s) ?n (take ?k fs) (rx_view t)"
    using tasks_in_stream [OF in_stream_start assms(8), of sp "tx_ssrc s" ?tasks "take ?k fs"]
      handled [of Family_v6] assms(12) steps_serial [OF assms(10)] new(4) by simp
  show "?k \<le> length fs" using streams_length [OF \<open>streams sp _ _ _ _\<close>] by simp
qed

text \<open>What is shown is a beginning of the file without its first frame and without its last 49.\<close>

lemma in_stream_shown:
  assumes "in_stream own n (take k fs) (r, shown)" and "k \<le> length fs"
  shows "prefix shown (tl fs)" and "length shown \<le> length fs - 50"
proof -
  note eq = assms(1) [unfolded in_stream_def prod.case]
  have "prefix shown (tl (take k fs))" using eq by (metis prefixI)
  moreover have "prefix (tl (take k fs)) (tl fs)" by (cases fs; cases k) (simp_all add: take_is_prefix)
  ultimately show "prefix shown (tl fs)" using prefix_order.trans by blast
  have "length shown + length (jpeg_packet_incoming_buffer r) \<le> length (tl (take k fs))"
    using arg_cong [where f = length, OF eq [THEN conjunct2, THEN conjunct2, THEN conjunct2, THEN conjunct2]]
    by simp
  then show "length shown \<le> length fs - 50" using eq assms(2) by simp
qed

subsection \<open>Properties\<close>

text \<open>
  C3 (functional): a stream from the file to the display. A sender without parity packets and
  losses sends a file of frames; any first part of its datagrams arrives, in order, at a receiver of
  the same SSRC, in any interleaving of arrivals, threads, timers and calls of the client. Then,
  after \<open>k\<close> of the datagrams have been handled, the frames shown, those in the frame buffer and those in the
  incoming buffer are together exactly the first \<open>k\<close> frames of the file except the first, in
  order; and the incoming buffer holds the last 49 of them, which are not shown before more arrive, hence
  at the end of the file never.
\<close>

theorem stream_end_to_end:
  assumes "spirit_octets sp" and "decimal_lengths up digits"
    and "\<forall>f\<in>set fs. 2 \<le> length f \<and> length f < 100000"
    and "jpeg_source s = concat (map (decimal_lengths.encode_frame digits) fs)"
    and "tx_fec_generator s = None" and "\<not> channel_failure_distribution s" and "length fs < n"
    and "current_sequence_number s \<noteq> 65535"
    and "rtp_receiving_new sp (tx_ssrc s) can_bind busy now = Inr s0" and "rx_steps sp events s0 = Some t"
    and "prefix (arrivals Family_v4 events) (fst (run_handlers sp up n s))" and "arrivals Family_v6 events = []"
  shows "let k = length (messages Family_v4 (executed sp events s0)); r = rx_state t in
    shown_frames t @ map jpeg_data (jpeg_packet_frame_buffer r) @ map (jpeg_data \<circ> fst) (jpeg_packet_incoming_buffer r) =
      tl (take k fs) \<and>
    length (jpeg_packet_incoming_buffer r) = min (k - 1) 49"
  using stream_handled [OF assms] by (simp add: in_stream_def Let_def)

text \<open>A file of two frames.\<close>

definition two_frames :: "octets list" where
  "two_frames = [[0xFF, 0xD8, 0xFF, 0xD9], [0xFF, 0xD8, 1, 0xFF, 0xD9]]"

definition two_frame_sender :: jpeg_sender where
  "two_frame_sender = new_jpeg_sender 3735928559 (concat (map ascii.encode_frame two_frames)) 5 9"

definition frame_datagram :: "nat \<Rightarrow> octets" where
  "frame_datagram i = snd (custom_jpeg_generate octet_spirit (packets_for (new_jpeg_sender 3735928559 [] 5 9) two_frames ! i))"

lemma two_frames_length: "length (frame_datagram 0) = 24" "length (frame_datagram 1) = 25"
  by code_simp+

lemma two_frames_sent:
  "fst (run_handlers octet_spirit ascii_uint_parse 3 two_frame_sender) = [frame_datagram 0, frame_datagram 1]"
proof -
  have "packets_for two_frame_sender two_frames = packets_for (new_jpeg_sender 3735928559 [] 5 9) two_frames"
    by (rule packets_for_eq) (simp_all add: two_frame_sender_def new_jpeg_sender_def)
  then show ?thesis
    using run_handlers_frames [OF ascii.decimal_lengths_axioms, of two_frames two_frame_sender 3 octet_spirit]
    by (simp add: two_frames_def two_frame_sender_def new_jpeg_sender_def frame_datagram_def)
qed

lemma two_frames_handled:
  "fst (handle_new_incoming_message octet_spirit (new_jpeg_receiver 3735928559) (frame_datagram 0)) = Inr None"
  "fst (handle_new_incoming_message octet_spirit
     (snd (handle_new_incoming_message octet_spirit (new_jpeg_receiver 3735928559) (frame_datagram 0))) (frame_datagram 1)) =
   Inr None"
  by code_simp+

definition frames_arrive :: "rx_event list" where
  "frames_arrive =
     [Datagram_arrives Family_v4 (frame_datagram 0), Traffic_runs Family_v4 False,
      Datagram_arrives Family_v4 (frame_datagram 1), Traffic_runs Family_v4 False]"

lemma frames_arrive_run:
  "\<exists>t. rx_steps octet_spirit frames_arrive (sample_receiving 3735928559) = Some t \<and>
     executed octet_spirit frames_arrive (sample_receiving 3735928559) =
       [Message Family_v4 (frame_datagram 0), Message Family_v4 (frame_datagram 1)]"
proof -
  obtain r1 r2 where r: "handle_new_incoming_message octet_spirit (new_jpeg_receiver 3735928559) (frame_datagram 0) = (Inr None, r1)"
      "handle_new_incoming_message octet_spirit r1 (frame_datagram 1) = (Inr None, r2)"
    using two_frames_handled by (metis prod.collapse snd_conv)
  then show ?thesis
    using two_frames_length
    by (simp add: frames_arrive_def sample_receiving_state handle_rtp_traffic_def strand_dispatch_def after_handler_def
        receive_message_def start_rtp_receive_def)
qed

theorem stream_end_to_end_witness:
  "\<exists>t. rx_steps octet_spirit frames_arrive (sample_receiving 3735928559) = Some t \<and> shown_frames t = [] \<and>
     map (jpeg_data \<circ> fst) (jpeg_packet_incoming_buffer (rx_state t)) = [[0xFF, 0xD8, 1, 0xFF, 0xD9]]"
proof -
  obtain t where t: "rx_steps octet_spirit frames_arrive (sample_receiving 3735928559) = Some t"
      "executed octet_spirit frames_arrive (sample_receiving 3735928559) =
         [Message Family_v4 (frame_datagram 0), Message Family_v4 (frame_datagram 1)]"
    using frames_arrive_run by blast
  have s: "tx_ssrc two_frame_sender = 3735928559" "current_sequence_number two_frame_sender = 5"
    "tx_fec_generator two_frame_sender = None" "\<not> channel_failure_distribution two_frame_sender"
    "jpeg_source two_frame_sender = concat (map ascii.encode_frame two_frames)"
    by (simp_all add: two_frame_sender_def new_jpeg_sender_def)
  have "shown_frames t @ map jpeg_data (jpeg_packet_frame_buffer (rx_state t)) @
      map (jpeg_data \<circ> fst) (jpeg_packet_incoming_buffer (rx_state t)) = [[0xFF, 0xD8, 1, 0xFF, 0xD9]]"
    "length (jpeg_packet_incoming_buffer (rx_state t)) = 1"
    using stream_end_to_end [OF octet.spirit_octets_axioms ascii.decimal_lengths_axioms _ s(5,3,4), of 3,
        unfolded s(1,2), OF _ _ _ sample_receiving_new t(1)] t(2) two_frames_sent
    by (simp_all add: two_frames_def arrivals_def frames_arrive_def Let_def)
  then show ?thesis using t(1) by (auto simp: length_Suc_conv append_eq_Cons_conv)
qed

end
