(* ===== verification/Spec2Isabelle.thy ===== *)
theory Spec2Isabelle
  imports Rtp_Packet Rtp_Sequence Rtp_Receiver Rtp_Sender Rtsp_Headers Rtsp_Methods
    Rtsp_Server Rtsp_Message Rtsp_Connection Rtsp_Client Spirit_Text Rtsp_Grammar
    Rtsp_Message_Grammar Rtsp_Parsed Rtsp_Url Rtsp_Dialog Rtsp_Framing
    Rtsp_Listener Rtsp_Player Rtsp_Main Rtp_Receiving Rtp_Destruction Rtp_Stream
begin

text \<open>
  A model of the RTSP repository (\<open>src/src\<close>): an RTSP 1.0 server that streams motion JPEG files over
  RTP with XOR parity packets, the client that receives and repairs them, both in
  \<open>streaming_lib\<close>, the player around the client and the stand-alone program around the server.

  The parts and how they interact. A client (\<open>rtsp_client.cpp\<close>) sends requests over TCP; a
  connection of the server (\<open>rtsp_server.cpp\<close>) parses each and hands it to the server state
  (\<open>rtsp_server_internals.cpp\<close>), which finds or creates the session and calls a method handler
  (\<open>rtsp_methods.cpp\<close>). SETUP negotiates a transport and creates an RTP sender, which PLAY starts
  and PAUSE stops; the client creates an RTP receiver from the answer. The sender reads frames
  from a file, packs them and feeds every datagram to the FEC generator; the receiver keeps
  sequence number statistics, buffers the packets and rebuilds lost ones
  (\<open>rtp_endsystem.cpp\<close>, \<open>rtp_packet.hpp\<close>). The server process (\<open>rtsp_server.cpp\<close>) keeps two acceptors
  and two datagram sockets, its pool of threads takes the handlers that are ready, each in
  some order, and it is shut down and destroyed. The player (\<open>jpeg_rtsp_player.cpp\<close>) maps buttons
  to calls of the client; the main program (\<open>rtsp_server_standalone.cpp\<close>) reads its arguments.

  The theories, in the order of their imports:
  \<^item> \<open>Prelude\<close>: words, exceptions and results, checked indexing, generic lemmas.
  \<^item> \<open>Process\<close>: what processes driven by events share, as locales: runs as sequences of events, invariants
    of the steps, and the histories of a component of the state. The server process and the receiver
    are instances, with their invariants.
  \<^item> \<open>Spirit\<close>: the binary parsers and generators of Boost.Spirit as a parameter with its laws.
  \<^item> \<open>Rtp_Packet\<close>: the packet structures, parsers and generators of \<open>rtp_packet.hpp\<close>; round trips,
    termination of the FEC parser, the misread header extension.
  \<^item> \<open>Rtp_Sequence\<close>: \<open>rtp_receiver_squence_utility\<close>; refinement to one unbounded sequence number
    and exactness of the statistics.
  \<^item> \<open>Fec_Generator\<close>: \<open>fec_generator\<close>; refinement to the parity of a block, its errors, repair.
  \<^item> \<open>Rtp_Receiver\<close>: all handlers of the receiver; order of display, buffer bounds, what a
    reconstruction yields and how it fails.
  \<^item> \<open>Rtp_Receiving\<close>: the receiver as a process: its sockets, strand and timer. The strand makes its handlers
    a sequence, keeps datagrams in order, shows at most one frame per period, and one stray
    datagram can end its reception.
  \<^item> \<open>Rtp_Destruction\<close>: the destructor of the receiver, and when what it leaves to run is harmless.
  \<^item> \<open>Rtp_Sender\<close>: the timer handler and the life cycle of the sender as a transition system.
  \<^item> \<open>Rtp_Stream\<close>: sender and receiver together: which frames of a file are shown.
  \<^item> \<open>Rtsp_Headers\<close>: messages, header normalisation, transports and their negotiation.
  \<^item> \<open>Rtsp_Message\<close>: the generators of \<open>rtsp_message.hpp\<close> and the framing of messages.
  \<^item> \<open>Rtsp_Methods\<close>: sessions and the handlers SETUP, TEARDOWN, PLAY and PAUSE; the locale
    \<open>rtsp_method\<close> is the contract the server relies on, interpreted for each of them.
  \<^item> \<open>Rtsp_Server\<close>: \<open>handle_incoming_request\<close>, the timeout of a host, histories; invariant, answers
    and refinement to the state table of RFC 2326.
  \<^item> \<open>Rtsp_Connection\<close>: the handlers of a TCP connection and of a UDP datagram.
  \<^item> \<open>Rtsp_Client\<close>: the calls of the client, opening the socket, and the handlers of responses.
  \<^item> \<open>Spirit_Text\<close>: the text parsers of Boost.Spirit.Qi as a parameter with its laws: grammars are data,
    the locale \<open>spirit_qi\<close> says what running one means, \<open>qi_run\<close> is an implementation.
  \<^item> \<open>Rtsp_Grammar\<close>: the grammars and generators of \<open>rtsp_headers.hpp\<close>; round trips of transports and
    options, and what the client reads from a transport the server has chosen.
  \<^item> \<open>Rtsp_Message_Grammar\<close>: the grammars of \<open>rtsp_message.hpp\<close>, with the recursive rule for folded
    headers; round trips of requests and responses, two requests in one buffer.
  \<^item> \<open>Rtsp_Url\<close>: the URL grammars of client and server and their agreement.
  \<^item> \<open>Rtsp_Parsed\<close>: what the grammars accept: every message read is well typed, and what is left of an
    input is an end of it.
  \<^item> \<open>Rtsp_Dialog\<close>: client and server over the texts they exchange: SETUP end to end, with long and
    with short SSRCs, and pipelined requests.
  \<^item> \<open>Rtsp_Framing\<close>: no request over TCP splits the answer; a datagram can. The locale \<open>printable_env\<close> is
    what the method handlers need of the parsers, and the grammars provide it.
  \<^item> \<open>Rtsp_Listener\<close>: the server process: its constructor, sockets, the multisets of operations under
    way and of handlers that are ready, the turns of its threads, shut-down and destructor. Its runs
    serve only reachable states of \<open>Rtsp_Server\<close>; which datagrams are handled, when it stops
    to receive, how long a shut-down waits and when the destructor returns.
  \<^item> \<open>Rtsp_Player\<close>: the window and the buttons of the player with its statistics.
  \<^item> \<open>Rtsp_Main\<close>: the arguments of the stand-alone server, \<open>std::stoul\<close>, and the server's pimpl class.

  Conventions. A handler that changes state is a function that returns a result, \<open>Inl\<close> the
  exception, together with the state it leaves, since the event loops of the program catch
  exceptions and go on with that state. Undefined behaviour of C++ is an exception of its own.
  Random draws, the outcome of binding a socket, times and error codes are arguments. Histories
  are inductive predicates over the handlers; calls under a mutex or a strand are atomic steps.

  Fuel. The FEC level parser gets the length of its input as fuel, which is proved enough; all
  other loops are total functions.

  Grammars. The handlers of \<open>Rtsp_Methods\<close>, \<open>Rtsp_Connection\<close> and \<open>Rtsp_Client\<close> take parsing and
  printing functions from the records \<open>rtsp_env\<close>, \<open>wire\<close> and \<open>client_env\<close>; the predicate \<open>wired\<close> of
  \<open>Rtsp_Dialog\<close> says that these are the grammars and generators of the code, run by parsers that
  keep the laws of \<open>spirit_qi\<close>. The number generators of Karma are a parameter as well, with the law
  that they print a numeral without padding. The integers that C++ declares with
  \<open>uint_fast16_t\<close> have the sixteen bits they have at least.

  Loops that may not end. The loop in the destructor of a sender is a \<open>partial_function\<close>, so that not
  returning is \<open>None\<close>; \<open>destructor_returns_iff_nothing_runs\<close> says when it returns.

  Not modelled. Inside sockets, resolvers, timers and the scheduler of Boost.Asio: an operation that
  has been started completes at any time with any outcome its documentation allows. Qt's layout and
  drawing, and its delivery of signals. The destructor of the client, which stops its context and joins
  its threads before anything is destroyed. Logging. The tests.

  The last section composes the parts: \<open>film_end_to_end\<close> goes from the SETUP of a client over texts, server,
  sender, datagrams and receiver to the frames that are shown.
\<close>

subsection \<open>A film, from the request to the display\<close>


text \<open>The film of two frames, under the name of the sample.\<close>

definition film_env :: rtsp_env where
  "film_env = text_env\<lparr>file_octets := (\<lambda>_. concat (map ascii.encode_frame two_frames))\<rparr>"

definition film_choices :: choices where
  "film_choices = sample_choices\<lparr>drawn_ssrc := 3735928559, drawn_sequence_number := 5,
     drawn_fec_sequence_number := 9\<rparr>"

lemma film_wired: "wired message_run number_texts film_env text_wire text_client_env"
  using texts_wired by (simp add: wired_def film_env_def)

lemma film_resource: "get_jpeg_stream film_env (original_url (settings text_client)) =
    Some (concat (map ascii.encode_frame two_frames))"
  using text_resource by (auto simp: get_jpeg_stream_def film_env_def split: option.splits)


end
